(* ===== verification/Prelude.thy ===== *)
theory Prelude
  imports Main "HOL-Library.Word" "HOL-Library.Monad_Syntax"
begin

text \<open>
  The vocabulary the component theories share: bytes, the panicking slice operations of Rust,
  little-endian integers, decimal printing and UTF-8.

  A Rust function that may panic (an index or a slice bound out of range, an arithmetic
  overflow) returns an \<open>option\<close>: \<open>None\<close> is the panic, which unwinds through
  every caller, and the \<open>do\<close> notation of \<open>HOL-Library.Monad_Syntax\<close> propagates it.
  The program is modelled on a 64-bit little-endian target (\<open>usize = u64\<close>,
  \<open>to_ne_bytes = to_le_bytes\<close>).
\<close>

section \<open>Bytes and named collections\<close>

type_synonym byte = "8 word"
type_synonym bytes = "byte list"

named_theorems slice_simps \<open>how the slice operations act on appended lists\<close>
named_theorems le_simps \<open>little-endian integers\<close>

definition USIZE_LIMIT :: nat where
  "USIZE_LIMIT = 2 ^ 64"

section \<open>Panicking reads\<close>

text \<open>\<open>slice[i]\<close>, \<open>&slice[a..]\<close> and \<open>&slice[a..b]\<close> of Rust.\<close>

definition index :: "'a list \<Rightarrow> nat \<Rightarrow> 'a option" where
  "index xs i = (if i < length xs then Some (xs ! i) else None)"

definition slice_from :: "'a list \<Rightarrow> nat \<Rightarrow> 'a list option" where
  "slice_from xs a = (if a \<le> length xs then Some (drop a xs) else None)"

definition slice :: "'a list \<Rightarrow> nat \<Rightarrow> nat \<Rightarrow> 'a list option" where
  "slice xs a b = (if a \<le> b \<and> b \<le> length xs then Some (take (b - a) (drop a xs)) else None)"

lemma index_append [slice_simps]:
  "index (xs @ ys) i = (if i < length xs then Some (xs ! i) else index ys (i - length xs))"
  by (auto simp: index_def nth_append)

lemma index_Cons_0 [simp, slice_simps]: "index (x # xs) 0 = Some x"
  by (simp add: index_def)

lemma index_Cons_Suc [simp, slice_simps]: "index (x # xs) (Suc i) = index xs i"
  by (simp add: index_def)

lemma index_Cons_numeral [simp, slice_simps]:
  "index (x # xs) (numeral n) = index xs (pred_numeral n)"
  by (simp add: numeral_eq_Suc)

lemma index_Some_length: "index xs i = Some x \<Longrightarrow> i < length xs"
  by (auto simp: index_def split: if_splits)

lemma slice_from_append [simp, slice_simps]: "slice_from (xs @ ys) (length xs) = Some ys"
  by (simp add: slice_from_def)

lemma slice_from_append_eq [slice_simps]: "n = length xs \<Longrightarrow> slice_from (xs @ ys) n = Some ys"
  by simp

lemma slice_from_0 [simp, slice_simps]: "slice_from xs 0 = Some xs"
  by (simp add: slice_from_def)

lemma slice_from_Some: "slice_from xs a = Some ys \<Longrightarrow> ys = drop a xs \<and> a \<le> length xs"
  by (auto simp: slice_from_def split: if_splits)

lemma slice_append_eq [slice_simps]:
  "a = length xs \<Longrightarrow> b = a + length ys \<Longrightarrow> slice (xs @ ys @ zs) a b = Some ys"
  by (simp add: slice_def)

lemma slice_length: "slice xs a b = Some ys \<Longrightarrow> length ys = b - a \<and> b \<le> length xs \<and> a \<le> b"
  by (auto simp: slice_def split: if_splits)

section \<open>Little-endian integers\<close>

text \<open>The \<open>k\<close> low bytes of \<open>n\<close>, least significant first, and back.\<close>

fun to_le :: "nat \<Rightarrow> nat \<Rightarrow> bytes" where
  "to_le 0 n = []"
| "to_le (Suc k) n = word_of_nat n # to_le k (n div 256)"

fun from_le :: "bytes \<Rightarrow> nat" where
  "from_le [] = 0"
| "from_le (b # bs) = unat b + 256 * from_le bs"

lemma length_to_le [simp, le_simps]: "length (to_le k n) = k"
  by (induction k arbitrary: n) auto

lemma unat_byte_of_nat [simp, le_simps]: "unat (word_of_nat n :: byte) = n mod 256"
  by (simp add: unat_of_nat)

lemma from_le_to_le [simp, le_simps]: "from_le (to_le k n) = n mod 256 ^ k"
proof (induction k arbitrary: n)
  case 0
  show ?case by simp
next
  case (Suc k)
  have "n mod 256 ^ Suc k = n mod 256 + 256 * (n div 256 mod 256 ^ k)"
    by (simp add: mod_mult2_eq)
  with Suc.IH show ?case by simp
qed

lemma from_le_bound: "from_le bs < 256 ^ length bs"
proof (induction bs)
  case (Cons b bs)
  have "unat b < 256" using unsigned_less [of b] by simp
  with Cons.IH show ?case by simp
qed simp

lemma to_le_from_le: "to_le (length bs) (from_le bs) = bs"
proof (induction bs)
  case (Cons b bs)
  have "unat b < 256" using unsigned_less [of b] by simp
  then have "(unat b + 256 * from_le bs) div 256 = from_le bs" by simp
  moreover have "(word_of_nat (unat b + 256 * from_le bs) :: byte) = b"
    by (simp add: word_unat_eq_iff unat_of_nat \<open>unat b < 256\<close> del: of_nat_add of_nat_mult)
  ultimately show ?case using Cons.IH by simp
qed simp

lemma take_to_le: "j \<le> k \<Longrightarrow> take j (to_le k n) = to_le j n"
proof (induction j arbitrary: k n)
  case (Suc j)
  then obtain k' where "k = Suc k'" by (cases k) auto
  with Suc show ?case by simp
qed simp

lemma to_le_2: "to_le 2 n = [word_of_nat n, word_of_nat (n div 256)]"
  by (simp add: numeral_2_eq_2)

lemma to_le_1: "to_le 1 n = [word_of_nat n]"
  by simp

end
