(* ===== verification/Rust_Text.thy ===== *)
theory Rust_Text
  imports Prelude
begin

text \<open>
  What the program uses of Rust's text library and of its casts: string literals as their UTF-8 bytes,
  \<open>{}\<close> and \<open>{:09}\<close> printing of integers, \<open>char::from_u32\<close>, the UTF-8 encoding of a
  \<open>char\<close> and the validity test of \<open>std::str::from_utf8\<close>. Text is a byte list throughout,
  as a \<open>String\<close> is.
\<close>

section \<open>Literals\<close>

definition str :: "string \<Rightarrow> bytes" where
  "str s = map of_char s"

lemma str_Nil [simp]: "str [] = []"
  by (simp add: str_def)

lemma str_Cons [simp]: "str (c # s) = of_char c # str s"
  by (simp add: str_def)

lemma str_append [simp]: "str (s @ t) = str s @ str t"
  by (simp add: str_def)

lemma length_str [simp]: "length (str s) = length s"
  by (simp add: str_def)

section \<open>Decimal printing\<close>

definition digit :: "nat \<Rightarrow> byte" where
  "digit d = word_of_nat (48 + d)"

fun show_nat :: "nat \<Rightarrow> bytes" where
  "show_nat n = (if n < 10 then [digit n] else show_nat (n div 10) @ [digit (n mod 10)])"

declare show_nat.simps [simp del]

definition show_int :: "int \<Rightarrow> bytes" where
  "show_int i = (if i < 0 then 45 # show_nat (nat (- i)) else show_nat (nat i))"

definition show_bool :: "bool \<Rightarrow> bytes" where
  "show_bool b = (if b then str ''true'' else str ''false'')"

text \<open>\<open>{:0w}\<close>: at least \<open>w\<close> characters, zeros on the left.\<close>

definition show_pad :: "nat \<Rightarrow> nat \<Rightarrow> bytes" where
  "show_pad w n = replicate (w - length (show_nat n)) (digit 0) @ show_nat n"

text \<open>Reading a decimal numeral back, to say that printing loses nothing.\<close>

definition read_nat :: "bytes \<Rightarrow> nat" where
  "read_nat = foldl (\<lambda>a b. 10 * a + (unat b - 48)) 0"

lemma unat_digit: "d < 10 \<Longrightarrow> unat (digit d) = 48 + d"
  by (simp add: digit_def unat_of_nat del: of_nat_add)

lemma read_show_nat: "read_nat (show_nat n) = n"
proof (induction n rule: show_nat.induct)
  case (1 n)
  show ?case
  proof (cases "n < 10")
    case True
    then show ?thesis by (subst show_nat.simps) (simp add: read_nat_def unat_digit)
  next
    case False
    with "1.IH" have "read_nat (show_nat (n div 10)) = n div 10" by simp
    with False show ?thesis
      by (subst show_nat.simps) (simp add: read_nat_def unat_digit)
  qed
qed

lemma show_nat_inj: "show_nat m = show_nat n \<longleftrightarrow> m = n"
  by (metis read_show_nat)

lemma read_show_pad: "read_nat (show_pad w n) = n"
proof -
  have "foldl (\<lambda>a b. 10 * a + (unat b - 48)) 0 (replicate k (digit 0)) = 0" for k
    by (induction k) (simp_all add: unat_digit)
  then show ?thesis
    using read_show_nat [of n] by (simp add: show_pad_def read_nat_def)
qed

lemma length_show_nat_le: "n < 10 ^ k \<Longrightarrow> 0 < k \<Longrightarrow> length (show_nat n) \<le> k"
proof (induction n arbitrary: k rule: show_nat.induct)
  case (1 n)
  show ?case
  proof (cases "n < 10")
    case True
    with "1.prems" show ?thesis by (subst show_nat.simps) simp
  next
    case False
    with "1.prems" obtain j where k: "k = Suc j" "0 < j"
      by (cases k; cases "k - 1") auto
    with "1.prems" have "n div 10 < 10 ^ j" by (simp add: less_mult_imp_div_less)
    with "1.IH" False k have "length (show_nat (n div 10)) \<le> j" by simp
    with False k show ?thesis by (subst show_nat.simps) simp
  qed
qed

lemma length_show_pad: "n < 10 ^ k \<Longrightarrow> 0 < k \<Longrightarrow> length (show_pad k n) = k"
  using length_show_nat_le [of n k] by (simp add: show_pad_def)

section \<open>Casts\<close>

text \<open>\<open>x as i64\<close> for an unsigned \<open>x\<close>: the low 64 bits, read as two's complement.\<close>

definition as_i64 :: "nat \<Rightarrow> int" where
  "as_i64 n = (if n mod 2 ^ 64 < 2 ^ 63 then int (n mod 2 ^ 64) else int (n mod 2 ^ 64) - 2 ^ 64)"

lemma as_i64_small: "n < 2 ^ 63 \<Longrightarrow> as_i64 n = int n"
  by (simp add: as_i64_def)

section \<open>UTF-8\<close>

text \<open>A Rust \<open>char\<close> is a Unicode scalar value; \<open>char::from_u32\<close> fails on the others.\<close>

definition is_scalar :: "nat \<Rightarrow> bool" where
  "is_scalar c \<longleftrightarrow> c < 0xD800 \<or> 0xE000 \<le> c \<and> c \<le> 0x10FFFF"

definition utf8_char :: "nat \<Rightarrow> bytes" where
  "utf8_char c =
     (if c < 0x80 then [word_of_nat c]
      else if c < 0x800 then [word_of_nat (0xC0 + c div 64), word_of_nat (0x80 + c mod 64)]
      else if c < 0x10000 then
        [word_of_nat (0xE0 + c div 4096), word_of_nat (0x80 + c div 64 mod 64),
         word_of_nat (0x80 + c mod 64)]
      else
        [word_of_nat (0xF0 + c div 262144), word_of_nat (0x80 + c div 4096 mod 64),
         word_of_nat (0x80 + c div 64 mod 64), word_of_nat (0x80 + c mod 64)])"

definition between :: "nat \<Rightarrow> nat \<Rightarrow> byte \<Rightarrow> bool" where
  "between lo hi b \<longleftrightarrow> lo \<le> unat b \<and> unat b \<le> hi"

definition cont :: "byte \<Rightarrow> bool" where
  "cont b \<longleftrightarrow> between 0x80 0xBF b"

text \<open>
  \<open>std::str::from_utf8\<close> accepts the well-formed sequences of the Unicode standard: no overlong
  forms, no surrogates, nothing above U+10FFFF, no truncated sequence.
\<close>

definition utf8_lead3 :: "byte \<Rightarrow> byte \<Rightarrow> bool" where
  "utf8_lead3 b c \<longleftrightarrow>
     (unat b = 0xE0 \<and> between 0xA0 0xBF c) \<or> (between 0xE1 0xEC b \<and> cont c) \<or>
     (unat b = 0xED \<and> between 0x80 0x9F c) \<or> (between 0xEE 0xEF b \<and> cont c)"

definition utf8_lead4 :: "byte \<Rightarrow> byte \<Rightarrow> bool" where
  "utf8_lead4 b c \<longleftrightarrow>
     (unat b = 0xF0 \<and> between 0x90 0xBF c) \<or> (between 0xF1 0xF3 b \<and> cont c) \<or>
     (unat b = 0xF4 \<and> between 0x80 0x8F c)"

fun utf8_next :: "bytes \<Rightarrow> bytes option" where
  "utf8_next [] = None"
| "utf8_next (b # bs) =
     (if unat b < 0x80 then Some bs
      else (case bs of
          [] \<Rightarrow> None
        | c # cs \<Rightarrow>
            if between 0xC2 0xDF b then (if cont c then Some cs else None)
            else (case cs of
                [] \<Rightarrow> None
              | d # ds \<Rightarrow>
                  if utf8_lead3 b c then (if cont d then Some ds else None)
                  else (case ds of
                      [] \<Rightarrow> None
                    | e # es \<Rightarrow>
                        if utf8_lead4 b c \<and> cont d \<and> cont e then Some es else None))))"

lemma utf8_next_shorter: "utf8_next bs = Some r \<Longrightarrow> length r < length bs"
  by (cases bs) (auto split: list.splits if_splits)

lemma utf8_next_append: "utf8_next xs = Some r \<Longrightarrow> utf8_next (xs @ ys) = Some (r @ ys)"
  by (cases xs) (auto split: list.splits if_splits)

function valid_utf8 :: "bytes \<Rightarrow> bool" where
  "valid_utf8 bs =
     (bs = [] \<or> (case utf8_next bs of None \<Rightarrow> False | Some r \<Rightarrow> valid_utf8 r))"
  by pat_completeness auto
termination
  by (relation "measure length") (auto dest: utf8_next_shorter)

declare valid_utf8.simps [simp del]

lemma valid_utf8_Nil [simp]: "valid_utf8 []"
  by (simp add: valid_utf8.simps)

lemma valid_utf8_step: "utf8_next bs = Some r \<Longrightarrow> valid_utf8 bs = valid_utf8 r"
  by (cases "bs = []") (simp_all add: valid_utf8.simps [of bs])

lemma valid_utf8_Cons_ascii [simp]: "unat b < 0x80 \<Longrightarrow> valid_utf8 (b # bs) = valid_utf8 bs"
  by (rule valid_utf8_step) simp

text \<open>\<open>std::str::from_utf8(..).unwrap_or("")\<close>\<close>

definition from_utf8_or_empty :: "bytes \<Rightarrow> bytes" where
  "from_utf8_or_empty bs = (if valid_utf8 bs then bs else [])"

lemma valid_utf8_append: "valid_utf8 xs \<Longrightarrow> valid_utf8 ys \<Longrightarrow> valid_utf8 (xs @ ys)"
proof (induction xs rule: valid_utf8.induct)
  case (1 xs)
  show ?case
  proof (cases "xs = []")
    case False
    with "1.prems" obtain r where r: "utf8_next xs = Some r" "valid_utf8 r"
      by (auto simp: valid_utf8.simps [of xs] split: option.splits)
    with "1.IH" False "1.prems" have "valid_utf8 (r @ ys)" by blast
    with r(1) show ?thesis by (simp add: valid_utf8_step [OF utf8_next_append])
  qed (simp add: "1.prems")
qed

lemma unat_byte_small: "n < 256 \<Longrightarrow> unat (word_of_nat n :: byte) = n"
  by simp

lemmas utf8_simps = between_def cont_def utf8_lead3_def utf8_lead4_def

lemma valid_utf8_2:
  assumes "2 \<le> p" "p < 32" "q < 64"
  shows "valid_utf8 [word_of_nat (0xC0 + p), word_of_nat (0x80 + q)]"
proof -
  obtain b1 b2 :: byte where b: "b1 = word_of_nat (0xC0 + p)" "b2 = word_of_nat (0x80 + q)"
    by blast
  have "unat b1 = 0xC0 + p" "unat b2 = 0x80 + q"
    unfolding b using assms by (intro unat_byte_small; linarith)+
  then have "utf8_next [b1, b2] = Some []" using assms by (simp add: utf8_simps)
  then have "valid_utf8 [b1, b2]" by (simp add: valid_utf8_step)
  then show ?thesis unfolding b .
qed

lemma valid_utf8_3:
  assumes "p < 16" "q < 64" "r < 64" "p = 0 \<Longrightarrow> 32 \<le> q" "p = 13 \<Longrightarrow> q < 32"
  shows "valid_utf8 [word_of_nat (0xE0 + p), word_of_nat (0x80 + q), word_of_nat (0x80 + r)]"
proof -
  obtain b1 b2 b3 :: byte where b: "b1 = word_of_nat (0xE0 + p)"
    "b2 = word_of_nat (0x80 + q)" "b3 = word_of_nat (0x80 + r)"
    by blast
  have u: "unat b1 = 0xE0 + p" "unat b2 = 0x80 + q" "unat b3 = 0x80 + r"
    unfolding b using assms by (intro unat_byte_small; linarith)+
  have "utf8_lead3 b1 b2"
    unfolding utf8_simps u using assms by linarith
  then have "utf8_next [b1, b2, b3] = Some []"
    using assms by (simp add: cont_def between_def u)
  then have "valid_utf8 [b1, b2, b3]" by (simp add: valid_utf8_step)
  then show ?thesis unfolding b .
qed

lemma valid_utf8_4:
  assumes "p < 5" "q < 64" "r < 64" "t < 64" "p = 0 \<Longrightarrow> 16 \<le> q" "p = 4 \<Longrightarrow> q < 16"
  shows "valid_utf8 [word_of_nat (0xF0 + p), word_of_nat (0x80 + q),
    word_of_nat (0x80 + r), word_of_nat (0x80 + t)]"
proof -
  obtain b1 b2 b3 b4 :: byte where b: "b1 = word_of_nat (0xF0 + p)"
    "b2 = word_of_nat (0x80 + q)" "b3 = word_of_nat (0x80 + r)" "b4 = word_of_nat (0x80 + t)"
    by blast
  have u: "unat b1 = 0xF0 + p" "unat b2 = 0x80 + q" "unat b3 = 0x80 + r" "unat b4 = 0x80 + t"
    unfolding b using assms by (intro unat_byte_small; linarith)+
  have "utf8_lead4 b1 b2"
    unfolding utf8_simps u using assms by linarith
  moreover have "\<not> utf8_lead3 b1 b2"
    unfolding utf8_simps u using assms by linarith
  ultimately have "utf8_next [b1, b2, b3, b4] = Some []"
    using assms by (simp add: cont_def between_def u)
  then have "valid_utf8 [b1, b2, b3, b4]" by (simp add: valid_utf8_step)
  then show ?thesis unfolding b .
qed

lemma div_split: "c div (64 * m) = p \<Longrightarrow> c div m mod 64 = q \<Longrightarrow> c div m = 64 * p + (q::nat)"
  by (metis div_mult2_eq mult.commute mult_div_mod_eq)

lemma valid_utf8_char: "is_scalar c \<Longrightarrow> valid_utf8 (utf8_char c)"
proof -
  assume c: "is_scalar c"
  consider "c < 0x80" | "0x80 \<le> c" "c < 0x800" | "0x800 \<le> c" "c < 0x10000" | "0x10000 \<le> c"
    by linarith
  then show ?thesis
  proof cases
    case 1
    then have "unat (word_of_nat c :: byte) < 0x80" by simp
    with 1 show ?thesis by (simp add: utf8_char_def)
  next
    case 2
    then have "c div 64 < 32" "2 \<le> c div 64" by auto
    then have "valid_utf8 [word_of_nat (0xC0 + c div 64), word_of_nat (0x80 + c mod 64)]"
      by (intro valid_utf8_2) simp_all
    moreover have "\<not> c < 0x80" using 2 by simp
    ultimately show ?thesis using 2 unfolding utf8_char_def by (simp only: if_False if_True simp_thms)
  next
    case 3
    have d: "c div 64 = 64 * (c div 4096) + c div 64 mod 64"
      using div_split [of c 64] by simp
    have "c div 4096 < 16" using 3 by auto
    moreover have "32 \<le> c div 64 mod 64" if "c div 4096 = 0" using 3 d that by auto
    moreover have "c div 64 mod 64 < 32" if "c div 4096 = 13"
    proof -
      have "c < 0xD800" using c 3 that by (auto simp: is_scalar_def)
      then have "c div 64 < 864" by auto
      with d that show ?thesis by linarith
    qed
    ultimately have "valid_utf8 [word_of_nat (0xE0 + c div 4096),
        word_of_nat (0x80 + c div 64 mod 64), word_of_nat (0x80 + c mod 64)]"
      by (intro valid_utf8_3) simp_all
    moreover have "\<not> c < 0x80" "\<not> c < 0x800" using 3 by simp_all
    ultimately show ?thesis using 3 unfolding utf8_char_def by (simp only: if_False if_True simp_thms)
  next
    case 4
    have d: "c div 4096 = 64 * (c div 262144) + c div 4096 mod 64"
      using div_split [of c 4096] by simp
    have "c div 262144 < 5" using 4 c by (auto simp: is_scalar_def)
    moreover have "16 \<le> c div 4096 mod 64" if "c div 262144 = 0" using 4 d that by auto
    moreover have "c div 4096 mod 64 < 16" if "c div 262144 = 4"
    proof -
      have "c div 4096 < 272" using c 4 by (auto simp: is_scalar_def)
      with d that show ?thesis by linarith
    qed
    ultimately have "valid_utf8 [word_of_nat (0xF0 + c div 262144),
        word_of_nat (0x80 + c div 4096 mod 64), word_of_nat (0x80 + c div 64 mod 64),
        word_of_nat (0x80 + c mod 64)]"
      by (intro valid_utf8_4) simp_all
    moreover have "\<not> c < 0x80" "\<not> c < 0x800" "\<not> c < 0x10000" using 4 by simp_all
    ultimately show ?thesis unfolding utf8_char_def by (simp only: if_False if_True simp_thms)
  qed
qed

lemma valid_utf8_ascii: "(\<forall>b \<in> set bs. unat b < 128) \<Longrightarrow> valid_utf8 bs"
  by (induction bs) auto

section \<open>Joining with a separator\<close>

fun sep_join :: "bytes \<Rightarrow> bytes list \<Rightarrow> bytes" where
  "sep_join s [] = []"
| "sep_join s [x] = x"
| "sep_join s (x # y # ys) = x @ s @ sep_join s (y # ys)"

lemma sep_join_Cons: "sep_join s (x # xs) = x @ (if xs = [] then [] else s @ sep_join s xs)"
  by (cases xs) auto

end
