(* ===== verification/Ring.thy ===== *)
theory Ring
  imports Rust_Text
begin

text \<open>
  The byte ring that \<open>src/queue.rs\<close> takes from the third-party crate \<open>rtrb\<close>. It is a
  parameter of the model: the record \<open>rtrb\<close> of the operations the code calls, over an opaque
  ring state \<open>'r\<close> that producer and consumer share. The locale \<open>byte_ring\<close> states the
  documented laws of those operations, those of a bounded byte FIFO in circular storage; the
  last section gives a circular buffer that satisfies them, on which the model runs.
\<close>

section \<open>The ring of rtrb, as a parameter\<close>

text \<open>
  \<open>rb_write_chunk r n\<close> is \<open>write_chunk_uninit(n)\<close>: the memory of the two slices of the
  chunk (stale bytes), or \<open>None\<close> when fewer than \<open>n\<close> slots are free. \<open>rb_commit_write r a b n\<close>
  is \<open>commit(n)\<close> after the slices were filled with \<open>a\<close> and \<open>b\<close>. \<open>rb_read_chunk\<close> and
  \<open>rb_commit_read\<close> are the consumer's pair; \<open>rb_drop_producer\<close> drops the \<open>Producer\<close>.
\<close>

record 'r rtrb =
  rb_new :: "nat \<Rightarrow> 'r"
  rb_write_chunk :: "'r \<Rightarrow> nat \<Rightarrow> (bytes \<times> bytes) option"
  rb_commit_write :: "'r \<Rightarrow> bytes \<Rightarrow> bytes \<Rightarrow> nat \<Rightarrow> 'r"
  rb_slots :: "'r \<Rightarrow> nat"
  rb_read_chunk :: "'r \<Rightarrow> nat \<Rightarrow> (bytes \<times> bytes) option"
  rb_commit_read :: "'r \<Rightarrow> nat \<Rightarrow> 'r"
  rb_is_empty :: "'r \<Rightarrow> bool"
  rb_drop_producer :: "'r \<Rightarrow> 'r"
  rb_is_abandoned :: "'r \<Rightarrow> bool"

section \<open>The contract of the ring\<close>

text \<open>
  How a ring state is read in the specification: \<open>committed\<close> are the bytes written and not yet
  read, \<open>rpos\<close> the read position in the circular storage of \<open>cap\<close> slots, \<open>gone\<close> whether the
  producer was dropped, \<open>ok\<close> the representation invariant.
\<close>

record 'r ring_view =
  ok :: "'r \<Rightarrow> bool"
  committed :: "'r \<Rightarrow> bytes"
  cap :: "'r \<Rightarrow> nat"
  rpos :: "'r \<Rightarrow> nat"
  gone :: "'r \<Rightarrow> bool"

text \<open>
  The documented behaviour of \<open>rtrb\<close>: a bounded FIFO of bytes. A chunk is split in two slices
  where the storage wraps around, the write chunk at \<open>(rpos + length committed) mod cap\<close>.
\<close>

locale byte_ring =
  fixes R :: "'r rtrb"
    and V :: "'r ring_view"
  assumes new: "ok V (rb_new R c)" "committed V (rb_new R c) = []" "cap V (rb_new R c) = c"
      "rpos V (rb_new R c) = 0" "\<not> gone V (rb_new R c)"
    and fits: "ok V r \<Longrightarrow> length (committed V r) \<le> cap V r"
    and rpos_bound: "ok V r \<Longrightarrow> 0 < cap V r \<Longrightarrow> rpos V r < cap V r"
    and write_chunk: "ok V r \<Longrightarrow>
      rb_write_chunk R r n = None \<longleftrightarrow> cap V r < n + length (committed V r)"
    and write_slices: "ok V r \<Longrightarrow> rb_write_chunk R r n = Some (a, b) \<Longrightarrow>
      length a = min n (cap V r - (rpos V r + length (committed V r)) mod cap V r) \<and>
      length a + length b = n"
    and commit_write: "ok V r \<Longrightarrow> rb_write_chunk R r n = Some (a, b) \<Longrightarrow>
      length a' = length a \<Longrightarrow> length b' = length b \<Longrightarrow> r' = rb_commit_write R r a' b' n \<Longrightarrow>
      ok V r' \<and> committed V r' = committed V r @ a' @ b' \<and> cap V r' = cap V r \<and> rpos V r' = rpos V r \<and>
      gone V r' = gone V r"
    and slots: "ok V r \<Longrightarrow> rb_slots R r = length (committed V r)"
    and read_chunk: "ok V r \<Longrightarrow> n \<le> length (committed V r) \<Longrightarrow>
      \<exists>a b. rb_read_chunk R r n = Some (a, b) \<and> a @ b = take n (committed V r) \<and>
        length a = min n (cap V r - rpos V r)"
    and commit_read: "ok V r \<Longrightarrow> n \<le> length (committed V r) \<Longrightarrow> r' = rb_commit_read R r n \<Longrightarrow>
      ok V r' \<and> committed V r' = drop n (committed V r) \<and> cap V r' = cap V r \<and>
      rpos V r' = (rpos V r + n) mod cap V r \<and> gone V r' = gone V r"
    and is_empty: "ok V r \<Longrightarrow> rb_is_empty R r \<longleftrightarrow> committed V r = []"
    and drop_producer: "ok V r \<Longrightarrow> r' = rb_drop_producer R r \<Longrightarrow>
      ok V r' \<and> committed V r' = committed V r \<and> cap V r' = cap V r \<and> rpos V r' = rpos V r \<and> gone V r'"
    and is_abandoned: "ok V r \<Longrightarrow> rb_is_abandoned R r \<longleftrightarrow> gone V r"

section \<open>A concrete ring\<close>

text \<open>A circular buffer that satisfies the contract, for executing the model.\<close>

record cring =
  c_buf :: bytes
  c_rd :: nat
  c_len :: nat
  c_gone :: bool

definition c_cap :: "cring \<Rightarrow> nat" where
  "c_cap r = length (c_buf r)"

definition c_wr :: "cring \<Rightarrow> nat" where
  "c_wr r = (c_rd r + c_len r) mod c_cap r"

text \<open>The \<open>m\<close> bytes of a circular buffer from position \<open>k\<close> on.\<close>

definition window :: "bytes \<Rightarrow> nat \<Rightarrow> nat \<Rightarrow> bytes" where
  "window xs k m = take m (drop k (xs @ xs))"

definition c_committed :: "cring \<Rightarrow> bytes" where
  "c_committed r = window (c_buf r) (c_rd r) (c_len r)"

definition c_inv :: "cring \<Rightarrow> bool" where
  "c_inv r \<longleftrightarrow> c_len r \<le> c_cap r \<and> (0 < c_cap r \<longrightarrow> c_rd r < c_cap r) \<and> (c_cap r = 0 \<longrightarrow> c_rd r = 0)"

definition c_split :: "cring \<Rightarrow> nat \<Rightarrow> nat \<Rightarrow> bytes \<times> bytes" where
  "c_split r p n =
     (let k = min n (c_cap r - p) in (take k (drop p (c_buf r)), take (n - k) (c_buf r)))"

definition c_rtrb :: "cring rtrb" where
  "c_rtrb = \<lparr>
     rb_new = (\<lambda>c. \<lparr>c_buf = replicate c 0, c_rd = 0, c_len = 0, c_gone = False\<rparr>),
     rb_write_chunk = (\<lambda>r n. if c_cap r < n + c_len r then None else Some (c_split r (c_wr r) n)),
     rb_commit_write = (\<lambda>r a b n. r\<lparr>
       c_buf := b @ drop (length b) (take (c_wr r) (c_buf r)) @ a @
                drop (c_wr r + length a) (c_buf r),
       c_len := c_len r + n\<rparr>),
     rb_slots = c_len,
     rb_read_chunk = (\<lambda>r n. if c_len r < n then None else Some (c_split r (c_rd r) n)),
     rb_commit_read = (\<lambda>r n. r\<lparr>c_rd := (c_rd r + n) mod c_cap r, c_len := c_len r - n\<rparr>),
     rb_is_empty = (\<lambda>r. c_len r = 0),
     rb_drop_producer = (\<lambda>r. r\<lparr>c_gone := True\<rparr>),
     rb_is_abandoned = c_gone\<rparr>"

lemma c_rtrb_simps [simp]:
  "rb_new c_rtrb c = \<lparr>c_buf = replicate c 0, c_rd = 0, c_len = 0, c_gone = False\<rparr>"
  "rb_write_chunk c_rtrb r n =
     (if c_cap r < n + c_len r then None else Some (c_split r (c_wr r) n))"
  "rb_commit_write c_rtrb r a b n = r\<lparr>
     c_buf := b @ drop (length b) (take (c_wr r) (c_buf r)) @ a @ drop (c_wr r + length a) (c_buf r),
     c_len := c_len r + n\<rparr>"
  "rb_slots c_rtrb r = c_len r"
  "rb_read_chunk c_rtrb r n = (if c_len r < n then None else Some (c_split r (c_rd r) n))"
  "rb_commit_read c_rtrb r n = r\<lparr>c_rd := (c_rd r + n) mod c_cap r, c_len := c_len r - n\<rparr>"
  "rb_is_empty c_rtrb r \<longleftrightarrow> c_len r = 0"
  "rb_drop_producer c_rtrb r = r\<lparr>c_gone := True\<rparr>"
  "rb_is_abandoned c_rtrb r = c_gone r"
  by (simp_all add: c_rtrb_def)

lemma length_window: "k + m \<le> 2 * length xs \<Longrightarrow> length (window xs k m) = m"
  unfolding window_def by (simp only: length_take length_drop length_append)

lemma nth_window:
  assumes "i < m" "k + m \<le> 2 * length xs"
  shows "window xs k m ! i = xs ! (if k + i < length xs then k + i else k + i - length xs)"
proof -
  have "window xs k m ! i = (xs @ xs) ! (k + i)"
    unfolding window_def using assms by (subst nth_take, simp, subst nth_drop) simp_all
  then show ?thesis by (simp add: nth_append)
qed

lemma window_split:
  assumes "n \<le> m" "k + m \<le> 2 * length xs" "k \<le> length xs"
  shows "take n (window xs k m) =
    take (min n (length xs - k)) (drop k xs) @ take (n - min n (length xs - k)) xs"
  using assms by (simp add: window_def min_def take_append drop_append split: if_splits)

lemma mod_if_double: "a < 2 * m \<Longrightarrow> a mod m = (if a < m then a else a - m)" for a m :: nat
  by (auto simp: le_mod_geq)

lemma length_c_committed: "c_inv r \<Longrightarrow> length (c_committed r) = c_len r"
  by (auto simp: c_committed_def c_inv_def c_cap_def intro!: length_window)

lemma length_c_split:
  assumes "c_split r p n = (a, b)" "n \<le> c_cap r" "p \<le> c_cap r" "n - (c_cap r - p) \<le> c_cap r"
  shows "length a = min n (c_cap r - p)" "length b = n - min n (c_cap r - p)"
  using assms by (auto simp: c_split_def Let_def c_cap_def)

lemma c_write_nth:
  fixes buf a b :: bytes and w :: nat
  defines "B \<equiv> b @ drop (length b) (take w buf) @ a @ drop (w + length a) buf"
  assumes "length b \<le> w" "w + length a \<le> length buf"
  shows "length B = length buf"
    and "j < length buf \<Longrightarrow> B ! j = (if j < length b then b ! j else if j < w then buf ! j
           else if j < w + length a then a ! (j - w) else buf ! j)"
  using assms by (auto simp: B_def nth_append min_def)

lemma c_write_committed:
  fixes buf a b :: bytes and rd len n :: nat
  defines "N \<equiv> length buf"
  defines "w \<equiv> (rd + len) mod N"
  defines "B \<equiv> b @ drop (length b) (take w buf) @ a @ drop (w + length a) buf"
  assumes N: "0 < N" "rd < N" "n + len \<le> N"
    and a: "length a = min n (N - w)" and b: "length b = n - length a"
  shows "window B rd (len + n) = window buf rd len @ a @ b"
proof (rule nth_equalityI)
  have w: "w = (if rd + len < N then rd + len else rd + len - N)" "w < N"
    using N by (auto simp: w_def mod_if_double)
  have bw: "length b \<le> w" "w + length a \<le> length buf"
    using N a b w by (auto simp: N_def split: if_splits)
  note B = c_write_nth [OF bw, folded B_def]
  have lB: "length B = N" using B(1) by (simp add: N_def)
  have lW: "length (window B rd (len + n)) = len + n" "length (window buf rd len) = len"
    using N lB by (auto simp: N_def intro!: length_window)
  show "length (window B rd (len + n)) = length (window buf rd len @ a @ b)"
    using N a b by (simp add: lW)
  fix i
  assume "i < length (window B rd (len + n))"
  then have i: "i < len + n" by (simp add: lW)
  define j where "j = (if rd + i < N then rd + i else rd + i - N)"
  have j: "j < N" using i N by (auto simp: j_def)
  have "window B rd (len + n) ! i = B ! j"
    using i N lB by (simp add: nth_window j_def)
  also have "\<dots> = (if i < len then buf ! j else (a @ b) ! (i - len))"
  proof -
    note Bj = B(2) [of j, folded N_def, OF j]
    consider "i < len" | "len \<le> i" "i - len < length a" | "len \<le> i" "\<not> i - len < length a"
      by linarith
    then show ?thesis
    proof cases
      case 1
      then have "\<not> j < length b" "\<not> (w \<le> j \<and> j < w + length a)"
        using N a b w(1) by (simp_all add: j_def split: if_splits) linarith+
      then show ?thesis using 1 Bj by auto
    next
      case 2
      then have "j = w + (i - len)" using i N a b w(1) by (simp add: j_def split: if_splits) linarith+
      then have "\<not> j < length b" "\<not> j < w" "j < w + length a" "j - w = i - len"
        using 2 bw by linarith+
      with Bj have "B ! j = a ! (i - len)" by (simp only: if_True if_False)
      then show ?thesis using 2 by (simp add: nth_append)
    next
      case 3
      then have la: "length a = N - w" using a i by linarith
      have "rd + len < N" using 3 la i N w(1) by (auto split: if_splits)
      then have "w = rd + len" "\<not> rd + i < N" using w(1) 3 la by auto
      then have "j = i - len - length a" "j < length b"
        using i b la w(2) \<open>rd + len < N\<close> by (simp_all add: j_def)
      then show ?thesis using 3 Bj by (simp add: nth_append)
    qed
  qed
  also have "\<dots> = (window buf rd len @ a @ b) ! i"
    using i N lW(2) by (auto simp: nth_append [of "window buf rd len"] nth_window j_def N_def)
  finally show "window B rd (len + n) ! i = (window buf rd len @ a @ b) ! i" .
qed

lemma c_split_write:
  assumes "c_inv r" "rb_write_chunk c_rtrb r n = Some (a, b)"
  shows "length a = min n (c_cap r - c_wr r)" "length a + length b = n" "n + c_len r \<le> c_cap r"
proof -
  have n: "n + c_len r \<le> c_cap r" and s: "c_split r (c_wr r) n = (a, b)"
    using assms(2) by (auto split: if_splits)
  have w: "c_wr r \<le> c_cap r"
    by (cases "c_cap r = 0") (use assms(1) n in \<open>auto simp: c_wr_def c_inv_def less_imp_le\<close>)
  show "n + c_len r \<le> c_cap r" by (fact n)
  show "length a = min n (c_cap r - c_wr r)" "length a + length b = n"
    using length_c_split [OF s] n w by auto
qed

lemma c_commit_write:
  assumes inv: "c_inv r" and wc: "rb_write_chunk c_rtrb r n = Some (a, b)"
    and len: "length a' = length a" "length b' = length b" and r': "r' = rb_commit_write c_rtrb r a' b' n"
  shows "c_inv r' \<and> c_committed r' = c_committed r @ a' @ b' \<and> c_cap r' = c_cap r \<and>
    c_rd r' = c_rd r \<and> c_gone r' = c_gone r"
proof (cases "c_cap r = 0")
  case True
  then show ?thesis
    using c_split_write [OF inv wc] len r' inv
    by (auto simp: c_inv_def c_cap_def c_committed_def c_wr_def window_def)
next
  case False
  note w = c_split_write [OF inv wc]
  have rd: "c_rd r < length (c_buf r)" "c_len r \<le> length (c_buf r)"
    using inv False by (auto simp: c_inv_def c_cap_def)
  have wr: "c_wr r = (c_rd r + c_len r) mod length (c_buf r)" "c_wr r < length (c_buf r)"
    using False by (simp_all add: c_wr_def c_cap_def)
  have "length a' = min n (length (c_buf r) - (c_rd r + c_len r) mod length (c_buf r))"
    using w(1) len(1) wr(1) by (simp add: c_cap_def)
  moreover have "length b' = n - length a'" using w(2) len by simp
  moreover have "0 < length (c_buf r)" "n + c_len r \<le> length (c_buf r)"
    using False w(3) by (simp_all add: c_cap_def)
  ultimately have "window (c_buf r') (c_rd r) (c_len r + n) =
      window (c_buf r) (c_rd r) (c_len r) @ a' @ b'"
    using c_write_committed [of "c_buf r" "c_rd r" n "c_len r" a' b'] rd(1)
    unfolding r' c_rtrb_simps wr(1) by simp
  then have c: "c_committed r' = c_committed r @ a' @ b'"
    by (simp add: c_committed_def r')
  have "length b' \<le> c_wr r" "c_wr r + length a' \<le> length (c_buf r)"
    using w len wr rd by (auto simp: c_cap_def mod_if_double min_def split: if_splits)
  then have "c_cap r' = c_cap r"
    using r' by (auto simp: c_cap_def)
  then show ?thesis using c inv w(3) r' by (auto simp: c_inv_def)
qed

lemma c_read_chunk:
  assumes "c_inv r" "n \<le> length (c_committed r)"
  shows "\<exists>a b. rb_read_chunk c_rtrb r n = Some (a, b) \<and> a @ b = take n (c_committed r) \<and>
    length a = min n (c_cap r - c_rd r)"
proof -
  have n: "n \<le> c_len r" "c_len r \<le> length (c_buf r)" "c_rd r \<le> length (c_buf r)"
    using assms by (auto simp: length_c_committed c_inv_def c_cap_def)
  then show ?thesis
    using window_split [of n "c_len r" "c_rd r" "c_buf r"]
    by (simp add: c_committed_def c_split_def c_cap_def Let_def)
qed

lemma c_commit_read:
  assumes "c_inv r" "n \<le> length (c_committed r)" "r' = rb_commit_read c_rtrb r n"
  shows "c_inv r' \<and> c_committed r' = drop n (c_committed r) \<and> c_cap r' = c_cap r \<and>
    c_rd r' = (c_rd r + n) mod c_cap r \<and> c_gone r' = c_gone r"
proof (cases "c_cap r = 0")
  case True
  then show ?thesis using assms by (auto simp: c_inv_def c_cap_def c_committed_def window_def)
next
  case False
  have n: "n \<le> c_len r" "c_len r \<le> length (c_buf r)" "c_rd r < length (c_buf r)"
    using assms False by (auto simp: length_c_committed c_inv_def c_cap_def)
  have l: "length (window (c_buf r) (c_rd r) (c_len r)) = c_len r"
    using n by (intro length_window) simp
  have r: "(c_rd r + n) mod length (c_buf r) + (c_len r - n) \<le> 2 * length (c_buf r)"
    using n by (simp add: mod_if_double) linarith
  have "c_committed r' = drop n (c_committed r)"
  proof (rule nth_equalityI)
    show "length (c_committed r') = length (drop n (c_committed r))"
      using assms(3) r by (simp add: c_committed_def c_cap_def length_window l)
    fix i
    assume "i < length (c_committed r')"
    then have i: "i < c_len r - n"
      using assms(3) r by (simp add: c_committed_def c_cap_def length_window)
    have "drop n (c_committed r) ! i = window (c_buf r) (c_rd r) (c_len r) ! (n + i)"
      using n l by (simp add: c_committed_def)
    then show "c_committed r' ! i = drop n (c_committed r) ! i"
      using i n assms(3) r
      by (auto simp: c_committed_def c_cap_def nth_window mod_if_double add.assoc
          intro!: arg_cong [where f = "nth (c_buf r)"])
  qed
  then show ?thesis using assms False n by (auto simp: c_inv_def c_cap_def)
qed

definition c_view :: "cring ring_view" where
  "c_view = \<lparr>ok = c_inv, committed = c_committed, cap = c_cap, rpos = c_rd, gone = c_gone\<rparr>"

lemma c_view_simps [simp]:
  "ok c_view = c_inv" "committed c_view = c_committed" "cap c_view = c_cap"
  "rpos c_view = c_rd" "gone c_view = c_gone"
  by (simp_all add: c_view_def)

interpretation cr: byte_ring c_rtrb c_view
proof (unfold_locales, goal_cases)
  case (9 r n a b)
  then show ?case
    using c_split_write [of r n a b] by (simp only: c_view_simps c_wr_def length_c_committed simp_thms)
next
  case (10 r n a b a' b' r')
  then show ?case unfolding c_view_simps by (rule c_commit_write)
next
  case (12 r n)
  then show ?case unfolding c_view_simps by (rule c_read_chunk)
next
  case (13 r n r')
  then show ?case unfolding c_view_simps by (rule c_commit_read)
qed (auto simp: c_inv_def c_cap_def c_committed_def window_def length_c_committed)

end
