(* ===== verification/Queue.thy ===== *)
theory Queue
  imports Ring
begin

text \<open>
  \<open>src/queue.rs\<close>: length-prefixed messages in a byte ring, each frame an 8-byte header (a
  4-byte length and 4 unused bytes), the message, and zeros up to the next multiple of 64. All
  operations take the ring's operations \<open>R\<close> and work on the ring state.

  Writing a slice through raw pointers is undefined behaviour when it runs past the slice: it is
  \<open>None\<close>, as a panic is.
\<close>

unbundle bit_operations_syntax

section \<open>Constants and helpers\<close>

definition DEFAULT_START_CAPACITY :: nat where
  "DEFAULT_START_CAPACITY = 131072"

definition MAX_BLOCK_CAPACITY :: nat where
  "MAX_BLOCK_CAPACITY = 2147483648"

definition FRAME_HEADER :: nat where
  "FRAME_HEADER = 8"

definition CACHE_LINE :: nat where
  "CACHE_LINE = 64"

text \<open>\<open>(n + align - 1) & !(align - 1)\<close> on \<open>usize\<close>.\<close>

definition align_up :: "nat \<Rightarrow> nat \<Rightarrow> nat" where
  "align_up n align =
     unat ((word_of_nat (n + align - 1) :: 64 word) AND NOT (word_of_nat (align - 1)))"

text \<open>A raw write of \<open>bs\<close> at offset \<open>off\<close> of a slice.\<close>

definition mem_write :: "bytes \<Rightarrow> nat \<Rightarrow> bytes \<Rightarrow> bytes option" where
  "mem_write m off bs =
     (if off + length bs \<le> length m
      then Some (take off m @ bs @ drop (off + length bs) m) else None)"

section \<open>Producer and consumer\<close>

datatype PushError = Full

text \<open>\<open>SpscProducer::push\<close>: the error, or the ring after the commit.\<close>

definition push :: "'r rtrb \<Rightarrow> 'r \<Rightarrow> bytes \<Rightarrow> (PushError + 'r) option" where
  "push R r data =
     (let msg_len = length data;
          total = FRAME_HEADER + msg_len;
          padded = align_up total CACHE_LINE
      in case rb_write_chunk R r padded of
        None \<Rightarrow> Some (Inl Full)
      | Some (first, second) \<Rightarrow>
          (let header = to_le 4 msg_len
           in if total \<le> length first then do {
                f1 \<leftarrow> mem_write first 0 header;
                f2 \<leftarrow> mem_write f1 FRAME_HEADER data;
                let pad = length first - total;
                f3 \<leftarrow> (if 0 < pad then mem_write f2 total (replicate pad 0) else Some f2);
                s1 \<leftarrow> (if second \<noteq> [] then mem_write second 0 (replicate (length second) 0)
                       else Some second);
                Some (Inr (rb_commit_write R r f3 s1 padded))
              }
              else do {
                let first_data = length first - FRAME_HEADER;
                f1 \<leftarrow> mem_write first 0 header;
                f2 \<leftarrow> mem_write f1 FRAME_HEADER (take first_data data);
                let remaining = msg_len - first_data;
                s1 \<leftarrow> mem_write second 0 (drop first_data data);
                let pad = length second - remaining;
                s2 \<leftarrow> (if 0 < pad then mem_write s1 remaining (replicate pad 0) else Some s1);
                Some (Inr (rb_commit_write R r f2 s2 padded))
              }))"

text \<open>
  \<open>SpscProducer::push_encoded\<close>: the closure \<open>encode\<close> gets the payload slice (stale bytes in the
  contiguous case, zeros in the wrapped case), returns what it left there and its result, or
  panics.
\<close>

definition push_encoded ::
    "'r rtrb \<Rightarrow> 'r \<Rightarrow> nat \<Rightarrow> (bytes \<Rightarrow> (bytes \<times> 'x) option) \<Rightarrow> (PushError + 'x \<times> 'r) option" where
  "push_encoded R r total_msg encode =
     (let total = FRAME_HEADER + total_msg;
          padded = align_up total CACHE_LINE
      in case rb_write_chunk R r padded of
        None \<Rightarrow> Some (Inl Full)
      | Some (first, second) \<Rightarrow>
          (let header = to_le 4 total_msg
           in if total \<le> length first then do {
                f1 \<leftarrow> mem_write first 0 header;
                (payload, result) \<leftarrow> encode (take total_msg (drop FRAME_HEADER f1));
                f2 \<leftarrow> mem_write f1 FRAME_HEADER payload;
                let pad = length first - total;
                f3 \<leftarrow> (if 0 < pad then mem_write f2 total (replicate pad 0) else Some f2);
                s1 \<leftarrow> (if second \<noteq> [] then mem_write second 0 (replicate (length second) 0)
                       else Some second);
                Some (Inr (result, rb_commit_write R r f3 s1 padded))
              }
              else do {
                (tmp, result) \<leftarrow> encode (replicate total_msg 0);
                f1 \<leftarrow> mem_write first 0 header;
                let first_data = length first - FRAME_HEADER;
                f2 \<leftarrow> mem_write f1 FRAME_HEADER (take first_data tmp);
                let remaining = total_msg - first_data;
                s2 \<leftarrow> (if 0 < remaining then do {
                         s1 \<leftarrow> mem_write second 0 (drop first_data tmp);
                         let pad = length second - remaining;
                         (if 0 < pad then mem_write s1 remaining (replicate pad 0) else Some s1)
                       } else Some second);
                Some (Inr (result, rb_commit_write R r f2 s2 padded))
              }))"

text \<open>\<open>SpscConsumer::pop\<close> and \<open>pop_all\<close>. The loop of \<open>pop_all\<close> stops when the queue is empty.\<close>

definition pop :: "'r rtrb \<Rightarrow> 'r \<Rightarrow> bytes option \<times> 'r" where
  "pop R r =
     (let slots = rb_slots R r
      in if slots < FRAME_HEADER then (None, r)
         else case rb_read_chunk R r slots of
           None \<Rightarrow> (None, r)
         | Some (first, second) \<Rightarrow>
             if length first < FRAME_HEADER then (None, r)
             else
               let msg_len = from_le (take 4 first);
                   padded = align_up (FRAME_HEADER + msg_len) CACHE_LINE;
                   available = length first + length second
               in if available < padded then (None, r)
                  else
                    let first_payload = min (length first - FRAME_HEADER) msg_len;
                        msg = take first_payload (drop FRAME_HEADER first);
                        remaining = msg_len - first_payload;
                        msg' = (if 0 < remaining
                                then msg @ take (min remaining (length second)) second else msg)
                    in (Some msg', rb_commit_read R r padded))"

partial_function (option) pop_all :: "'r rtrb \<Rightarrow> 'r \<Rightarrow> bytes list \<Rightarrow> (bytes list \<times> 'r) option" where
  "pop_all R r msgs =
     (case pop R r of
        (None, r') \<Rightarrow> Some (msgs, r')
      | (Some msg, r') \<Rightarrow> pop_all R r' (msgs @ [msg]))"

declare pop_all.simps [code]

text \<open>\<open>create_queue\<close>: the capacity the producer records, and the ring that both halves share.\<close>

definition create_queue :: "'r rtrb \<Rightarrow> nat \<Rightarrow> nat \<times> 'r" where
  [simp]: "create_queue R capacity = (capacity, rb_new R capacity)"

text \<open>
  \<open>SpscProducer\<close> also records its capacity; \<open>grow\<close> makes a ring of twice the capacity (at most
  \<open>MAX_BLOCK_CAPACITY\<close>): the new capacity and the new ring, or \<open>None\<close> when it cannot grow. The
  caller installs the new ring, which drops the old producer.
\<close>

definition grow :: "'r rtrb \<Rightarrow> nat \<Rightarrow> (nat \<times> 'r) option" where
  "grow R capacity =
     (let new_cap = min (capacity * 2) MAX_BLOCK_CAPACITY
      in if new_cap \<le> capacity then None else Some (new_cap, rb_new R new_cap))"

section \<open>Arithmetic of the frame\<close>

lemma word_and_not_mask: "(w :: 'a::len word) AND NOT (mask n) = push_bit n (drop_bit n w)"
  by (rule bit_word_eqI) (auto simp: bit_simps)

lemma unat_and_not_63: "unat ((w :: 64 word) AND NOT 63) = unat w div 64 * 64"
proof -
  have m: "(63 :: 64 word) = mask 6" by (simp add: mask_eq_exp_minus_1)
  have "push_bit 6 (drop_bit 6 w) = word_of_nat (unat w div 64 * 64)"
    by (simp add: push_bit_eq_mult word_unat_eq_iff unat_word_ariths unat_drop_bit_eq
        drop_bit_eq_div unat_of_nat mod_mult_left_eq)
  moreover have "unat w < 2 ^ LENGTH(64)" by (rule unsigned_less)
  then have "unat w div 64 * 64 < 2 ^ 64" by simp
  then have "unat (word_of_nat (unat w div 64 * 64) :: 64 word) = unat w div 64 * 64"
    by (simp add: unat_of_nat del: of_nat_mult)
  ultimately show ?thesis unfolding m word_and_not_mask by simp
qed

lemma align_up_64: "n + 63 < 2 ^ 64 \<Longrightarrow> align_up n CACHE_LINE = (n + 63) div 64 * 64"
proof -
  assume n: "n + 63 < 2 ^ 64"
  have "align_up n CACHE_LINE = unat ((word_of_nat (n + 63) :: 64 word) AND NOT 63)"
    by (simp add: align_up_def CACHE_LINE_def add.commute)
  also have "\<dots> = unat (word_of_nat (n + 63) :: 64 word) div 64 * 64"
    by (rule unat_and_not_63)
  also have "unat (word_of_nat (n + 63) :: 64 word) = n + 63"
    using n by (simp add: unat_of_nat del: of_nat_add)
  finally show ?thesis .
qed

section \<open>The queue as a list of messages\<close>

text \<open>
  The abstract state of a queue is the list of the messages it holds. \<open>framed bs ms\<close>: the
  committed bytes \<open>bs\<close> are the frames of \<open>ms\<close>, whatever the unused header bytes and the
  padding hold. \<open>queue_holds\<close> adds what keeps every frame header in one slice: capacity and read
  position are multiples of the frame alignment.
\<close>

definition frame_size :: "bytes \<Rightarrow> nat" where
  "frame_size m = (FRAME_HEADER + length m + 63) div 64 * 64"

definition is_frame :: "bytes \<Rightarrow> bytes \<Rightarrow> bool" where
  "is_frame f m \<longleftrightarrow> length f = frame_size m \<and> length m < 2 ^ 32 \<and>
     take 4 f = to_le 4 (length m) \<and> take (length m) (drop FRAME_HEADER f) = m"

fun framed :: "bytes \<Rightarrow> bytes list \<Rightarrow> bool" where
  "framed bs [] \<longleftrightarrow> bs = []"
| "framed bs (m # ms) \<longleftrightarrow>
     is_frame (take (frame_size m) bs) m \<and> framed (drop (frame_size m) bs) ms"

definition queue_holds :: "'r ring_view \<Rightarrow> 'r \<Rightarrow> bytes list \<Rightarrow> bool" where
  "queue_holds V r ms \<longleftrightarrow> ok V r \<and> 64 dvd cap V r \<and> cap V r < 2 ^ 32 \<and> 64 dvd rpos V r \<and>
     framed (committed V r) ms"

text \<open>What an operation on a queue leaves as it was.\<close>

definition same_ring :: "'r ring_view \<Rightarrow> 'r \<Rightarrow> 'r \<Rightarrow> bool" where
  "same_ring V r r' \<longleftrightarrow> cap V r' = cap V r \<and> gone V r' = gone V r"

lemma same_ring_trans: "same_ring V a b \<Longrightarrow> same_ring V b c \<Longrightarrow> same_ring V a c"
  by (simp add: same_ring_def)

lemma frame_size_bounds: "FRAME_HEADER + length m \<le> frame_size m" "64 \<le> frame_size m" "64 dvd frame_size m"
  by (auto simp: frame_size_def FRAME_HEADER_def)

lemma frame_size_least:
  assumes "FRAME_HEADER + length m \<le> n" "64 dvd n" shows "frame_size m \<le> n"
  using assms by (auto simp: frame_size_def elim!: dvdE)

lemma frame_size_le: "frame_size m \<le> length m + 71"
  by (simp add: frame_size_def FRAME_HEADER_def)

lemma align_up_frame: "length m < 2 ^ 63 \<Longrightarrow> align_up (FRAME_HEADER + length m) CACHE_LINE = frame_size m"
  by (subst align_up_64) (simp_all add: frame_size_def FRAME_HEADER_def)

lemma framed_Cons_frame: "framed bs (m # ms) \<Longrightarrow> frame_size m \<le> length bs"
  by (simp add: is_frame_def min_def split: if_splits)

lemma framed_Nil: "framed [] ms \<Longrightarrow> ms = []"
proof (cases ms)
  case (Cons m ms')
  assume "framed [] ms"
  then have "frame_size m \<le> length ([] :: bytes)" unfolding Cons by (rule framed_Cons_frame)
  then show ?thesis using frame_size_bounds(2) [of m] by simp
qed

lemma framed_length: "framed bs ms \<Longrightarrow> length bs = sum_list (map frame_size ms)"
proof (induction ms arbitrary: bs)
  case (Cons m ms)
  then have "length (drop (frame_size m) bs) = sum_list (map frame_size ms)"
    by (simp only: framed.simps)
  with framed_Cons_frame [OF Cons.prems] show ?case by simp
qed simp

lemma dvd_frame_sizes: "64 dvd sum_list (map frame_size ms)"
  by (induction ms) (simp_all add: frame_size_bounds)

lemma framed_dvd: "framed bs ms \<Longrightarrow> 64 dvd length bs"
  by (simp add: framed_length dvd_frame_sizes)

lemma framed_append: "framed bs ms \<Longrightarrow> is_frame f m \<Longrightarrow> framed (bs @ f) (ms @ [m])"
proof (induction ms arbitrary: bs)
  case Nil
  then show ?case by (simp add: is_frame_def)
next
  case (Cons a ms)
  with framed_Cons_frame [OF Cons.prems(1)] show ?case by simp
qed

section \<open>The frames the producer writes\<close>

text \<open>Both branches of \<open>push\<close> (and of \<open>push_encoded\<close>) leave a frame of the message in the chunk.\<close>

lemma mem_write_ok: "off + length bs \<le> length m \<Longrightarrow>
    mem_write m off bs = Some (take off m @ bs @ drop (off + length bs) m)"
  by (simp add: mem_write_def)

lemma write_header:
  "4 \<le> length a \<Longrightarrow>
   \<exists>f1. mem_write a 0 (to_le 4 n) = Some f1 \<and> length f1 = length a \<and> take 4 f1 = to_le 4 n"
  by (simp add: mem_write_ok)

lemma write_contiguous:
  assumes "length f1 = frame_size d" "take 4 f1 = to_le 4 (length d)" "length d < 2 ^ 32"
  shows "\<exists>f2 f3. mem_write f1 FRAME_HEADER d = Some f2 \<and>
    (if 0 < length f1 - (FRAME_HEADER + length d)
     then mem_write f2 (FRAME_HEADER + length d)
       (replicate (length f1 - (FRAME_HEADER + length d)) 0)
     else Some f2) = Some f3 \<and> length f3 = length f1 \<and> is_frame f3 d"
proof -
  have a: "8 + length d \<le> length f1"
    using assms frame_size_bounds [of d] by (simp add: FRAME_HEADER_def)
  define f2 where "f2 = take 8 f1 @ d @ drop (8 + length d) f1"
  have "mem_write f1 FRAME_HEADER d = Some f2"
    using a by (simp add: mem_write_ok f2_def FRAME_HEADER_def)
  moreover have "length f2 = length f1" "take 4 f2 = to_le 4 (length d)"
    "take (length d) (drop 8 f2) = d"
    using a assms(2) by (simp_all add: f2_def)
  moreover have "take 4 (take (8 + length d) f2 @ z) = take 4 f2" for z
    using a \<open>length f2 = length f1\<close> by simp
  ultimately show ?thesis
    using assms a by (auto simp: mem_write_ok FRAME_HEADER_def is_frame_def drop_take)
qed

lemma write_wrapped:
  assumes "length f1 + length b = frame_size d" "length f1 < FRAME_HEADER + length d"
    and "8 \<le> length f1" "take 4 f1 = to_le 4 (length d)" "length d < 2 ^ 32"
  defines "k \<equiv> length f1 - FRAME_HEADER"
  shows "\<exists>f2 s1 s2. mem_write f1 FRAME_HEADER (take k d) = Some f2 \<and> length f2 = length f1 \<and>
    mem_write b 0 (drop k d) = Some s1 \<and>
    (if 0 < length b - (length d - k)
     then mem_write s1 (length d - k) (replicate (length b - (length d - k)) 0)
     else Some s1) = Some s2 \<and> length s2 = length b \<and> is_frame (f2 @ s2) d"
    and "0 < length d - k"
proof -
  have fit: "8 + length d \<le> length f1 + length b"
    using assms frame_size_bounds [of d] by (simp add: FRAME_HEADER_def)
  have k: "k < length d" "length d - k \<le> length b" "8 + k = length f1"
    using assms fit by (auto simp: FRAME_HEADER_def)
  show "0 < length d - k" using k by simp
  define f2 where "f2 = take 8 f1 @ take k d"
  have m: "mem_write f1 FRAME_HEADER (take k d) = Some f2"
    using k by (simp add: mem_write_ok f2_def FRAME_HEADER_def)
  have f2: "length f2 = length f1" "take 4 f2 = to_le 4 (length d)" "drop 8 f2 = take k d"
    using k assms(4) by (simp_all add: f2_def)
  have fr: "is_frame (f2 @ drop k d @ z) d" if "length z = length b - (length d - k)" for z
    using that f2 k assms(1,5) by (simp add: is_frame_def FRAME_HEADER_def)
  show "\<exists>f2 s1 s2. mem_write f1 FRAME_HEADER (take k d) = Some f2 \<and> length f2 = length f1 \<and>
    mem_write b 0 (drop k d) = Some s1 \<and>
    (if 0 < length b - (length d - k)
     then mem_write s1 (length d - k) (replicate (length b - (length d - k)) 0)
     else Some s1) = Some s2 \<and> length s2 = length b \<and> is_frame (f2 @ s2) d"
    using k fr f2(1) m by (auto simp: mem_write_ok)
qed

section \<open>Every operation refines the list of messages\<close>

context byte_ring
begin

lemma chunk_slices:
  assumes q: "queue_holds V r ms" and c: "rb_write_chunk R r (frame_size d) = Some (a, b)"
  shows "length a + length b = frame_size d" "64 dvd length a" "64 \<le> length a"
    "length d < 2 ^ 32" "length d < 2 ^ 63"
proof -
  let ?w = "(rpos V r + length (committed V r)) mod cap V r"
  have k: "ok V r" "64 dvd cap V r" "64 dvd rpos V r" "64 dvd length (committed V r)" "cap V r < 2 ^ 32"
    using q by (auto simp: queue_holds_def framed_dvd)
  have fit: "frame_size d + length (committed V r) \<le> cap V r"
    using write_chunk [OF k(1), of "frame_size d"] c by simp
  have "64 dvd ?w" using k by (simp add: dvd_mod)
  have "?w < cap V r" using fit frame_size_bounds(2) [of d] by simp
  then have room: "64 \<le> cap V r - ?w" "64 dvd cap V r - ?w"
    using k \<open>64 dvd ?w\<close> by (auto intro: dvd_imp_le)
  have sl: "length a = min (frame_size d) (cap V r - ?w)" "length a + length b = frame_size d"
    using write_slices [OF k(1) c] by auto
  show "length a + length b = frame_size d" by (fact sl(2))
  show "64 dvd length a" "64 \<le> length a"
    using room frame_size_bounds [of d] by (simp_all add: sl(1) min_def)
  show "length d < 2 ^ 32" "length d < 2 ^ 63"
    using fit k(5) frame_size_bounds(1) [of d] by simp_all
qed

lemma commit_frame:
  assumes "queue_holds V r ms" "rb_write_chunk R r (frame_size d) = Some (a, b)"
    and "length a' = length a" "length b' = length b" "is_frame (a' @ b') d"
  defines "r' \<equiv> rb_commit_write R r a' b' (frame_size d)"
  shows "queue_holds V r' (ms @ [d]) \<and> same_ring V r r'"
proof -
  have "ok V r" using assms(1) by (simp add: queue_holds_def)
  note w = commit_write [OF this assms(2-4) refl, folded r'_def]
  have "framed (committed V r @ a' @ b') (ms @ [d])"
    using assms(1,5) by (simp add: queue_holds_def framed_append)
  then show ?thesis using w assms(1) by (simp add: queue_holds_def same_ring_def)
qed

lemma push_full:
  assumes "queue_holds V r ms" "length d < 2 ^ 63" "cap V r < frame_size d + length (committed V r)"
  shows "push R r d = Some (Inl Full)"
  using assms write_chunk [of r "frame_size d"]
  by (simp add: push_def align_up_frame queue_holds_def)

lemma push_fits:
  assumes q: "queue_holds V r ms" and fit: "frame_size d + length (committed V r) \<le> cap V r"
  shows "\<exists>r'. push R r d = Some (Inr r') \<and> queue_holds V r' (ms @ [d]) \<and> same_ring V r r'"
proof -
  obtain a b where c: "rb_write_chunk R r (frame_size d) = Some (a, b)"
    using write_chunk [of r "frame_size d"] q fit
    by (cases "rb_write_chunk R r (frame_size d)") (auto simp: queue_holds_def)
  note s = chunk_slices [OF q c]
  obtain f1 where f1: "mem_write a 0 (to_le 4 (length d)) = Some f1" "length f1 = length a"
    "take 4 f1 = to_le 4 (length d)"
    using write_header [of a "length d"] s(3) by auto
  show ?thesis
  proof (cases "FRAME_HEADER + length d \<le> length a")
    case True
    then have "frame_size d \<le> length a" using s(2) by (rule frame_size_least)
    then have "length a = frame_size d" "length b = 0" using s(1) by linarith+
    then have la: "length f1 = frame_size d" "b = []" by (simp_all add: f1)
    obtain f2 f3 where f2: "mem_write f1 FRAME_HEADER d = Some f2"
      and f3: "(if 0 < length a - (FRAME_HEADER + length d)
        then mem_write f2 (FRAME_HEADER + length d)
          (replicate (length a - (FRAME_HEADER + length d)) 0)
        else Some f2) = Some f3" "length f3 = length a" "is_frame f3 d"
      using write_contiguous [OF la(1) f1(3) s(4)] unfolding f1(2) by blast
    have "push R r d = Some (Inr (rb_commit_write R r f3 [] (frame_size d)))"
      using True c la(2) f3(1)
      by (simp add: push_def align_up_frame [OF s(5)] f1(1) f2 Let_def split: if_splits)
    then show ?thesis using commit_frame [OF q c f3(2), of b] f3 la by auto
  next
    case False
    then have sh: "length f1 < FRAME_HEADER + length d" "8 \<le> length f1" using s f1 by auto
    let ?k = "length a - FRAME_HEADER"
    obtain f2 s1 s2 where f2: "mem_write f1 FRAME_HEADER (take ?k d) = Some f2"
        "length f2 = length a"
      and s1: "mem_write b 0 (drop ?k d) = Some s1"
      and s2: "(if 0 < length b - (length d - ?k)
        then mem_write s1 (length d - ?k) (replicate (length b - (length d - ?k)) 0)
        else Some s1) = Some s2" "length s2 = length b" "is_frame (f2 @ s2) d"
      using write_wrapped(1) [OF _ sh f1(3) s(4), of b] s(1) unfolding f1(2) by auto
    have "?k \<le> length d" using False by simp
    then have "push R r d = Some (Inr (rb_commit_write R r f2 s2 (frame_size d)))"
      using False c f2(1) s1 s2(1)
      by (auto simp: push_def align_up_frame [OF s(5)] f1(1) Let_def split: if_splits)
    then show ?thesis using commit_frame [OF q c f2(2) s2(2,3)] by auto
  qed
qed

text \<open>\<open>push_encoded\<close> pushes whatever the closure leaves in the payload slice.\<close>

lemma push_encoded_full:
  assumes "queue_holds V r ms" "n < 2 ^ 63"
    and "cap V r < frame_size (replicate n 0) + length (committed V r)"
  shows "push_encoded R r n enc = Some (Inl Full)"
  using assms write_chunk [of r "frame_size (replicate n 0)"] align_up_frame [of "replicate n 0"]
  by (simp add: push_encoded_def queue_holds_def)

lemma push_encoded_fits:
  assumes q: "queue_holds V r ms"
    and fit: "frame_size (replicate n 0) + length (committed V r) \<le> cap V r"
    and enc: "\<And>p. length p = n \<Longrightarrow> \<exists>p' x. enc p = Some (p', x) \<and> length p' = n"
  shows "\<exists>p p' x r'. length p = n \<and> enc p = Some (p', x) \<and>
    push_encoded R r n enc = Some (Inr (x, r')) \<and> queue_holds V r' (ms @ [p']) \<and> same_ring V r r'"
proof -
  have fs: "frame_size d = frame_size (replicate n 0)" if "length d = n" for d
    using that by (simp add: frame_size_def)
  obtain a b where c: "rb_write_chunk R r (frame_size (replicate n 0)) = Some (a, b)"
    using write_chunk [of r "frame_size (replicate n 0)"] q fit
    by (cases "rb_write_chunk R r (frame_size (replicate n 0))") (auto simp: queue_holds_def)
  note s = chunk_slices [OF q c]
  have al: "align_up (FRAME_HEADER + n) CACHE_LINE = frame_size (replicate n 0)"
    using align_up_frame [of "replicate n 0"] s by simp
  obtain f1 where f1: "mem_write a 0 (to_le 4 n) = Some f1" "length f1 = length a"
    "take 4 f1 = to_le 4 n"
    using write_header [of a n] s(3) by auto
  show ?thesis
  proof (cases "FRAME_HEADER + n \<le> length a")
    case True
    then have "frame_size (replicate n 0) \<le> length a"
      using s(2) frame_size_least [of "replicate n 0"] by simp
    then have "length a = frame_size (replicate n 0)" "length b = 0" using s(1) by linarith+
    then have la: "length f1 = frame_size (replicate n 0)" "b = []" by (simp_all add: f1)
    let ?p = "take n (drop FRAME_HEADER f1)"
    have lp: "length ?p = n" using True f1(2) by (simp add: FRAME_HEADER_def)
    with enc obtain p' x where e: "enc ?p = Some (p', x)" "length p' = n" by blast
    have wr: "length f1 = frame_size p'" "take 4 f1 = to_le 4 (length p')" "length p' < 2 ^ 32"
      using la(1) fs [OF e(2)] f1(3) s(4) e(2) by simp_all
    obtain f2 f3 where f2: "mem_write f1 FRAME_HEADER p' = Some f2"
      and f3: "(if 0 < length a - (FRAME_HEADER + n)
        then mem_write f2 (FRAME_HEADER + n) (replicate (length a - (FRAME_HEADER + n)) 0)
        else Some f2) = Some f3" "length f3 = length a" "is_frame f3 p'"
      using write_contiguous [OF wr] unfolding f1(2) e(2) by blast
    have "push_encoded R r n enc =
        Some (Inr (x, rb_commit_write R r f3 [] (frame_size (replicate n 0))))"
      using True c la(2) e(1) f3(1)
      by (simp add: push_encoded_def al f1(1) f2 Let_def split: if_splits)
    moreover have "queue_holds V (rb_commit_write R r f3 [] (frame_size (replicate n 0))) (ms @ [p']) \<and>
        same_ring V r (rb_commit_write R r f3 [] (frame_size (replicate n 0)))"
      using commit_frame [of r ms p' a b f3 b] q c f3 la fs [OF e(2)] by simp
    ultimately show ?thesis using lp e(1) by blast
  next
    case False
    then have sh: "length f1 < FRAME_HEADER + n" "8 \<le> length f1" using s f1 by auto
    let ?k = "length a - FRAME_HEADER"
    let ?p = "replicate n (0 :: byte)"
    obtain p' x where e: "enc ?p = Some (p', x)" "length p' = n"
      using enc [of ?p] by auto
    have wr: "length f1 + length b = frame_size p'" "length f1 < FRAME_HEADER + length p'"
      "take 4 f1 = to_le 4 (length p')" "length p' < 2 ^ 32"
      using s(1,4) f1 sh fs [OF e(2)] e(2) by simp_all
    obtain f2 s1 s2 where f2: "mem_write f1 FRAME_HEADER (take ?k p') = Some f2"
        "length f2 = length a"
      and s1: "mem_write b 0 (drop ?k p') = Some s1"
      and s2: "(if 0 < length b - (n - ?k)
        then mem_write s1 (n - ?k) (replicate (length b - (n - ?k)) 0)
        else Some s1) = Some s2" "length s2 = length b" "is_frame (f2 @ s2) p'"
      using write_wrapped(1) [OF wr(1,2) sh(2) wr(3,4)] unfolding f1(2) e(2) by auto
    have "0 < n - ?k" using write_wrapped(2) [OF wr(1,2) sh(2) wr(3,4)] unfolding f1(2) e(2) .
    then have "push_encoded R r n enc =
        Some (Inr (x, rb_commit_write R r f2 s2 (frame_size (replicate n 0))))"
      using False c f2(1) s1 s2(1) e(1)
      by (simp add: push_encoded_def al f1(1) Let_def split: if_splits)
    moreover have "queue_holds V (rb_commit_write R r f2 s2 (frame_size (replicate n 0))) (ms @ [p']) \<and>
        same_ring V r (rb_commit_write R r f2 s2 (frame_size (replicate n 0)))"
      using commit_frame [of r ms p' a b f2 s2] q c f2(2) s2(2,3) fs [OF e(2)] by simp
    ultimately show ?thesis using e(1) length_replicate [of n "0 :: byte"] by blast
  qed
qed

text \<open>\<open>pop\<close> removes the oldest message, \<open>pop_all\<close> returns and removes them all.\<close>

lemma pop_empty: "queue_holds V r [] \<Longrightarrow> pop R r = (None, r)"
  by (simp add: pop_def queue_holds_def slots FRAME_HEADER_def)

lemma pop_Cons:
  assumes q: "queue_holds V r (m # ms)"
  shows "\<exists>r'. pop R r = (Some m, r') \<and> queue_holds V r' ms \<and> same_ring V r r'"
proof -
  let ?c = "committed V r"
  have k: "ok V r" "64 dvd cap V r" "64 dvd rpos V r" "cap V r < 2 ^ 32"
    and fr: "is_frame (take (frame_size m) ?c) m" "framed (drop (frame_size m) ?c) ms"
    using q by (auto simp: queue_holds_def)
  have le: "frame_size m \<le> length ?c"
    using q unfolding queue_holds_def by (blast intro: framed_Cons_frame)
  then have le64: "64 \<le> length ?c" using frame_size_bounds(2) [of m] by linarith
  have lm: "8 + length m \<le> frame_size m" "length m < 2 ^ 32"
    using frame_size_bounds [of m] fr(1) by (auto simp: FRAME_HEADER_def is_frame_def)
  obtain a b where ab: "rb_read_chunk R r (length ?c) = Some (a, b)" "a @ b = ?c"
    "length a = min (length ?c) (cap V r - rpos V r)"
    using read_chunk [OF k(1), of "length ?c"] by auto
  have "rpos V r < cap V r" using fits [OF k(1)] rpos_bound [OF k(1)] le64 by simp
  then have "64 \<le> cap V r - rpos V r" using k by (auto intro: dvd_imp_le)
  then have a8: "8 \<le> length a" using ab(3) le64 by simp
  have "take 4 a = take 4 ?c" using a8 unfolding ab(2) [symmetric] by simp
  also have "\<dots> = to_le 4 (length m)"
    using fr(1) lm by (simp add: is_frame_def min_def split: if_splits)
  finally have len: "from_le (take 4 a) = length m" using lm by simp
  have "take (length m) (drop 8 (a @ b)) = m"
    using fr(1) lm(1) unfolding ab(2) is_frame_def FRAME_HEADER_def drop_take take_take
    by (simp only: min_absorb1 le_diff_conv2)
  then have body: "take (min (length a - 8) (length m)) (drop 8 a) @
      take (length m - min (length a - 8) (length m)) b = m"
    using a8 by (cases "length a - 8 \<le> length m") (auto simp: min_def)
  have avail: "frame_size m \<le> length a + length b"
    using le unfolding ab(2) [symmetric] by simp
  then have rest: "min (length m - min (length a - 8) (length m)) (length b) =
      length m - min (length a - 8) (length m)"
    using lm a8 by simp
  have al: "align_up (8 + length m) CACHE_LINE = frame_size m"
    using align_up_frame [of m] lm(2) by (simp add: FRAME_HEADER_def)
  have p: "pop R r = (Some m, rb_commit_read R r (frame_size m))"
    using le64 a8 avail body rest lm
    by (auto simp: pop_def Let_def slots [OF k(1)] ab(1) len al FRAME_HEADER_def)
  note cr = commit_read [OF k(1) le refl]
  have "64 dvd (rpos V r + frame_size m) mod cap V r"
    using k by (simp add: dvd_mod frame_size_bounds)
  then show ?thesis using p cr k fr by (auto simp: queue_holds_def same_ring_def)
qed

lemma pop_all_returns:
  "queue_holds V r ms \<Longrightarrow>
   \<exists>r'. pop_all R r acc = Some (acc @ ms, r') \<and> queue_holds V r' [] \<and> same_ring V r r'"
proof (induction ms arbitrary: r acc)
  case Nil
  then show ?case
    by (subst pop_all.simps) (simp add: pop_empty same_ring_def)
next
  case (Cons m ms)
  obtain r1 where r1: "pop R r = (Some m, r1)" "queue_holds V r1 ms" "same_ring V r r1"
    using pop_Cons [OF Cons.prems] by blast
  from Cons.IH [OF r1(2), of "acc @ [m]"] show ?case
    by (subst pop_all.simps) (auto simp: r1(1) intro: same_ring_trans [OF r1(3)])
qed

lemma holds_is_empty: "queue_holds V r ms \<Longrightarrow> rb_is_empty R r \<longleftrightarrow> ms = []"
  by (auto simp: queue_holds_def is_empty dest: framed_Nil)

lemma new_holds: "64 dvd c \<Longrightarrow> c < 2 ^ 32 \<Longrightarrow> queue_holds V (rb_new R c) []"
  by (simp add: queue_holds_def new)

lemma drop_producer_holds: "queue_holds V r ms \<Longrightarrow>
    queue_holds V (rb_drop_producer R r) ms \<and> gone V (rb_drop_producer R r) \<and>
    cap V (rb_drop_producer R r) = cap V r"
  using drop_producer [of r] by (auto simp: queue_holds_def)

end

section \<open>Properties\<close>

text \<open>C14: A push into a queue holding the messages \<open>ms\<close> appends the message exactly when its
  padded frame fits into the free space, whichever way the frame wraps around the end of the
  storage; otherwise it reports \<open>Full\<close> and the ring is not written.\<close>

theorem push_refines:
  assumes "byte_ring R V" and "queue_holds V r ms" and "length d < 2 ^ 63"
  shows "if frame_size d + length (committed V r) \<le> cap V r
         then \<exists>r'. push R r d = Some (Inr r') \<and> queue_holds V r' (ms @ [d]) \<and> same_ring V r r'
         else push R r d = Some (Inl Full)"
  using assms byte_ring.push_full [OF assms(1-3)] byte_ring.push_fits [OF assms(1,2)] by simp

theorem push_refines_witness:
  "if frame_size [1, 2] + length (committed c_view (rb_new c_rtrb 128)) \<le> cap c_view (rb_new c_rtrb 128)
   then \<exists>r'. push c_rtrb (rb_new c_rtrb 128) [1, 2] = Some (Inr r') \<and>
     queue_holds c_view r' ([] @ [[1, 2]]) \<and> same_ring c_view (rb_new c_rtrb 128) r'
   else push c_rtrb (rb_new c_rtrb 128) [1, 2] = Some (Inl Full)"
  by (rule push_refines [OF cr.byte_ring_axioms cr.new_holds]) simp_all

text \<open>C13: \<open>push_encoded\<close> does the same with a message that a closure writes in place: with a closure
  that fills the slice it is given, the message appended is what the closure left there (in the
  contiguous case in the ring, in the wrapped case through a temporary buffer), and the closure's
  result is returned.\<close>

theorem push_encoded_refines:
  assumes "byte_ring R V" and "queue_holds V r ms" and "n < 2 ^ 63"
    and "\<forall>p. length p = n \<longrightarrow> (\<exists>p' x. enc p = Some (p', x) \<and> length p' = n)"
  shows "if frame_size (replicate n 0) + length (committed V r) \<le> cap V r
         then \<exists>p p' x r'. length p = n \<and> enc p = Some (p', x) \<and>
           push_encoded R r n enc = Some (Inr (x, r')) \<and> queue_holds V r' (ms @ [p']) \<and> same_ring V r r'
         else push_encoded R r n enc = Some (Inl Full)"
  using assms byte_ring.push_encoded_full [OF assms(1-3), of enc]
    byte_ring.push_encoded_fits [OF assms(1,2), of n enc] by simp

theorem push_encoded_refines_witness:
  defines "enc \<equiv> \<lambda>p :: bytes. Some (map (\<lambda>_. 7) p, length p)"
  shows "\<exists>p p' x r'. length p = 3 \<and> enc p = Some (p', x) \<and>
    push_encoded c_rtrb (rb_new c_rtrb 128) 3 enc = Some (Inr (x, r')) \<and>
    queue_holds c_view r' ([] @ [p']) \<and> same_ring c_view (rb_new c_rtrb 128) r'"
proof -
  have q: "queue_holds c_view (rb_new c_rtrb 128) []" by (rule cr.new_holds) simp_all
  have "frame_size (replicate 3 0) + length (committed c_view (rb_new c_rtrb 128)) \<le>
      cap c_view (rb_new c_rtrb 128)"
    using cr.new [of 128] by (simp add: frame_size_def FRAME_HEADER_def c_committed_def window_def c_cap_def)
  then show ?thesis
    using push_encoded_refines [OF cr.byte_ring_axioms q, of 3 enc] by (simp add: enc_def)
qed

text \<open>C15: \<open>pop\<close> takes the oldest message out of the queue, and returns nothing (leaving the ring as
  it is) exactly when the queue is empty.\<close>

theorem pop_refines:
  assumes "byte_ring R V" and "queue_holds V r ms"
  shows "case ms of
           [] \<Rightarrow> pop R r = (None, r)
         | m # ms' \<Rightarrow> \<exists>r'. pop R r = (Some m, r') \<and> queue_holds V r' ms' \<and> same_ring V r r'"
  using assms byte_ring.pop_empty [OF assms(1)] byte_ring.pop_Cons [OF assms(1)]
  by (cases ms) auto

theorem pop_refines_witness:
  "case [] :: bytes list of
     [] \<Rightarrow> pop c_rtrb (rb_new c_rtrb 128) = (None, rb_new c_rtrb 128)
   | m # ms' \<Rightarrow> \<exists>r'. pop c_rtrb (rb_new c_rtrb 128) = (Some m, r') \<and> queue_holds c_view r' ms' \<and>
       same_ring c_view (rb_new c_rtrb 128) r'"
  by (rule pop_refines [OF cr.byte_ring_axioms cr.new_holds]) simp_all

text \<open>C16: The loop of \<open>pop_all\<close> ends, returns every message in the order pushed and leaves the
  queue empty.\<close>

theorem pop_all_drains:
  assumes "byte_ring R V" and "queue_holds V r ms"
  shows "\<exists>r'. pop_all R r [] = Some (ms, r') \<and> queue_holds V r' [] \<and> same_ring V r r'"
  using byte_ring.pop_all_returns [OF assms, of "[]"] by simp

theorem pop_all_drains_witness:
  "\<exists>r r'. push c_rtrb (rb_new c_rtrb 128) [1, 2] = Some (Inr r) \<and>
     pop_all c_rtrb r [] = Some ([[1, 2]], r') \<and> queue_holds c_view r' [] \<and> same_ring c_view r r'"
proof -
  have "queue_holds c_view (rb_new c_rtrb 128) []" by (rule cr.new_holds) simp_all
  moreover have "frame_size [1, 2] + length (committed c_view (rb_new c_rtrb 128)) \<le>
      cap c_view (rb_new c_rtrb 128)"
    using cr.new [of 128] by (simp add: frame_size_def FRAME_HEADER_def c_committed_def window_def c_cap_def)
  ultimately obtain r where r: "push c_rtrb (rb_new c_rtrb 128) [1, 2] = Some (Inr r)"
    "queue_holds c_view r [[1, 2]]"
    using cr.push_fits [of "rb_new c_rtrb 128" "[]" "[1, 2]"] by auto
  from r(1) pop_all_drains [OF cr.byte_ring_axioms r(2)] show ?thesis by blast
qed

text \<open>The bit trick of \<open>align_up\<close> computes the least multiple of the cache line that is not
  below its argument, as long as the 64-bit addition does not wrap around.\<close>

lemma align_up_least:
  assumes "n + 63 < 2 ^ 64"
  shows "64 dvd align_up n CACHE_LINE \<and> n \<le> align_up n CACHE_LINE \<and>
    (\<forall>m. 64 dvd m \<longrightarrow> n \<le> m \<longrightarrow> align_up n CACHE_LINE \<le> m)"
  using assms by (auto simp: align_up_64 elim!: dvdE)

lemma align_up_least_example: "align_up 65 CACHE_LINE = 128"
proof -
  have "64 dvd align_up 65 CACHE_LINE" "65 \<le> align_up 65 CACHE_LINE" "align_up 65 CACHE_LINE \<le> 128"
    using align_up_least [of 65] by (simp_all del: One_nat_def)
  then show ?thesis by (elim dvdE) presburger
qed


end
