(* ===== verification/Thread_Context.thy ===== *)
theory Thread_Context
  imports Queue
begin

text \<open>
  \<open>src/thread_context.rs\<close>, the queue modes of \<open>src/config.rs\<close> and the queue calls of
  \<open>src/frontend.rs\<close>: one producer per thread in thread-local storage, the global registry of
  consumers, growth by chaining a larger ring, and the poll that drains every registered queue.

  The rings live in a heap \<open>rings\<close> indexed by allocation order: a producer and a consumer of the
  same ring are the same index, held by the thread's context and by the registry. A registry
  entry is a consumer; dropping a context drops its producer, which abandons the ring.
\<close>

section \<open>State\<close>

datatype QueueMode = UnboundedBlocking | BoundedDropping

record ThreadContext =
  producer :: nat
  capacity :: nat
  mode :: QueueMode

record 'r world =
  rings :: "'r list"
  registry :: "nat list"
  ctxs :: "nat \<Rightarrow> ThreadContext option"

section \<open>Contexts\<close>

text \<open>\<open>ThreadContext::with_mode\<close> (a new ring, its consumer registered) and \<open>::new\<close>.\<close>

definition with_mode ::
    "'r rtrb \<Rightarrow> QueueMode \<Rightarrow> nat \<Rightarrow> 'r world \<Rightarrow> ThreadContext \<times> 'r world" where
  "with_mode R m start_capacity w =
     (let i = length (rings w);
          (cap, r) = create_queue R start_capacity
      in (\<lparr>producer = i, capacity = cap, mode = m\<rparr>,
          w\<lparr>rings := rings w @ [r], registry := registry w @ [i]\<rparr>))"

definition new_ctx :: "'r rtrb \<Rightarrow> 'r world \<Rightarrow> ThreadContext \<times> 'r world" where
  "new_ctx R = with_mode R BoundedDropping DEFAULT_START_CAPACITY"

text \<open>\<open>get_ctx\<close>: the thread-local slot, initialised by \<open>ThreadContext::new\<close> on first access.\<close>

definition get_ctx :: "'r rtrb \<Rightarrow> nat \<Rightarrow> 'r world \<Rightarrow> ThreadContext \<times> 'r world" where
  "get_ctx R t w =
     (case ctxs w t of
        Some c \<Rightarrow> (c, w)
      | None \<Rightarrow> (let (c, w') = new_ctx R w in (c, w'\<lparr>ctxs := (ctxs w')(t \<mapsto> c)\<rparr>)))"

text \<open>Dropping a context drops its producer.\<close>

definition drop_ctx :: "'r rtrb \<Rightarrow> ThreadContext \<Rightarrow> 'r world \<Rightarrow> 'r world" where
  "drop_ctx R c w =
     w\<lparr>rings := (rings w)[producer c := rb_drop_producer R (rings w ! producer c)]\<rparr>"

definition set_or_create_ctx_with_mode ::
    "'r rtrb \<Rightarrow> nat \<Rightarrow> QueueMode \<Rightarrow> nat \<Rightarrow> 'r world \<Rightarrow> 'r world" where
  "set_or_create_ctx_with_mode R t m start_capacity w =
     (let (current, w1) = get_ctx R t w
      in if capacity current \<noteq> start_capacity then
           (let (c, w2) = with_mode R m start_capacity (drop_ctx R current w1)
            in w2\<lparr>ctxs := (ctxs w2)(t \<mapsto> c)\<rparr>)
         else w1\<lparr>ctxs := (ctxs w1)(t \<mapsto> current\<lparr>mode := m\<rparr>)\<rparr>)"

definition init :: "'r rtrb \<Rightarrow> nat \<Rightarrow> 'r world \<Rightarrow> 'r world" where
  "init R t = set_or_create_ctx_with_mode R t BoundedDropping DEFAULT_START_CAPACITY"

definition init_with_mode :: "'r rtrb \<Rightarrow> nat \<Rightarrow> QueueMode \<Rightarrow> nat \<Rightarrow> 'r world \<Rightarrow> 'r world" where
  "init_with_mode R t m start_capacity = set_or_create_ctx_with_mode R t m start_capacity"

text \<open>\<open>Frontend::preallocate\<close> and \<open>Frontend::set_queue_mode\<close>.\<close>

definition preallocate :: "'r rtrb \<Rightarrow> nat \<Rightarrow> 'r world \<Rightarrow> 'r world" where
  "preallocate R t = init R t"

definition set_queue_mode :: "'r rtrb \<Rightarrow> nat \<Rightarrow> QueueMode \<Rightarrow> 'r world \<Rightarrow> 'r world" where
  "set_queue_mode R t m = init_with_mode R t m DEFAULT_START_CAPACITY"

text \<open>The end of a thread runs the destructor of its thread-local context.\<close>

definition thread_exit :: "'r rtrb \<Rightarrow> nat \<Rightarrow> 'r world \<Rightarrow> 'r world" where
  "thread_exit R t w =
     (case ctxs w t of
        None \<Rightarrow> w
      | Some c \<Rightarrow> (drop_ctx R c w)\<lparr>ctxs := (ctxs w)(t := None)\<rparr>)"

section \<open>Pushing\<close>

text \<open>
  One attempt on the thread's ring, and the retry loop of \<open>push_impl\<close> and
  \<open>push_encoded_unbounded\<close>: while the ring is full, grow (the old producer is dropped, the new
  consumer registered) and try again, until growing is refused. \<open>attempt\<close> is the push of
  \<open>src/queue.rs\<close> with its data or its encoder.
\<close>

definition try_push ::
    "('r \<Rightarrow> (PushError + 'x \<times> 'r) option) \<Rightarrow> ThreadContext \<Rightarrow> 'r world \<Rightarrow>
     ((PushError + 'x) \<times> 'r world) option" where
  "try_push attempt c w =
     (case attempt (rings w ! producer c) of
        None \<Rightarrow> None
      | Some (Inl e) \<Rightarrow> Some (Inl e, w)
      | Some (Inr (x, r)) \<Rightarrow> Some (Inr x, w\<lparr>rings := (rings w)[producer c := r]\<rparr>))"

definition grow_ctx ::
    "'r rtrb \<Rightarrow> ThreadContext \<Rightarrow> 'r world \<Rightarrow> (ThreadContext \<times> 'r world) option" where
  "grow_ctx R c w =
     (case grow R (capacity c) of
        None \<Rightarrow> None
      | Some (new_cap, r) \<Rightarrow>
          let i = length (rings w); w1 = drop_ctx R c w
          in Some (c\<lparr>producer := i, capacity := new_cap\<rparr>,
                   w1\<lparr>rings := rings w1 @ [r], registry := registry w1 @ [i]\<rparr>))"

lemma grow_ctx_capacity: "grow_ctx R c w = Some (c', w') \<Longrightarrow>
    capacity c < capacity c' \<and> capacity c' \<le> MAX_BLOCK_CAPACITY"
  by (auto simp: grow_ctx_def grow_def Let_def split: option.splits if_splits)

function push_loop ::
    "'r rtrb \<Rightarrow> ('r \<Rightarrow> (PushError + 'x \<times> 'r) option) \<Rightarrow> ThreadContext \<Rightarrow> 'r world \<Rightarrow>
     ((PushError + 'x) \<times> ThreadContext \<times> 'r world) option" where
  "push_loop R attempt c w =
     (case try_push attempt c w of
        None \<Rightarrow> None
      | Some (Inr x, w') \<Rightarrow> Some (Inr x, c, w')
      | Some (Inl Full, w') \<Rightarrow>
          (case grow_ctx R c w' of
             None \<Rightarrow> Some (Inl Full, c, w')
           | Some (c', w'') \<Rightarrow> push_loop R attempt c' w''))"
  by pat_completeness auto
termination
  by (relation "measure (\<lambda>(R, a, c, w). MAX_BLOCK_CAPACITY - capacity c)")
    (auto dest!: grow_ctx_capacity)

declare push_loop.simps [simp del]

definition push_with ::
    "'r rtrb \<Rightarrow> ('r \<Rightarrow> (PushError + 'x \<times> 'r) option) \<Rightarrow> nat \<Rightarrow> 'r world \<Rightarrow>
     ((PushError + 'x) \<times> 'r world) option" where
  "push_with R attempt t w =
     (let (c, w1) = get_ctx R t w
      in if mode c = BoundedDropping then try_push attempt c w1
         else do {
           (res, c', w2) \<leftarrow> push_loop R attempt c w1;
           Some (res, w2\<lparr>ctxs := (ctxs w2)(t \<mapsto> c')\<rparr>)
         })"

text \<open>\<open>ThreadContext::push\<close> (with \<open>push_impl\<close>) and \<open>ThreadContext::push_encoded\<close>.\<close>

definition push_attempt :: "'r rtrb \<Rightarrow> bytes \<Rightarrow> 'r \<Rightarrow> (PushError + unit \<times> 'r) option" where
  "push_attempt R data r = map_option (map_sum id (Pair ())) (push R r data)"

definition ctx_push ::
    "'r rtrb \<Rightarrow> nat \<Rightarrow> bytes \<Rightarrow> 'r world \<Rightarrow> ((PushError + unit) \<times> 'r world) option" where
  "ctx_push R t data = push_with R (push_attempt R data) t"

definition ctx_push_encoded ::
    "'r rtrb \<Rightarrow> nat \<Rightarrow> nat \<Rightarrow> (bytes \<Rightarrow> (bytes \<times> 'x) option) \<Rightarrow> 'r world \<Rightarrow>
     ((PushError + 'x) \<times> 'r world) option" where
  "ctx_push_encoded R t total_msg encode =
     push_with R (\<lambda>r. push_encoded R r total_msg encode) t"

section \<open>Polling\<close>

text \<open>\<open>Vec::remove(i)\<close>.\<close>

definition remove_at :: "nat \<Rightarrow> 'a list \<Rightarrow> 'a list" where
  "remove_at i xs = take i xs @ drop (Suc i) xs"

function poll_loop :: "'r rtrb \<Rightarrow> 'r world \<Rightarrow> nat \<Rightarrow> bytes list \<Rightarrow> (bytes list \<times> 'r world) option" where
  "poll_loop R w i all_msgs =
     (if i < length (registry w) then
        (case pop_all R (rings w ! (registry w ! i)) [] of
           None \<Rightarrow> None
         | Some (msgs, r) \<Rightarrow>
             if rb_is_abandoned R r \<and> rb_is_empty R r
             then poll_loop R (w\<lparr>rings := (rings w)[registry w ! i := r],
                                registry := remove_at i (registry w)\<rparr>) i (all_msgs @ msgs)
             else poll_loop R (w\<lparr>rings := (rings w)[registry w ! i := r]\<rparr>) (Suc i)
                    (all_msgs @ msgs))
      else Some (all_msgs, w))"
  by pat_completeness auto
termination
  by (relation "measure (\<lambda>(R, w, i, a). length (registry w) - i)") (auto simp: remove_at_def)

declare poll_loop.simps [simp del]

definition poll_all_registered_queues :: "'r rtrb \<Rightarrow> 'r world \<Rightarrow> (bytes list \<times> 'r world) option" where
  "poll_all_registered_queues R w = poll_loop R w 0 []"

definition has_pending_messages :: "'r rtrb \<Rightarrow> 'r world \<Rightarrow> bool" where
  "has_pending_messages R w \<longleftrightarrow> list_ex (\<lambda>i. \<not> rb_is_empty R (rings w ! i)) (registry w)"

section \<open>What the world holds\<close>

text \<open>
  The abstract state: \<open>css\<close> gives each ring's messages, \<open>ow\<close> the thread that made it.
  \<open>world_ok\<close> says that every non-empty ring is registered (no message is out of the poll's
  reach), and that a live context owns the last registered ring of its thread.
\<close>

definition owns ::
    "'r ring_view \<Rightarrow> 'r world \<Rightarrow> nat list \<Rightarrow> nat \<Rightarrow> ThreadContext \<Rightarrow> bool" where
  "owns V w ow t c \<longleftrightarrow>
     producer c \<in> set (registry w) \<and>
     (\<exists>ps. filter (\<lambda>i. ow ! i = t) (registry w) = ps @ [producer c]) \<and>
     cap V (rings w ! producer c) = capacity c \<and> \<not> gone V (rings w ! producer c)"

definition world_ok ::
    "'r ring_view \<Rightarrow> 'r world \<Rightarrow> nat list \<Rightarrow> bytes list list \<Rightarrow> bool" where
  "world_ok V w ow css \<longleftrightarrow>
     list_all2 (queue_holds V) (rings w) css \<and> length ow = length css \<and>
     distinct (registry w) \<and> (\<forall>i \<in> set (registry w). i < length css) \<and>
     (\<forall>i < length css. css ! i \<noteq> [] \<longrightarrow> i \<in> set (registry w)) \<and>
     (\<forall>t c. ctxs w t = Some c \<longrightarrow> owns V w ow t c)"

text \<open>The messages waiting in the registry, in the order of a poll: all of them, and one thread's.\<close>

definition pending :: "'r world \<Rightarrow> bytes list list \<Rightarrow> bytes list" where
  "pending w css = concat (map (nth css) (registry w))"

definition thread_msgs :: "'r world \<Rightarrow> nat list \<Rightarrow> bytes list list \<Rightarrow> nat \<Rightarrow> bytes list" where
  "thread_msgs w ow css t = concat (map (nth css) (filter (\<lambda>i. ow ! i = t) (registry w)))"

definition empty_world :: "'r world" where
  "empty_world = \<lparr>rings = [], registry = [], ctxs = (\<lambda>_. None)\<rparr>"

lemma empty_world_ok: "world_ok V empty_world [] []"
  by (simp add: world_ok_def empty_world_def)

lemma owns_owner: "owns V w ow t c \<Longrightarrow> ow ! producer c = t"
proof -
  assume "owns V w ow t c"
  then obtain ps where "filter (\<lambda>i. ow ! i = t) (registry w) = ps @ [producer c]"
    by (auto simp: owns_def)
  then have "producer c \<in> set (filter (\<lambda>i. ow ! i = t) (registry w))" by simp
  then show ?thesis by simp
qed

lemma world_ok_producer:
  assumes "world_ok V w ow css" "ctxs w t = Some c"
  shows "owns V w ow t c" "producer c < length (rings w)" "producer c < length css"
    "queue_holds V (rings w ! producer c) (css ! producer c)"
  using assms by (auto simp: world_ok_def owns_def list_all2_conv_all_nth)

lemma world_ok_other:
  assumes "world_ok V w ow css" "ctxs w t = Some c" "ctxs w u = Some d" "t \<noteq> u"
  shows "producer c \<noteq> producer d"
  using assms owns_owner world_ok_producer(1) by metis

text \<open>Rewriting one ring in place, with the same capacity and producer.\<close>

lemma world_ok_update:
  assumes ok: "world_ok V w ow css" and i: "i < length css" and q: "queue_holds V r ms"
    and s: "same_ring V (rings w ! i) r" and reg: "ms \<noteq> [] \<Longrightarrow> i \<in> set (registry w)"
  shows "world_ok V (w\<lparr>rings := (rings w)[i := r]\<rparr>) ow (css[i := ms])"
proof -
  have l: "length (rings w) = length css" using ok by (auto simp: world_ok_def list_all2_lengthD)
  have "owns V (w\<lparr>rings := (rings w)[i := r]\<rparr>) ow t c" if "owns V w ow t c" for t c
    using that s i l by (auto simp: owns_def same_ring_def nth_list_update)
  then show ?thesis
    using ok q reg i by (auto simp: world_ok_def nth_list_update intro!: list_all2_update_cong)
qed

lemma thread_msgs_append:
  assumes ok: "world_ok V w ow css" and c: "ctxs w t = Some c"
  shows "thread_msgs w ow (css[producer c := css ! producer c @ [d]]) u =
    thread_msgs w ow css u @ (if u = t then [d] else [])"
proof -
  let ?i = "producer c" and ?css = "css[producer c := css ! producer c @ [d]]"
  note p = world_ok_producer [OF ok c]
  have dist: "distinct (filter (\<lambda>i. ow ! i = t) (registry w))"
    using ok by (simp add: world_ok_def)
  obtain ps where ps: "filter (\<lambda>i. ow ! i = t) (registry w) = ps @ [?i]"
    using p(1) by (auto simp: owns_def)
  have "?i \<notin> set ps" using dist by (simp add: ps)
  then have "map (nth ?css) ps = map (nth css) ps" by (auto intro!: nth_list_update_neq)
  then have t: "thread_msgs w ow ?css t = thread_msgs w ow css t @ [d]"
    using p(3) by (simp add: thread_msgs_def ps cong: map_cong)
  have "thread_msgs w ow ?css u = thread_msgs w ow css u" if "u \<noteq> t"
    using that owns_owner [OF p(1)]
    by (auto simp: thread_msgs_def intro!: arg_cong [where f = concat] nth_list_update_neq)
  with t show ?thesis by simp
qed

text \<open>Dropping a thread's context: the ring is abandoned, its messages stay.\<close>

lemma world_ok_frame: "world_ok V w ow css \<Longrightarrow> ctxs w t = Some c \<Longrightarrow>
    world_ok V (w\<lparr>ctxs := (ctxs w)(t \<mapsto> c\<lparr>mode := m\<rparr>)\<rparr>) ow css"
  by (auto simp: world_ok_def owns_def)

lemma thread_msgs_simps [simp]:
  "thread_msgs (w\<lparr>ctxs := x\<rparr>) = thread_msgs w"
  "thread_msgs (w\<lparr>rings := y\<rparr>) = thread_msgs w"
  "thread_msgs (drop_ctx R c w) = thread_msgs w"
  by (simp_all add: thread_msgs_def drop_ctx_def fun_eq_iff)

text \<open>
  The contract of one attempt: it succeeds exactly when a frame of \<open>fs\<close> bytes fits, appends one
  message, and relates it to the result by \<open>P\<close>; otherwise the ring is full and unchanged.
\<close>

definition delivers ::
    "'r ring_view \<Rightarrow> nat \<Rightarrow> ('r \<Rightarrow> (PushError + 'x \<times> 'r) option) \<Rightarrow> ('x \<Rightarrow> bytes \<Rightarrow> bool) \<Rightarrow> bool" where
  "delivers V fs attempt P \<longleftrightarrow> (\<forall>r ms. queue_holds V r ms \<longrightarrow>
     (if fs + length (committed V r) \<le> cap V r
      then (\<exists>x r' d. attempt r = Some (Inr (x, r')) \<and> P x d \<and> queue_holds V r' (ms @ [d]) \<and>
              same_ring V r r')
      else attempt r = Some (Inl Full)))"

text \<open>What a push by thread \<open>t\<close> does to the world: at most one message more, at the end of \<open>t\<close>'s.\<close>

definition pushed ::
    "('x \<Rightarrow> bytes \<Rightarrow> bool) \<Rightarrow> nat \<Rightarrow> PushError + 'x \<Rightarrow> (nat \<Rightarrow> bytes list) \<Rightarrow> (nat \<Rightarrow> bytes list) \<Rightarrow> bool" where
  "pushed P t res old new \<longleftrightarrow>
     (case res of
        Inl e \<Rightarrow> new = old
      | Inr x \<Rightarrow> (\<exists>d. P x d \<and> new = old(t := old t @ [d])))"

context byte_ring
begin

lemma world_ok_drop:
  assumes ok: "world_ok V w ow css" and c: "ctxs w t = Some c"
  shows "world_ok V ((drop_ctx R c w)\<lparr>ctxs := (ctxs w)(t := None)\<rparr>) ow css"
    and "gone V (rings (drop_ctx R c w) ! producer c)"
proof -
  let ?i = "producer c"
  note p = world_ok_producer [OF ok c]
  note d = drop_producer_holds [OF p(4)]
  have "list_all2 (queue_holds V) ((rings w)[?i := rb_drop_producer R (rings w ! ?i)]) (css[?i := css ! ?i])"
    using ok d by (intro list_all2_update_cong) (auto simp: world_ok_def)
  moreover have "owns V ((drop_ctx R c w)\<lparr>ctxs := (ctxs w)(t := None)\<rparr>) ow u e"
    if "ctxs w u = Some e" "u \<noteq> t" for u e
    using world_ok_producer(1) [OF ok that(1)] world_ok_other [OF ok c that(1)] that(2)
    by (auto simp: owns_def drop_ctx_def)
  ultimately show "world_ok V ((drop_ctx R c w)\<lparr>ctxs := (ctxs w)(t := None)\<rparr>) ow css"
    using ok by (auto simp: world_ok_def drop_ctx_def)
  show "gone V (rings (drop_ctx R c w) ! producer c)" using d p(2) by (simp add: drop_ctx_def)
qed

text \<open>A new ring for a thread without a context.\<close>

lemma world_ok_add:
  assumes ok: "world_ok V w ow css" and c: "ctxs w t = None" and n: "64 dvd n" "n < 2 ^ 32"
    and cx: "cx = \<lparr>producer = length (rings w), capacity = n, mode = m\<rparr>"
    and w': "w' = w\<lparr>rings := rings w @ [rb_new R n], registry := registry w @ [length (rings w)],
      ctxs := (ctxs w)(t \<mapsto> cx)\<rparr>"
  shows "world_ok V w' (ow @ [t]) (css @ [[]])"
    and "thread_msgs w' (ow @ [t]) (css @ [[]]) u = thread_msgs w ow css u"
proof -
  have l: "length (rings w) = length css" "length ow = length css"
    using ok by (auto simp: world_ok_def list_all2_lengthD)
  have reg: "i \<in> set (registry w) \<Longrightarrow> i < length css" for i using ok by (simp add: world_ok_def)
  have f: "filter (\<lambda>i. (ow @ [t]) ! i = u) (registry w') =
      filter (\<lambda>i. ow ! i = u) (registry w) @ (if u = t then [length css] else [])" for u
    using reg l by (auto simp: w' nth_append intro!: filter_cong)
  have "owns V w' (ow @ [t]) u e" if "ctxs w u = Some e" for u e
  proof -
    have "u \<noteq> t" using that c by auto
    with world_ok_producer [OF ok that] f [of u] l show ?thesis
      by (auto simp: w' owns_def nth_append)
  qed
  moreover have "(rings w @ [rb_new R n]) ! length css = rb_new R n"
    unfolding l(1) [symmetric] by (rule nth_append_length)
  then have "owns V w' (ow @ [t]) t cx"
    using f [of t] l by (simp add: owns_def cx w' new)
  ultimately show "world_ok V w' (ow @ [t]) (css @ [[]])"
    using ok l reg n new_holds by (auto simp: w' world_ok_def nth_append list_all2_appendI less_Suc_eq)
  show "thread_msgs w' (ow @ [t]) (css @ [[]]) u = thread_msgs w ow css u"
    using reg f [of u] by (auto simp: w' thread_msgs_def nth_append intro!: arg_cong [where f = concat])
qed

lemma push_delivers:
  "length d < 2 ^ 63 \<Longrightarrow> delivers V (frame_size d) (push_attempt R d) (\<lambda>_ m. m = d)"
  using push_full push_fits by (fastforce simp: delivers_def push_attempt_def)

lemma push_encoded_delivers:
  assumes "n < 2 ^ 63" and "\<And>p. length p = n \<Longrightarrow> \<exists>p' x. enc p = Some (p', x) \<and> length p' = n"
  shows "delivers V (frame_size (replicate n 0)) (\<lambda>r. push_encoded R r n enc)
    (\<lambda>x m. length m = n \<and> (\<exists>p. length p = n \<and> enc p = Some (m, x)))"
  unfolding delivers_def
proof (intro allI impI, goal_cases)
  case (1 r ms)
  show ?case
  proof (cases "frame_size (replicate n 0) + length (committed V r) \<le> cap V r")
    case True
    then obtain p p' x r' where p: "length p = n" "enc p = Some (p', x)"
      "push_encoded R r n enc = Some (Inr (x, r'))" "queue_holds V r' (ms @ [p'])" "same_ring V r r'"
      using push_encoded_fits [OF 1 True, of enc] assms(2) by blast
    moreover have "length p' = n" using assms(2) [OF p(1)] p(2) by auto
    ultimately show ?thesis using True by auto
  next
    case False
    then show ?thesis using push_encoded_full [OF 1 assms(1)] by simp
  qed
qed

lemma try_push_spec:
  assumes ok: "world_ok V w ow css" and c: "ctxs w t = Some c" and del: "delivers V fs attempt P"
  defines "fits \<equiv> fs + length (committed V (rings w ! producer c)) \<le> capacity c"
  shows "\<not> fits \<Longrightarrow> try_push attempt c w = Some (Inl Full, w)"
    and "fits \<Longrightarrow> \<exists>x w' css'. try_push attempt c w = Some (Inr x, w') \<and> world_ok V w' ow css' \<and>
      ctxs w' = ctxs w \<and> pushed P t (Inr x) (thread_msgs w ow css) (thread_msgs w' ow css')"
proof -
  note p = world_ok_producer [OF ok c]
  let ?i = "producer c" and ?r = "rings w ! producer c"
  have cap: "cap V ?r = capacity c" using p(1) by (simp add: owns_def)
  {
    assume "\<not> fits"
    then have "attempt ?r = Some (Inl Full)"
      using del p(4) cap by (force simp: delivers_def fits_def)
    then show "try_push attempt c w = Some (Inl Full, w)" by (simp add: try_push_def)
  next
    assume fits
    then obtain x r' d where a: "attempt ?r = Some (Inr (x, r'))" "P x d"
      "queue_holds V r' (css ! ?i @ [d])" "same_ring V ?r r'"
      using del p(4) cap unfolding delivers_def fits_def by metis
    let ?w = "w\<lparr>rings := (rings w)[?i := r']\<rparr>" and ?css = "css[?i := css ! ?i @ [d]]"
    have "world_ok V ?w ow ?css"
      using world_ok_update [OF ok p(3) a(3,4)] p(1) by (simp add: owns_def)
    moreover have "pushed P t (Inr x) (thread_msgs w ow css) (thread_msgs ?w ow ?css)"
      using a(2) thread_msgs_append [OF ok c, of d]
      by (auto simp: pushed_def fun_eq_iff intro!: exI [of _ d])
    ultimately show "\<exists>x w' css'. try_push attempt c w = Some (Inr x, w') \<and> world_ok V w' ow css' \<and>
        ctxs w' = ctxs w \<and> pushed P t (Inr x) (thread_msgs w ow css) (thread_msgs w' ow css')"
      using a(1) by (intro exI [of _ x] exI [of _ ?w] exI [of _ ?css]) (simp add: try_push_def)
  }
qed

lemma grow_ctx_spec:
  assumes ok: "world_ok V (w\<lparr>ctxs := (ctxs w)(t \<mapsto> c)\<rparr>) ow css"
    and g: "grow_ctx R c w = Some (c', w')"
  shows "world_ok V (w'\<lparr>ctxs := (ctxs w')(t \<mapsto> c')\<rparr>) (ow @ [t]) (css @ [[]])"
    and "thread_msgs w' (ow @ [t]) (css @ [[]]) = thread_msgs w ow css"
    and "committed V (rings w' ! producer c') = []" "ctxs w' = ctxs w"
    and "capacity c' = min (capacity c * 2) MAX_BLOCK_CAPACITY" "mode c' = mode c"
proof -
  let ?w = "w\<lparr>ctxs := (ctxs w)(t \<mapsto> c)\<rparr>"
  obtain n where n: "n = min (capacity c * 2) MAX_BLOCK_CAPACITY"
    and c': "c' = c\<lparr>producer := length (rings w), capacity := n\<rparr>"
    and w': "w' = (drop_ctx R c w)\<lparr>rings := rings (drop_ctx R c w) @ [rb_new R n],
      registry := registry w @ [length (rings w)]\<rparr>"
    using g by (auto simp: grow_ctx_def grow_def Let_def drop_ctx_def split: if_splits)
  have c: "ctxs ?w t = Some c" by simp
  note p = world_ok_producer [OF ok c]
  have "64 dvd capacity c" "capacity c < 2 ^ 32"
    using p(1,4) by (auto simp: owns_def queue_holds_def)
  then have n64: "64 dvd n" "n < 2 ^ 32"
    by (auto simp: n min_def MAX_BLOCK_CAPACITY_def)
  let ?d = "(drop_ctx R c ?w)\<lparr>ctxs := (ctxs ?w)(t := None)\<rparr>"
  have d: "world_ok V ?d ow css" by (rule world_ok_drop(1) [OF ok c])
  have "ctxs ?d t = None" "c' = \<lparr>producer = length (rings ?d), capacity = n, mode = mode c\<rparr>"
    by (simp_all add: c' drop_ctx_def)
  note add = world_ok_add [OF d this(1) n64 this(2) refl]
  have "w'\<lparr>ctxs := (ctxs w')(t \<mapsto> c')\<rparr> = ?d\<lparr>rings := rings ?d @ [rb_new R n],
      registry := registry ?d @ [length (rings ?d)], ctxs := (ctxs ?d)(t \<mapsto> c')\<rparr>"
    by (simp add: w' drop_ctx_def)
  with add show "world_ok V (w'\<lparr>ctxs := (ctxs w')(t \<mapsto> c')\<rparr>) (ow @ [t]) (css @ [[]])"
    by simp
  show "thread_msgs w' (ow @ [t]) (css @ [[]]) = thread_msgs w ow css"
    using add(2) by (intro ext) (simp add: w' drop_ctx_def thread_msgs_def)
  have "length (rings (drop_ctx R c w)) = length (rings w)" by (simp add: drop_ctx_def)
  then show "committed V (rings w' ! producer c') = []"
    using nth_append_length [of "rings (drop_ctx R c w)" "rb_new R n"] by (simp add: w' c' new)
  show "ctxs w' = ctxs w" "capacity c' = min (capacity c * 2) MAX_BLOCK_CAPACITY" "mode c' = mode c"
    by (simp_all add: w' c' n drop_ctx_def)
qed

lemma try_push_ctxs:
  "try_push attempt c (w\<lparr>ctxs := x\<rparr>) =
   map_option (\<lambda>(res, w'). (res, w'\<lparr>ctxs := x\<rparr>)) (try_push attempt c w)"
  by (simp add: try_push_def split: option.splits sum.splits)

lemma try_push_keeps_ctxs: "try_push attempt c w = Some (res, w') \<Longrightarrow> ctxs w' = ctxs w"
  by (auto simp: try_push_def split: option.splits sum.splits)

text \<open>
  The retry loop always returns; it appends the message or reports a full ring, the latter only
  when the ring can no longer grow. A thread whose ring may still grow always succeeds with a
  message that fits the largest block.
\<close>

lemma push_loop_spec:
  assumes del: "delivers V fs attempt P"
  shows "world_ok V (w\<lparr>ctxs := (ctxs w)(t \<mapsto> c)\<rparr>) ow css \<Longrightarrow>
    \<exists>res c' w' ow' css'. push_loop R attempt c w = Some (res, c', w') \<and>
    world_ok V (w'\<lparr>ctxs := (ctxs w')(t \<mapsto> c')\<rparr>) ow' css' \<and>
    pushed P t res (thread_msgs w ow css) (thread_msgs w' ow' css') \<and>
    ctxs w' = ctxs w \<and> mode c' = mode c \<and>
    (res = Inl Full \<longrightarrow> MAX_BLOCK_CAPACITY \<le> capacity c' \<or> capacity c' = 0) \<and>
    (res \<noteq> Inl Full \<longleftrightarrow>
     (0 < capacity c \<and> capacity c < MAX_BLOCK_CAPACITY \<and> fs \<le> MAX_BLOCK_CAPACITY) \<or>
     fs + length (committed V (rings w ! producer c)) \<le> capacity c)"
proof (induction "MAX_BLOCK_CAPACITY - capacity c" arbitrary: c w ow css rule: less_induct)
  case less
  let ?w = "w\<lparr>ctxs := (ctxs w)(t \<mapsto> c)\<rparr>"
  have c: "ctxs ?w t = Some c" by simp
  note tp = try_push_spec [OF less.prems c del]
  let ?fits = "fs + length (committed V (rings w ! producer c)) \<le> capacity c"
  show ?case
  proof (cases ?fits)
    case True
    then obtain x w1 css' where w1: "try_push attempt c ?w = Some (Inr x, w1)" "world_ok V w1 ow css'"
      "ctxs w1 = ctxs ?w" "pushed P t (Inr x) (thread_msgs ?w ow css) (thread_msgs w1 ow css')"
      using tp(2) by auto
    then obtain w2 where w2: "try_push attempt c w = Some (Inr x, w2)"
      "w1 = w2\<lparr>ctxs := (ctxs w)(t \<mapsto> c)\<rparr>"
      by (auto simp: try_push_ctxs)
    then have "ctxs w2 = ctxs w" by (auto dest: try_push_keeps_ctxs)
    then show ?thesis
      using w1(2,4) w2 True by (intro exI [of _ "Inr x"] exI [of _ c] exI [of _ w2] exI [of _ ow] exI [of _ css'])
        (simp add: push_loop.simps [of R attempt c w])
  next
    case False
    then have "try_push attempt c ?w = Some (Inl Full, ?w)" using tp(1) by simp
    then obtain w2 where w2: "try_push attempt c w = Some (Inl Full, w2)"
      by (auto simp: try_push_ctxs)
    moreover have "w2 = w"
      using w2 by (auto simp: try_push_def split: option.splits sum.splits)
    ultimately have tf: "try_push attempt c w = Some (Inl Full, w)" by simp
    show ?thesis
    proof (cases "grow_ctx R c w")
      case None
      then have "MAX_BLOCK_CAPACITY \<le> capacity c \<or> capacity c = 0"
        by (auto simp: grow_ctx_def grow_def Let_def min_def split: if_splits)
      then show ?thesis
        using None tf False less.prems
        by (intro exI [of _ "Inl Full"] exI [of _ c] exI [of _ w] exI [of _ ow] exI [of _ css])
          (auto simp: push_loop.simps [of R attempt c w] pushed_def)
    next
      case (Some cw)
      then obtain c' w' where g: "grow_ctx R c w = Some (c', w')" by (cases cw) auto
      note gs = grow_ctx_spec [OF less.prems g]
      have lt: "MAX_BLOCK_CAPACITY - capacity c' < MAX_BLOCK_CAPACITY - capacity c"
        using grow_ctx_capacity [OF g] by auto
      have eq: "push_loop R attempt c w = push_loop R attempt c' w'"
        by (simp add: push_loop.simps [of R attempt c w] tf g)
      have "0 < capacity c" "capacity c < MAX_BLOCK_CAPACITY"
        using grow_ctx_capacity [OF g] gs(5) by (auto simp: min_def split: if_splits)
      then have more: "(0 < capacity c' \<and> capacity c' < MAX_BLOCK_CAPACITY \<and> fs \<le> MAX_BLOCK_CAPACITY) \<or>
          fs + length (committed V (rings w' ! producer c')) \<le> capacity c' \<longleftrightarrow>
          0 < capacity c \<and> capacity c < MAX_BLOCK_CAPACITY \<and> fs \<le> MAX_BLOCK_CAPACITY"
        using gs(3,5) by (auto simp: min_def)
      show ?thesis
      proof -
        obtain res c'' w'' ow' css' where ih: "push_loop R attempt c' w' = Some (res, c'', w'')"
          "world_ok V (w''\<lparr>ctxs := (ctxs w'')(t \<mapsto> c'')\<rparr>) ow' css'"
          "pushed P t res (thread_msgs w' (ow @ [t]) (css @ [[]])) (thread_msgs w'' ow' css')"
          "ctxs w'' = ctxs w'" "mode c'' = mode c'"
          "res = Inl Full \<longrightarrow> MAX_BLOCK_CAPACITY \<le> capacity c'' \<or> capacity c'' = 0"
          "res \<noteq> Inl Full \<longleftrightarrow>
            (0 < capacity c' \<and> capacity c' < MAX_BLOCK_CAPACITY \<and> fs \<le> MAX_BLOCK_CAPACITY) \<or>
            fs + length (committed V (rings w' ! producer c')) \<le> capacity c'"
          using less.hyps [OF lt gs(1)] by (elim exE conjE)
        show ?thesis
        proof (intro exI conjI)
          show "push_loop R attempt c w = Some (res, c'', w'')" using ih(1) by (simp only: eq)
          show "world_ok V (w''\<lparr>ctxs := (ctxs w'')(t \<mapsto> c'')\<rparr>) ow' css'" by (fact ih(2))
          show "pushed P t res (thread_msgs w ow css) (thread_msgs w'' ow' css')"
            using ih(3) by (simp only: gs(2))
          show "ctxs w'' = ctxs w" "mode c'' = mode c" using ih(4,5) gs(4,6) by simp_all
        qed (use ih(6,7) more False in blast)+
      qed
    qed
  qed
qed

text \<open>Access to the thread-local slot, which creates the default context on first use.\<close>

lemma get_ctx_spec:
  assumes ok: "world_ok V w ow css"
  shows "\<exists>c w' ow' css'. get_ctx R t w = (c, w') \<and> world_ok V w' ow' css' \<and>
    thread_msgs w' ow' css' = thread_msgs w ow css \<and> ctxs w' t = Some c \<and>
    (case ctxs w t of
       Some c0 \<Rightarrow> c = c0 \<and> w' = w
     | None \<Rightarrow> mode c = BoundedDropping \<and> capacity c = DEFAULT_START_CAPACITY \<and>
         committed V (rings w' ! producer c) = [])"
proof (cases "ctxs w t")
  case (Some c)
  then show ?thesis using ok by (intro exI [of _ c] exI [of _ w]) (auto simp: get_ctx_def)
next
  case None
  let ?c = "\<lparr>producer = length (rings w), capacity = DEFAULT_START_CAPACITY, mode = BoundedDropping\<rparr>"
  let ?w = "w\<lparr>rings := rings w @ [rb_new R DEFAULT_START_CAPACITY],
    registry := registry w @ [length (rings w)], ctxs := (ctxs w)(t \<mapsto> ?c)\<rparr>"
  have n: "64 dvd DEFAULT_START_CAPACITY" "DEFAULT_START_CAPACITY < 2 ^ 32"
    by (simp_all add: DEFAULT_START_CAPACITY_def)
  note add = world_ok_add [OF ok None n refl refl]
  have "get_ctx R t w = (?c, ?w)"
    by (simp add: get_ctx_def new_ctx_def with_mode_def None Let_def)
  moreover have "committed V (rings ?w ! producer ?c) = []"
    using nth_append_length [of "rings w" "rb_new R DEFAULT_START_CAPACITY"] by (simp add: new)
  ultimately show ?thesis
    using add None by (intro exI [of _ ?c] exI [of _ ?w] exI conjI) (auto intro!: ext)
qed

end

section \<open>The promise to the application\<close>

text \<open>
  The abstract state of the frontend: for every thread the sequence of messages it has pushed and
  the backend has not yet taken.
\<close>

definition world_holds :: "'r ring_view \<Rightarrow> 'r world \<Rightarrow> (nat \<Rightarrow> bytes list) \<Rightarrow> bool" where
  "world_holds V w T \<longleftrightarrow> (\<exists>ow css. world_ok V w ow css \<and> T = thread_msgs w ow css)"

lemma world_holdsI: "world_ok V w ow css \<Longrightarrow> T = thread_msgs w ow css \<Longrightarrow> world_holds V w T"
  unfolding world_holds_def by blast

lemma world_holds_empty: "world_holds V empty_world (\<lambda>_. [])"
  by (rule world_holdsI [OF empty_world_ok]) (simp add: thread_msgs_def empty_world_def fun_eq_iff)

text \<open>How many bytes are left in the ring the thread writes to.\<close>

definition free_bytes :: "'r ring_view \<Rightarrow> 'r world \<Rightarrow> ThreadContext \<Rightarrow> nat" where
  "free_bytes V w c = capacity c - length (committed V (rings w ! producer c))"

context byte_ring
begin

lemma get_ctx_holds:
  assumes "world_holds V w T"
  shows "\<exists>c w'. get_ctx R t w = (c, w') \<and> world_holds V w' T \<and> ctxs w' t = Some c \<and>
    (case ctxs w t of
       Some c0 \<Rightarrow> c = c0 \<and> w' = w
     | None \<Rightarrow> mode c = BoundedDropping \<and> capacity c = DEFAULT_START_CAPACITY \<and>
         free_bytes V w' c = DEFAULT_START_CAPACITY)"
proof -
  obtain ow css where ok: "world_ok V w ow css" and T: "T = thread_msgs w ow css"
    using assms by (auto simp: world_holds_def)
  obtain c w' ow' css' where g: "get_ctx R t w = (c, w')" "world_ok V w' ow' css'"
    "thread_msgs w' ow' css' = thread_msgs w ow css" "ctxs w' t = Some c"
    "case ctxs w t of Some c0 \<Rightarrow> c = c0 \<and> w' = w
     | None \<Rightarrow> mode c = BoundedDropping \<and> capacity c = DEFAULT_START_CAPACITY \<and>
         committed V (rings w' ! producer c) = []"
    using get_ctx_spec [OF ok, of t] by (elim exE conjE)
  have "world_holds V w' T" using g(2,3) T by (intro world_holdsI) auto
  moreover have "case ctxs w t of Some c0 \<Rightarrow> c = c0 \<and> w' = w
     | None \<Rightarrow> mode c = BoundedDropping \<and> capacity c = DEFAULT_START_CAPACITY \<and>
         free_bytes V w' c = DEFAULT_START_CAPACITY"
    using g(5) by (auto simp: free_bytes_def split: option.splits)
  ultimately show ?thesis using g(1,4) by (intro exI conjI)
qed

lemma fits_free:
  assumes "world_holds V w T" "ctxs w t = Some c"
  shows "fs + length (committed V (rings w ! producer c)) \<le> capacity c \<longleftrightarrow> fs \<le> free_bytes V w c"
proof -
  obtain ow css where ok: "world_ok V w ow css" using assms(1) by (auto simp: world_holds_def)
  note p = world_ok_producer [OF ok assms(2)]
  have "length (committed V (rings w ! producer c)) \<le> capacity c"
    using fits [of "rings w ! producer c"] p(1,4) by (auto simp: queue_holds_def owns_def)
  then show ?thesis unfolding free_bytes_def by linarith
qed

text \<open>
  A push returns; it adds one message at the end of the thread's own sequence or reports a full
  ring and changes no sequence. Which of the two happens is decided by the mode.
\<close>

lemma push_with_holds:
  assumes H: "world_holds V w T" and del: "delivers V fs attempt P" and g: "get_ctx R t w = (c, w1)"
  shows "\<exists>res w'. push_with R attempt t w = Some (res, w') \<and>
    (case res of
       Inl e \<Rightarrow> world_holds V w' T
     | Inr x \<Rightarrow> \<exists>d. P x d \<and> world_holds V w' (T(t := T t @ [d]))) \<and>
    (res \<noteq> Inl Full \<longleftrightarrow> fs \<le> free_bytes V w1 c \<or>
       (mode c = UnboundedBlocking \<and>
        0 < capacity c \<and> capacity c < MAX_BLOCK_CAPACITY \<and> fs \<le> MAX_BLOCK_CAPACITY))"
proof -
  have H1: "world_holds V w1 T" and c: "ctxs w1 t = Some c"
    using get_ctx_holds [OF H, of t] g by auto
  obtain ow css where ok: "world_ok V w1 ow css" and T: "T = thread_msgs w1 ow css"
    using H1 by (auto simp: world_holds_def)
  note free = fits_free [OF H1 c]
  note step = try_push_spec [OF ok c del]
  show ?thesis
  proof (cases "mode c")
    case BoundedDropping
    then have eq: "push_with R attempt t w = try_push attempt c w1"
      by (simp add: push_with_def g)
    show ?thesis
    proof (cases "fs \<le> free_bytes V w1 c")
      case False
      then show ?thesis using step(1) free H1 BoundedDropping
        by (intro exI [of _ "Inl Full"] exI [of _ w1]) (simp add: eq)
    next
      case True
      then obtain x w' css' where w': "try_push attempt c w1 = Some (Inr x, w')" "world_ok V w' ow css'"
        "pushed P t (Inr x) T (thread_msgs w' ow css')"
        using step(2) free T by auto
      then obtain d where d: "P x d" "T(t := T t @ [d]) = thread_msgs w' ow css'"
        by (auto simp: pushed_def)
      then have "\<exists>d. P x d \<and> world_holds V w' (T(t := T t @ [d]))"
        using world_holdsI [OF w'(2) d(2)] by blast
      then show ?thesis using w'(1) True by (intro exI [of _ "Inr x"] exI [of _ w']) (simp add: eq)
    qed
  next
    case UnboundedBlocking
    have "world_ok V (w1\<lparr>ctxs := (ctxs w1)(t \<mapsto> c)\<rparr>) ow css"
      using ok fun_upd_triv [of "ctxs w1" t] by (simp add: c [symmetric])
    from push_loop_spec [OF del this] obtain res c' w2 ow' css' where
      p: "push_loop R attempt c w1 = Some (res, c', w2)"
      "world_ok V (w2\<lparr>ctxs := (ctxs w2)(t \<mapsto> c')\<rparr>) ow' css'"
      "pushed P t res (thread_msgs w1 ow css) (thread_msgs w2 ow' css')"
      "res \<noteq> Inl Full \<longleftrightarrow>
        (0 < capacity c \<and> capacity c < MAX_BLOCK_CAPACITY \<and> fs \<le> MAX_BLOCK_CAPACITY) \<or>
        fs + length (committed V (rings w1 ! producer c)) \<le> capacity c"
      by (elim exE conjE)
    let ?w = "w2\<lparr>ctxs := (ctxs w2)(t \<mapsto> c')\<rparr>"
    have "push_with R attempt t w = Some (res, ?w)"
      by (simp add: push_with_def g UnboundedBlocking p(1))
    moreover have "case res of Inl e \<Rightarrow> world_holds V ?w T
       | Inr x \<Rightarrow> \<exists>d. P x d \<and> world_holds V ?w (T(t := T t @ [d]))"
      using p(2,3) T by (auto simp: pushed_def intro!: world_holdsI split: sum.splits)
    ultimately show ?thesis
      using p(4) free UnboundedBlocking by (intro exI [of _ res] exI [of _ ?w]) auto
  qed
qed

lemma set_or_create_holds:
  fixes t m
  assumes H: "world_holds V w T" and n: "64 dvd n" "n < 2 ^ 32"
  defines "w' \<equiv> set_or_create_ctx_with_mode R t m n w"
  shows "world_holds V w' T" and "\<exists>c'. ctxs w' t = Some c' \<and> mode c' = m \<and> capacity c' = n"
proof -
  obtain c w1 where g: "get_ctx R t w = (c, w1)" "world_holds V w1 T" and c: "ctxs w1 t = Some c"
    using get_ctx_holds [OF H, of t] by (elim exE conjE)
  obtain ow css where ok: "world_ok V w1 ow css" and T: "T = thread_msgs w1 ow css"
    using g(2) by (auto simp: world_holds_def)
  have "world_holds V w' T \<and> (\<exists>c'. ctxs w' t = Some c' \<and> mode c' = m \<and> capacity c' = n)"
  proof (cases "capacity c = n")
    case True
    then have "w' = w1\<lparr>ctxs := (ctxs w1)(t \<mapsto> c\<lparr>mode := m\<rparr>)\<rparr>"
      by (simp add: w'_def set_or_create_ctx_with_mode_def g(1))
    then show ?thesis using world_ok_frame [OF ok c, of m] T True by (auto intro: world_holdsI)
  next
    case False
    let ?d = "(drop_ctx R c w1)\<lparr>ctxs := (ctxs w1)(t := None)\<rparr>"
    have d: "world_ok V ?d ow css" by (rule world_ok_drop(1) [OF ok c])
    have "ctxs ?d t = None" by simp
    note add = world_ok_add [OF d this n refl refl, of m]
    have "w' = ?d\<lparr>rings := rings ?d @ [rb_new R n], registry := registry ?d @ [length (rings ?d)],
        ctxs := (ctxs ?d)(t \<mapsto> \<lparr>producer = length (rings ?d), capacity = n, mode = m\<rparr>)\<rparr>"
      using False by (simp add: w'_def set_or_create_ctx_with_mode_def g(1) with_mode_def Let_def drop_ctx_def)
    moreover have "T = thread_msgs ?d ow css" by (simp add: T)
    ultimately show ?thesis using add by (auto intro!: world_holdsI ext)
  qed
  then show "world_holds V w' T" "\<exists>c'. ctxs w' t = Some c' \<and> mode c' = m \<and> capacity c' = n"
    by blast+
qed

lemma thread_exit_holds:
  assumes "world_holds V w T"
  shows "world_holds V (thread_exit R t w) T" and "ctxs (thread_exit R t w) t = None"
proof -
  obtain ow css where ok: "world_ok V w ow css" and T: "T = thread_msgs w ow css"
    using assms by (auto simp: world_holds_def)
  show "world_holds V (thread_exit R t w) T"
  proof (cases "ctxs w t")
    case None
    then show ?thesis using assms by (simp add: thread_exit_def)
  next
    case (Some c)
    from world_ok_drop(1) [OF ok Some] show ?thesis
      by (rule world_holdsI [THEN back_subst [of "\<lambda>x. world_holds V x T"]])
        (simp_all add: T thread_exit_def Some)
  qed
  show "ctxs (thread_exit R t w) t = None" by (simp add: thread_exit_def split: option.splits)
qed

end

section \<open>What a poll returns\<close>

lemma length_remove_at: "i < length xs \<Longrightarrow> length (remove_at i xs) = length xs - 1"
  by (simp add: remove_at_def)

lemma remove_at_take_drop:
  "i < length xs \<Longrightarrow> take i (remove_at i xs) = take i xs \<and> drop i (remove_at i xs) = drop (Suc i) xs"
  by (simp add: remove_at_def)

lemma filter_remove_at:
  "i < length xs \<Longrightarrow> filter P (remove_at i xs) =
     filter P (take i xs) @ filter P (drop (Suc i) xs)"
  by (simp add: remove_at_def)

text \<open>Removing the consumer of an empty abandoned ring loses no context and no message.\<close>

lemma world_ok_remove:
  assumes ok: "world_ok V w ow css" and i: "i < length (registry w)"
    and e: "css ! (registry w ! i) = []" and a: "gone V (rings w ! (registry w ! i))"
  shows "world_ok V (w\<lparr>registry := remove_at i (registry w)\<rparr>) ow css"
    and "set (remove_at i (registry w)) = set (registry w) - {registry w ! i}"
proof -
  let ?j = "registry w ! i"
  have split: "registry w = take i (registry w) @ ?j # drop (Suc i) (registry w)"
    using i by (simp add: id_take_nth_drop)
  have dist: "distinct (registry w)" using ok by (simp add: world_ok_def)
  then have "distinct (take i (registry w) @ ?j # drop (Suc i) (registry w))"
    using split by simp
  then have j: "?j \<notin> set (take i (registry w))" "?j \<notin> set (drop (Suc i) (registry w))"
    "distinct (remove_at i (registry w))"
    by (auto simp: remove_at_def)
  have "set (registry w) = set (take i (registry w)) \<union> {?j} \<union> set (drop (Suc i) (registry w))"
    using arg_cong [OF split, of set] by auto
  then show set: "set (remove_at i (registry w)) = set (registry w) - {?j}"
    using j by (auto simp: remove_at_def)
  have rem: "filter P (remove_at i (registry w)) = remove1 ?j (filter P (registry w))" for P
    using j by (subst (2) split) (auto simp: remove_at_def remove1_append)
  have "owns V (w\<lparr>registry := remove_at i (registry w)\<rparr>) ow t c" if "ctxs w t = Some c" for t c
  proof -
    note o = world_ok_producer(1) [OF ok that]
    then have neq: "producer c \<noteq> ?j" using a by (auto simp: owns_def)
    moreover obtain ps where "filter (\<lambda>i. ow ! i = t) (registry w) = ps @ [producer c]"
      using o by (auto simp: owns_def)
    ultimately have "filter (\<lambda>i. ow ! i = t) (remove_at i (registry w)) =
        (remove1 ?j ps) @ [producer c]"
      using rem by (auto simp: remove1_append remove1_idem)
    then show ?thesis using o neq set by (auto simp: owns_def)
  qed
  then show "world_ok V (w\<lparr>registry := remove_at i (registry w)\<rparr>) ow css"
    using ok j(3) e by (auto simp: world_ok_def set)
qed

text \<open>The messages of one thread in a sequence of messages tagged with their threads \<open>ts\<close>.\<close>

definition by_thread :: "nat list \<Rightarrow> bytes list \<Rightarrow> nat \<Rightarrow> bytes list" where
  "by_thread ts ms t = map snd (filter (\<lambda>(u, m). u = t) (zip ts ms))"

lemma by_thread_append:
  "length ts = length ms \<Longrightarrow> by_thread (ts @ us) (ms @ ns) t = by_thread ts ms t @ by_thread us ns t"
  by (simp add: by_thread_def zip_append)

lemma by_thread_replicate:
  "by_thread (replicate (length ms) u) ms t = (if u = t then ms else [])"
  by (induction ms) (auto simp: by_thread_def)

lemma by_thread_rings:
  "by_thread (concat (map (\<lambda>i. replicate (length (css ! i)) (ow ! i)) js)) (concat (map (nth css) js)) t =
     concat (map (nth css) (filter (\<lambda>i. ow ! i = t) js))"
  "length (concat (map (\<lambda>i. replicate (length (css ! i)) (ow ! i)) js)) = length (concat (map (nth css) js))"
proof (induction js)
  case (Cons i ks)
  case 1
  then show ?case using Cons by (simp add: by_thread_append by_thread_replicate)
  case 2
  then show ?case using Cons by simp
qed (simp_all add: by_thread_def)

context byte_ring
begin

lemma poll_loop_spec:
  "world_ok V w ow css \<Longrightarrow> i \<le> length (registry w) \<Longrightarrow>
   (\<forall>k < i. css ! (registry w ! k) = []) \<Longrightarrow>
   \<exists>w' css'. poll_loop R w i acc = Some (acc @ concat (map (nth css) (drop i (registry w))), w') \<and>
     world_ok V w' ow css' \<and> (\<forall>j \<in> set (registry w'). css' ! j = []) \<and> ctxs w' = ctxs w \<and>
     registry w' = take i (registry w) @ filter (\<lambda>j. \<not> gone V (rings w ! j)) (drop i (registry w))"
proof (induction "length (registry w) - i" arbitrary: w css i acc rule: less_induct)
  case less
  note ok = less.prems(1)
  show ?case
  proof (cases "i < length (registry w)")
    case False
    then show ?thesis using less.prems
      by (intro exI [of _ w] exI [of _ css]) (auto simp: poll_loop.simps [of R w] in_set_conv_nth)
  next
    case True
    let ?j = "registry w ! i"
    have j: "?j < length css" "length (rings w) = length css"
      using ok True by (auto simp: world_ok_def list_all2_lengthD)
    have q: "queue_holds V (rings w ! ?j) (css ! ?j)"
      using ok j by (auto simp: world_ok_def list_all2_conv_all_nth)
    obtain r where r: "pop_all R (rings w ! ?j) [] = Some (css ! ?j, r)" "queue_holds V r []"
      "same_ring V (rings w ! ?j) r"
      using pop_all_returns [OF q, of "[]"] by auto
    let ?w = "w\<lparr>rings := (rings w)[?j := r]\<rparr>" and ?css = "css[?j := []]"
    have ok1: "world_ok V ?w ow ?css"
      using world_ok_update [OF ok j(1) r(2,3)] by simp
    have ab: "rb_is_abandoned R r \<longleftrightarrow> gone V (rings w ! ?j)" "rb_is_empty R r"
      using r(2,3) is_abandoned [of r] holds_is_empty [of r "[]"] by (auto simp: queue_holds_def same_ring_def)
    have dist: "distinct (registry w)" using ok by (simp add: world_ok_def)
    have d: "drop i (registry w) = ?j # drop (Suc i) (registry w)"
      using True by (simp add: Cons_nth_drop_Suc)
    then have jn: "?j \<notin> set (drop (Suc i) (registry w))"
      using dist distinct_drop [of "registry w" i] by simp
    have css: "map (nth ?css) (drop (Suc i) (registry w)) = map (nth css) (drop (Suc i) (registry w))"
      using jn by (auto intro!: nth_list_update_neq)
    have live: "filter (\<lambda>k. \<not> gone V (rings ?w ! k)) (drop (Suc i) (registry w)) =
        filter (\<lambda>k. \<not> gone V (rings w ! k)) (drop (Suc i) (registry w))"
      using jn by (intro filter_cong) (auto, (metis nth_list_update_neq)+)
    have before: "\<forall>k < i. ?css ! (registry w ! k) = []"
      using less.prems(3) by (auto simp: nth_list_update j(1))
    show ?thesis
    proof (cases "gone V (rings w ! ?j)")
      case True': True
      let ?v = "?w\<lparr>registry := remove_at i (registry w)\<rparr>"
      have "?css ! (registry ?w ! i) = []" "gone V (rings ?w ! (registry ?w ! i))"
        using j True' r(3) by (auto simp: same_ring_def)
      then have ok2: "world_ok V ?v ow ?css"
        using world_ok_remove(1) [OF ok1, of i] True by simp
      have "length (registry ?v) - i < length (registry w) - i" "i \<le> length (registry ?v)"
        using True by (auto simp: length_remove_at)
      moreover have "\<forall>k < i. ?css ! (registry ?v ! k) = []"
        using before True by (simp add: remove_at_def nth_append)
      ultimately obtain w' css' where ih:
        "poll_loop R ?v i (acc @ css ! ?j) =
           Some ((acc @ css ! ?j) @ concat (map (nth ?css) (drop i (registry ?v))), w')"
        "world_ok V w' ow css'" "\<forall>j \<in> set (registry w'). css' ! j = []" "ctxs w' = ctxs ?v"
        "registry w' = take i (registry ?v) @ filter (\<lambda>j. \<not> gone V (rings ?v ! j)) (drop i (registry ?v))"
        using less.hyps [of ?v i ?css "acc @ css ! ?j"] ok2 by blast
      have "poll_loop R w i acc = poll_loop R ?v i (acc @ css ! ?j)"
        using True True' ab by (simp add: poll_loop.simps [of R w] r(1))
      note eq = this
      show ?thesis
      proof (intro exI conjI)
        show "world_ok V w' ow css'" "\<forall>j \<in> set (registry w'). css' ! j = []" by (fact ih)+
      qed (use ih(1,4,5) eq True' css live remove_at_take_drop [OF True] in \<open>simp_all add: d\<close>)
    next
      case False
      have "length (registry ?w) - Suc i < length (registry w) - i" "Suc i \<le> length (registry ?w)"
        using True by auto
      moreover have "\<forall>k < Suc i. ?css ! (registry ?w ! k) = []"
        using before j by (auto simp: less_Suc_eq)
      ultimately obtain w' css' where ih:
        "poll_loop R ?w (Suc i) (acc @ css ! ?j) =
           Some ((acc @ css ! ?j) @ concat (map (nth ?css) (drop (Suc i) (registry ?w))), w')"
        "world_ok V w' ow css'" "\<forall>j \<in> set (registry w'). css' ! j = []" "ctxs w' = ctxs ?w"
        "registry w' = take (Suc i) (registry ?w) @
           filter (\<lambda>j. \<not> gone V (rings ?w ! j)) (drop (Suc i) (registry ?w))"
        using less.hyps [of ?w "Suc i" ?css "acc @ css ! ?j"] ok1 by blast
      have "poll_loop R w i acc = poll_loop R ?w (Suc i) (acc @ css ! ?j)"
        using True False ab by (simp add: poll_loop.simps [of R w] r(1))
      note eq = this
      show ?thesis
      proof (intro exI conjI)
        show "world_ok V w' ow css'" "\<forall>j \<in> set (registry w'). css' ! j = []" by (fact ih)+
      qed (use ih(1,4,5) eq True False css live in \<open>simp_all add: d take_Suc_conv_app_nth\<close>)
    qed
  qed
qed

text \<open>
  A poll returns, takes every waiting message, each thread's in the order they were pushed, and
  drops exactly the consumers whose producer is gone.
\<close>

lemma poll_holds:
  assumes H: "world_holds V w T"
  shows "\<exists>ms ts w'. poll_all_registered_queues R w = Some (ms, w') \<and>
    length ts = length ms \<and> by_thread ts ms = T \<and> world_holds V w' (\<lambda>_. []) \<and> ctxs w' = ctxs w \<and>
    registry w' = filter (\<lambda>j. \<not> gone V (rings w ! j)) (registry w)"
proof -
  obtain ow css where ok: "world_ok V w ow css" and T: "T = thread_msgs w ow css"
    using H by (auto simp: world_holds_def)
  obtain w' css' where p: "poll_loop R w 0 [] = Some (concat (map (nth css) (registry w)), w')"
    "world_ok V w' ow css'" "\<forall>j \<in> set (registry w'). css' ! j = []" "ctxs w' = ctxs w"
    "registry w' = filter (\<lambda>j. \<not> gone V (rings w ! j)) (registry w)"
    using poll_loop_spec [OF ok, of 0 "[]"] by auto
  let ?ms = "concat (map (nth css) (registry w))"
  let ?ts = "concat (map (\<lambda>i. replicate (length (css ! i)) (ow ! i)) (registry w))"
  have "by_thread ?ts ?ms = T"
    by (intro ext) (simp only: by_thread_rings T thread_msgs_def)
  moreover have "world_holds V w' (\<lambda>_. [])"
    by (rule world_holdsI [OF p(2)]) (use p(3) in \<open>auto simp: thread_msgs_def fun_eq_iff\<close>)
  ultimately show ?thesis
    using p(1,4,5) by_thread_rings(2) [of css ow "registry w"]
    by (intro exI [of _ ?ms] exI [of _ ?ts] exI [of _ w']) (simp add: poll_all_registered_queues_def)
qed

lemma has_pending_holds:
  assumes H: "world_holds V w T"
  shows "has_pending_messages R w \<longleftrightarrow> (\<exists>t. T t \<noteq> [])"
proof -
  obtain ow css where ok: "world_ok V w ow css" and T: "T = thread_msgs w ow css"
    using H by (auto simp: world_holds_def)
  have "rb_is_empty R (rings w ! i) \<longleftrightarrow> css ! i = []" if "i \<in> set (registry w)" for i
    using that ok holds_is_empty by (auto simp: world_ok_def list_all2_conv_all_nth)
  then have "has_pending_messages R w \<longleftrightarrow> (\<exists>i \<in> set (registry w). css ! i \<noteq> [])"
    by (auto simp: has_pending_messages_def list_ex_iff)
  then show ?thesis by (auto simp: T thread_msgs_def)
qed

end

section \<open>Properties\<close>

text \<open>A world with one thread and one ring of 128 bytes, on which the theorems are instantiated.\<close>

definition small_world :: "QueueMode \<Rightarrow> cring world" where
  "small_world m =
     \<lparr>rings = [rb_new c_rtrb 128], registry = [0],
      ctxs = [0 \<mapsto> \<lparr>producer = 0, capacity = 128, mode = m\<rparr>]\<rparr>"

lemma small_world_ok: "world_ok c_view (small_world m) [0] [[]]"
  using cr.world_ok_add [OF empty_world_ok, of 0 128 _ m, OF _ _ _ refl refl]
  by (simp add: small_world_def empty_world_def)

lemma small_world_holds: "world_holds c_view (small_world m) (\<lambda>_. [])"
  by (rule world_holdsI [OF small_world_ok]) (simp add: thread_msgs_def small_world_def fun_eq_iff)

lemma small_world_simps [simp]:
  "get_ctx c_rtrb 0 (small_world m) = (\<lparr>producer = 0, capacity = 128, mode = m\<rparr>, small_world m)"
  "free_bytes c_view (small_world m) \<lparr>producer = 0, capacity = 128, mode = m'\<rparr> = 128"
  by (simp_all add: get_ctx_def small_world_def free_bytes_def c_committed_def window_def)

text \<open>C11: \<open>ThreadContext::push\<close> returns in either mode. It adds the message at the end of its own
  thread's sequence and leaves every other thread's as it is, or it drops the message and leaves
  all of them. It drops only when the frame does not fit and, in the unbounded mode, the ring may
  no longer grow or the message is larger than the largest block.\<close>

theorem ctx_push_delivers:
  assumes "byte_ring R V" and "world_holds V w T" and "length d < 2 ^ 63" and "get_ctx R t w = (c, w1)"
  shows "\<exists>res w'. ctx_push R t d w = Some (res, w') \<and>
    world_holds V w' (case res of Inl e \<Rightarrow> T | Inr x \<Rightarrow> T(t := T t @ [d])) \<and>
    (res = Inr () \<longleftrightarrow> frame_size d \<le> free_bytes V w1 c \<or>
       (mode c = UnboundedBlocking \<and> 0 < capacity c \<and> capacity c < MAX_BLOCK_CAPACITY \<and>
        frame_size d \<le> MAX_BLOCK_CAPACITY))"
proof -
  have "\<And>res :: PushError + unit. res = Inr () \<longleftrightarrow> res \<noteq> Inl Full"
    by (metis PushError.exhaust old.unit.exhaust sum.distinct(1) sum.exhaust)
  then show ?thesis
    using byte_ring.push_with_holds [OF assms(1,2) byte_ring.push_delivers [OF assms(1,3)] assms(4)]
    by (fastforce simp: ctx_push_def split: sum.splits)
qed

theorem ctx_push_delivers_witness:
  "\<exists>res w'. ctx_push c_rtrb 0 [1, 2] (small_world UnboundedBlocking) = Some (res, w') \<and>
    world_holds c_view w' (case res of Inl e \<Rightarrow> \<lambda>_. [] | Inr x \<Rightarrow> (\<lambda>_. [])(0 := [] @ [[1, 2]])) \<and>
    res = Inr ()"
  using ctx_push_delivers [OF cr.byte_ring_axioms small_world_holds, of "[1, 2]" 0 UnboundedBlocking]
  by (simp add: frame_size_def FRAME_HEADER_def)

text \<open>C10: \<open>ThreadContext::push_encoded\<close> makes the same promise for a message encoded in place by a
  closure that fills its slice.\<close>

theorem ctx_push_encoded_delivers:
  assumes "byte_ring R V" and "world_holds V w T" and "n < 2 ^ 63" and "get_ctx R t w = (c, w1)"
    and "\<forall>p. length p = n \<longrightarrow> (\<exists>p' x. enc p = Some (p', x) \<and> length p' = n)"
  shows "\<exists>res w'. ctx_push_encoded R t n enc w = Some (res, w') \<and>
    (case res of
       Inl e \<Rightarrow> world_holds V w' T
     | Inr x \<Rightarrow> \<exists>p d. length p = n \<and> enc p = Some (d, x) \<and> length d = n \<and>
         world_holds V w' (T(t := T t @ [d]))) \<and>
    (res \<noteq> Inl Full \<longleftrightarrow> frame_size (replicate n 0) \<le> free_bytes V w1 c \<or>
       (mode c = UnboundedBlocking \<and> 0 < capacity c \<and> capacity c < MAX_BLOCK_CAPACITY \<and>
        frame_size (replicate n 0) \<le> MAX_BLOCK_CAPACITY))"
proof -
  have "delivers V (frame_size (replicate n 0)) (\<lambda>r. push_encoded R r n enc)
    (\<lambda>x m. length m = n \<and> (\<exists>p. length p = n \<and> enc p = Some (m, x)))"
    by (rule byte_ring.push_encoded_delivers [OF assms(1,3)]) (use assms(5) in blast)
  from byte_ring.push_with_holds [OF assms(1,2) this assms(4)] obtain res w' where
    w': "ctx_push_encoded R t n enc w = Some (res, w')"
    "case res of Inl e \<Rightarrow> world_holds V w' T
     | Inr x \<Rightarrow> \<exists>d. (length d = n \<and> (\<exists>p. length p = n \<and> enc p = Some (d, x))) \<and>
         world_holds V w' (T(t := T t @ [d]))"
    "res \<noteq> Inl Full \<longleftrightarrow> frame_size (replicate n 0) \<le> free_bytes V w1 c \<or>
       (mode c = UnboundedBlocking \<and> 0 < capacity c \<and> capacity c < MAX_BLOCK_CAPACITY \<and>
        frame_size (replicate n 0) \<le> MAX_BLOCK_CAPACITY)"
    unfolding ctx_push_encoded_def by (elim exE conjE)
  moreover have "case res of Inl e \<Rightarrow> world_holds V w' T
     | Inr x \<Rightarrow> \<exists>p d. length p = n \<and> enc p = Some (d, x) \<and> length d = n \<and>
         world_holds V w' (T(t := T t @ [d]))"
    using w'(2) by (cases res) auto
  ultimately show ?thesis by (intro exI conjI)
qed

theorem ctx_push_encoded_delivers_witness:
  defines "enc \<equiv> \<lambda>p :: bytes. Some (map (\<lambda>_. 7) p, length p)"
  shows "\<exists>res w'. ctx_push_encoded c_rtrb 0 3 enc (small_world BoundedDropping) = Some (res, w') \<and>
    (case res of
       Inl e \<Rightarrow> world_holds c_view w' (\<lambda>_. [])
     | Inr x \<Rightarrow> \<exists>p d. length p = 3 \<and> enc p = Some (d, x) \<and> length d = 3 \<and>
         world_holds c_view w' ((\<lambda>_. [])(0 := [] @ [d]))) \<and> res \<noteq> Inl Full"
  using ctx_push_encoded_delivers [OF cr.byte_ring_axioms small_world_holds, of 3 0 BoundedDropping
    "\<lparr>producer = 0, capacity = 128, mode = BoundedDropping\<rparr>" "small_world BoundedDropping" enc]
  by (simp add: frame_size_def FRAME_HEADER_def enc_def)

text \<open>C12: A poll returns. It takes every message of every thread, each thread's in the order pushed
  (\<open>ts\<close> names the threads of the messages \<open>ms\<close>), leaves nothing behind, and removes exactly the
  consumers whose producer is gone.\<close>

theorem poll_takes_all:
  assumes "byte_ring R V" and "world_holds V w T"
  shows "\<exists>ms ts w'. poll_all_registered_queues R w = Some (ms, w') \<and>
    length ts = length ms \<and> by_thread ts ms = T \<and> world_holds V w' (\<lambda>_. []) \<and> ctxs w' = ctxs w \<and>
    registry w' = filter (\<lambda>j. \<not> gone V (rings w ! j)) (registry w)"
  by (rule byte_ring.poll_holds [OF assms])

theorem poll_takes_all_witness:
  "\<exists>w T ms ts w'. T 0 = [[1, 2]] \<and> poll_all_registered_queues c_rtrb w = Some (ms, w') \<and>
    length ts = length ms \<and> by_thread ts ms = T \<and> world_holds c_view w' (\<lambda>_. []) \<and>
    ctxs w' = ctxs w \<and> registry w' = filter (\<lambda>j. \<not> gone c_view (rings w ! j)) (registry w)"
proof -
  obtain res :: "PushError + unit" and w where
    "case res of Inl e \<Rightarrow> world_holds c_view w (\<lambda>_. [])
       | Inr x \<Rightarrow> \<exists>d. d = [1, 2] \<and> world_holds c_view w ((\<lambda>_. [])(0 := [] @ [d]))" "res \<noteq> Inl Full"
    using cr.push_with_holds [OF small_world_holds cr.push_delivers, of "[1, 2]" 0 UnboundedBlocking]
    by (auto simp: frame_size_def FRAME_HEADER_def)
  moreover have "res = Inl Full \<or> res = Inr ()" by (metis PushError.exhaust old.unit.exhaust sum.exhaust)
  ultimately have T: "world_holds c_view w ((\<lambda>_. [])(0 := [[1, 2]]))" by auto
  show ?thesis
    by (rule exI [of _ w], rule exI [of _ "(\<lambda>_. [])(0 := [[1, 2]])"])
      (use poll_takes_all [OF cr.byte_ring_axioms T] in simp)
qed

text \<open>\<open>has_pending_messages\<close> tells whether some thread has a message waiting.\<close>

lemma has_pending_iff:
  assumes "byte_ring R V" and "world_holds V w T"
  shows "has_pending_messages R w \<longleftrightarrow> (\<exists>t. T t \<noteq> [])"
  by (rule byte_ring.has_pending_holds [OF assms])

lemma has_pending_iff_example:
  "has_pending_messages c_rtrb (small_world BoundedDropping) \<longleftrightarrow> False"
  using has_pending_iff [OF cr.byte_ring_axioms small_world_holds] by simp

text \<open>C35: Changing a thread's queue (\<open>init_with_mode\<close> with a capacity that is a multiple of 64) sets
  mode and capacity and loses no message, those in the ring it replaces included; nor does the end
  of a thread.\<close>

theorem reconfigure_keeps_messages:
  assumes "byte_ring R V" and "world_holds V w T" and "64 dvd n" and "n < 2 ^ 32"
  shows "world_holds V (init_with_mode R t m n w) T \<and> world_holds V (thread_exit R t w) T \<and>
    (\<exists>c. ctxs (init_with_mode R t m n w) t = Some c \<and> mode c = m \<and> capacity c = n) \<and>
    ctxs (thread_exit R t w) t = None"
  using byte_ring.set_or_create_holds [OF assms] byte_ring.thread_exit_holds [OF assms(1,2)]
  by (auto simp: init_with_mode_def)

theorem reconfigure_keeps_messages_witness:
  "world_holds c_view (init_with_mode c_rtrb 0 UnboundedBlocking 256 (small_world BoundedDropping)) (\<lambda>_. [])"
  by (rule reconfigure_keeps_messages [OF cr.byte_ring_axioms small_world_holds, THEN conjunct1]) simp_all

text \<open>\<open>preallocate\<close> puts a thread back into the dropping mode with the default capacity, also
  one that had been set to the unbounded mode.\<close>

lemma preallocate_resets_mode:
  assumes "byte_ring R V" and "world_holds V w T"
  shows "\<exists>c. ctxs (preallocate R t (set_queue_mode R t UnboundedBlocking w)) t = Some c \<and>
    mode c = BoundedDropping \<and> capacity c = DEFAULT_START_CAPACITY"
proof -
  have n: "64 dvd DEFAULT_START_CAPACITY" "DEFAULT_START_CAPACITY < 2 ^ 32"
    by (simp_all add: DEFAULT_START_CAPACITY_def)
  have "world_holds V (set_queue_mode R t UnboundedBlocking w) T"
    using byte_ring.set_or_create_holds(1) [OF assms n]
    by (simp add: set_queue_mode_def init_with_mode_def)
  from byte_ring.set_or_create_holds(2) [OF assms(1) this n] show ?thesis
    by (simp add: preallocate_def init_def)
qed

end
