(* ===== verification/Concurrency.thy ===== *)
theory Concurrency
  imports Thread_Context "HOL-Library.Multiset"
begin

text \<open>
  The threads of the application and the poll of the backend, interleaved. One step is one call of
  the ring by a thread or by the poll, or one acquisition of the registry's lock, which the poll
  holds from its start to its end: a thread that has made a new ring waits for the lock before its
  consumer is registered. Pushes and pops are single steps, as their commits publish them at once.
\<close>

section \<open>States and steps\<close>

text \<open>Where \<open>poll_all_registered_queues\<close> is in its loop; all but \<open>Idle\<close> hold the lock.\<close>

datatype poller = Idle | Draining nat | CheckAbandoned nat | CheckEmpty nat

text \<open>
  \<open>waiting\<close> are the threads that wait for the lock with the ring they made, \<open>taken\<close> the messages
  taken so far, \<open>sent t\<close> the messages whose push by thread \<open>t\<close> succeeded.
\<close>

record 'r sys =
  shared :: "'r world"
  waiting :: "(nat \<times> nat) list"
  poller :: poller
  taken :: "bytes list"
  sent :: "nat \<Rightarrow> bytes list"

text \<open>The next step of the poll.\<close>

definition poll_step :: "'r rtrb \<Rightarrow> 'r sys \<Rightarrow> 'r sys" where
  "poll_step R s =
     (let w = shared s; reg = registry w
      in case poller s of
        Idle \<Rightarrow> s\<lparr>poller := Draining 0\<rparr>
      | Draining i \<Rightarrow>
          if i < length reg then
            (case pop R (rings w ! (reg ! i)) of
               (Some msg, r) \<Rightarrow> s\<lparr>shared := w\<lparr>rings := (rings w)[reg ! i := r]\<rparr>, taken := taken s @ [msg]\<rparr>
             | (None, r) \<Rightarrow> s\<lparr>shared := w\<lparr>rings := (rings w)[reg ! i := r]\<rparr>, poller := CheckAbandoned i\<rparr>)
          else s\<lparr>poller := Idle\<rparr>
      | CheckAbandoned i \<Rightarrow>
          if rb_is_abandoned R (rings w ! (reg ! i)) then s\<lparr>poller := CheckEmpty i\<rparr>
          else s\<lparr>poller := Draining (Suc i)\<rparr>
      | CheckEmpty i \<Rightarrow>
          if rb_is_empty R (rings w ! (reg ! i))
          then s\<lparr>shared := w\<lparr>registry := remove_at i reg\<rparr>, poller := Draining i\<rparr>
          else s\<lparr>poller := Draining (Suc i)\<rparr>)"

text \<open>A thread makes a ring and waits to register its consumer.\<close>

definition make_ring :: "'r rtrb \<Rightarrow> nat \<Rightarrow> QueueMode \<Rightarrow> nat \<Rightarrow> 'r sys \<Rightarrow> 'r sys" where
  "make_ring R t m n s =
     (let w = shared s; i = length (rings w)
      in s\<lparr>shared := w\<lparr>rings := rings w @ [rb_new R n],
             ctxs := (ctxs w)(t \<mapsto> \<lparr>producer = i, capacity = n, mode = m\<rparr>)\<rparr>,
           waiting := waiting s @ [(t, i)]\<rparr>)"

definition running :: "'r sys \<Rightarrow> nat \<Rightarrow> bool" where
  "running s t \<longleftrightarrow> t \<notin> fst ` set (waiting s)"

inductive step :: "'r rtrb \<Rightarrow> 'r sys \<Rightarrow> 'r sys \<Rightarrow> bool" for R where
  poll: "step R s (poll_step R s)"
| first_use: "running s t \<Longrightarrow> ctxs (shared s) t = None \<Longrightarrow>
    step R s (make_ring R t BoundedDropping DEFAULT_START_CAPACITY s)"
| pushes: "running s t \<Longrightarrow> ctxs (shared s) t = Some c \<Longrightarrow> length d < 2 ^ 63 \<Longrightarrow>
    push R (rings (shared s) ! producer c) d = Some (Inr r) \<Longrightarrow>
    step R s (s\<lparr>shared := (shared s)\<lparr>rings := (rings (shared s))[producer c := r]\<rparr>,
                sent := (sent s)(t := sent s t @ [d])\<rparr>)"
| grows: "running s t \<Longrightarrow> ctxs (shared s) t = Some c \<Longrightarrow> mode c = UnboundedBlocking \<Longrightarrow>
    push R (rings (shared s) ! producer c) d = Some (Inl Full) \<Longrightarrow>
    grow R (capacity c) = Some (n, r) \<Longrightarrow>
    step R s (make_ring R t (mode c) n (s\<lparr>shared := drop_ctx R c (shared s)\<rparr>))"
| replaces: "running s t \<Longrightarrow> ctxs (shared s) t = Some c \<Longrightarrow> capacity c \<noteq> n \<Longrightarrow>
    64 dvd n \<Longrightarrow> n < 2 ^ 32 \<Longrightarrow>
    step R s (make_ring R t m n (s\<lparr>shared := drop_ctx R c (shared s)\<rparr>))"
| sets_mode: "running s t \<Longrightarrow> ctxs (shared s) t = Some c \<Longrightarrow>
    step R s (s\<lparr>shared := (shared s)\<lparr>ctxs := (ctxs (shared s))(t \<mapsto> c\<lparr>mode := m\<rparr>)\<rparr>\<rparr>)"
| registers: "poller s = Idle \<Longrightarrow> waiting s = xs @ (t, i) # ys \<Longrightarrow>
    step R s (s\<lparr>shared := (shared s)\<lparr>registry := registry (shared s) @ [i]\<rparr>, waiting := xs @ ys\<rparr>)"
| exits: "running s t \<Longrightarrow> ctxs (shared s) t = Some c \<Longrightarrow>
    step R s (s\<lparr>shared := thread_exit R t (shared s)\<rparr>)"

text \<open>Runs from a world without messages.\<close>

definition start :: "'r world \<Rightarrow> 'r sys" where
  "start w = \<lparr>shared = w, waiting = [], poller = Idle, taken = [], sent = (\<lambda>_. [])\<rparr>"

inductive reaches :: "'r rtrb \<Rightarrow> 'r sys \<Rightarrow> 'r sys \<Rightarrow> bool" for R s where
  reaches_refl: "reaches R s s"
| reaches_step: "reaches R s s' \<Longrightarrow> step R s' s'' \<Longrightarrow> reaches R s s''"

section \<open>The invariant\<close>

text \<open>
  The registry with the waiting consumers at its end, the order in which they will be polled as far
  as one thread is concerned.
\<close>

definition all_registered :: "'r sys \<Rightarrow> 'r world" where
  "all_registered s = (shared s)\<lparr>registry := registry (shared s) @ map snd (waiting s)\<rparr>"

text \<open>A later ring of the same thread is registered.\<close>

definition has_later :: "nat list \<Rightarrow> nat list \<Rightarrow> nat \<Rightarrow> bool" where
  "has_later ow reg k \<longleftrightarrow> (\<exists>j < length reg. k < j \<and> ow ! (reg ! j) = ow ! (reg ! k))"

text \<open>
  What the position of the poll implies. The rings it has passed are empty if their thread has a
  later ring, so that a message taken from a later ring overtakes none of its thread; and what it
  found empty and abandoned stays so.
\<close>

fun position_ok :: "'r ring_view \<Rightarrow> 'r world \<Rightarrow> nat list \<Rightarrow> bytes list list \<Rightarrow> poller \<Rightarrow> bool" where
  "position_ok V w ow css Idle \<longleftrightarrow> True"
| "position_ok V w ow css (Draining i) \<longleftrightarrow>
     (\<forall>k < i. has_later ow (registry w) k \<longrightarrow> css ! (registry w ! k) = [])"
| "position_ok V w ow css (CheckAbandoned i) \<longleftrightarrow> i < length (registry w) \<and>
     (\<forall>k < Suc i. has_later ow (registry w) k \<longrightarrow> css ! (registry w ! k) = [])"
| "position_ok V w ow css (CheckEmpty i) \<longleftrightarrow> i < length (registry w) \<and>
     (\<forall>k < Suc i. has_later ow (registry w) k \<longrightarrow> css ! (registry w ! k) = []) \<and>
     gone V (rings w ! (registry w ! i))"

definition sys_inv :: "'r ring_view \<Rightarrow> 'r sys \<Rightarrow> nat list \<Rightarrow> nat list \<Rightarrow> bytes list list \<Rightarrow> bool" where
  "sys_inv V s ts ow css \<longleftrightarrow>
     world_ok V (all_registered s) ow css \<and>
     distinct (map fst (waiting s)) \<and> (\<forall>(t, i) \<in> set (waiting s). ow ! i = t) \<and>
     position_ok V (shared s) ow css (poller s) \<and>
     length ts = length (taken s) \<and>
     (\<forall>t. by_thread ts (taken s) t @ thread_msgs (all_registered s) ow css t = sent s t)"

section \<open>Preservation\<close>

lemma all_registered_simps [simp]:
  "rings (all_registered s) = rings (shared s)"
  "ctxs (all_registered s) = ctxs (shared s)"
  "registry (all_registered s) = registry (shared s) @ map snd (waiting s)"
  "all_registered (s\<lparr>taken := x\<rparr>) = all_registered s"
  "all_registered (s\<lparr>sent := y\<rparr>) = all_registered s"
  "all_registered (s\<lparr>poller := z\<rparr>) = all_registered s"
  "all_registered (s\<lparr>shared := (shared s)\<lparr>rings := rs\<rparr>\<rparr>) = (all_registered s)\<lparr>rings := rs\<rparr>"
  "all_registered (s\<lparr>shared := (shared s)\<lparr>ctxs := cs\<rparr>\<rparr>) = (all_registered s)\<lparr>ctxs := cs\<rparr>"
  by (simp_all add: all_registered_def)

lemma registry_drop_ctx [simp]: "registry (drop_ctx R c w) = registry w"
  by (simp add: drop_ctx_def)

lemma all_registered_drop:
  "all_registered (s\<lparr>shared := drop_ctx R c (shared s)\<rparr>) = drop_ctx R c (all_registered s)"
  by (simp add: all_registered_def drop_ctx_def)

lemma last_filter_notin:
  assumes "distinct xs" "filter P xs = ps @ [p]" "k < j" "j < length xs" "P (xs ! j)"
  shows "xs ! k \<noteq> p"
proof
  assume e: "xs ! k = p"
  have split: "xs = take j xs @ xs ! j # drop (Suc j) xs" using assms(4) by (simp add: id_take_nth_drop)
  have "p = last (filter P xs)" using assms(2) by simp
  also have "\<dots> = last (xs ! j # filter P (drop (Suc j) xs))"
    by (subst split) (simp add: assms(5))
  also have "\<dots> \<in> set (xs ! j # filter P (drop (Suc j) xs))" by (rule last_in_set) simp
  also have "\<dots> \<subseteq> set (xs ! j # drop (Suc j) xs)" by auto
  finally have "p \<in> set (xs ! j # drop (Suc j) xs)" .
  moreover have "p \<in> set (take j xs)"
    using e assms(3,4) by (auto simp: in_set_conv_nth intro!: exI [of _ k])
  moreover have "distinct (take j xs @ xs ! j # drop (Suc j) xs)"
    using assms(1) split by simp
  ultimately show False by auto
qed

text \<open>The ring a live context writes to has no later ring of its thread.\<close>

lemma producer_not_later:
  assumes ok: "world_ok V w ow css" and c: "ctxs w t = Some c"
    and reg: "registry w = reg @ xs" and k: "has_later ow reg k" "k < length reg"
  shows "reg ! k \<noteq> producer c"
proof
  assume e: "reg ! k = producer c"
  note o = world_ok_producer(1) [OF ok c]
  obtain j where j: "j < length reg" "k < j" "ow ! (reg ! j) = ow ! (reg ! k)"
    using k(1) by (auto simp: has_later_def)
  have "ow ! (registry w ! j) = t" using j e owns_owner [OF o] by (simp add: reg nth_append)
  moreover obtain ps where "filter (\<lambda>i. ow ! i = t) (registry w) = ps @ [producer c]"
    using o by (auto simp: owns_def)
  moreover have "distinct (registry w)" using ok by (simp add: world_ok_def)
  ultimately have "registry w ! k \<noteq> producer c"
    using j by (intro last_filter_notin [of _ "\<lambda>i. ow ! i = t" _ _ k j]) (auto simp: reg)
  then show False using e k(2) by (simp add: reg nth_append)
qed

lemma has_later_bound: "has_later ow reg k \<Longrightarrow> k < length reg"
  by (auto simp: has_later_def)

text \<open>The position facts survive whatever only adds rings and abandons producers.\<close>

lemma position_ok_mono:
  assumes "position_ok V w ow css p" "registry w' = registry w"
    and "\<And>k. k < length (registry w) \<Longrightarrow> ow' ! (registry w ! k) = ow ! (registry w ! k)"
    and "\<And>k. has_later ow (registry w) k \<Longrightarrow> css ! (registry w ! k) = [] \<Longrightarrow> css' ! (registry w ! k) = []"
    and "\<And>k. k < length (registry w) \<Longrightarrow> gone V (rings w ! (registry w ! k)) \<Longrightarrow>
      gone V (rings w' ! (registry w ! k))"
  shows "position_ok V w' ow' css' p"
proof -
  have "has_later ow' (registry w) k \<longleftrightarrow> has_later ow (registry w) k" for k
    using assms(3) by (fastforce simp: has_later_def)
  then show ?thesis using assms(1,2,4,5) by (cases p) auto
qed

lemma world_ok_reorder:
  assumes ok: "world_ok V w ow css" and p: "mset reg = mset (registry w)"
    and f: "\<And>t. filter (\<lambda>i. ow ! i = t) reg = filter (\<lambda>i. ow ! i = t) (registry w)"
  shows "world_ok V (w\<lparr>registry := reg\<rparr>) ow css"
    and "thread_msgs (w\<lparr>registry := reg\<rparr>) ow css = thread_msgs w ow css"
proof -
  have "set reg = set (registry w)" "distinct reg \<longleftrightarrow> distinct (registry w)"
    using p by (metis mset_eq_setD, metis mset_eq_imp_distinct_iff)
  then show "world_ok V (w\<lparr>registry := reg\<rparr>) ow css"
    using ok f by (auto simp: world_ok_def owns_def)
  show "thread_msgs (w\<lparr>registry := reg\<rparr>) ow css = thread_msgs w ow css"
    by (simp add: thread_msgs_def f fun_eq_iff)
qed

context byte_ring
begin

lemma inv_make_ring:
  fixes t m n
  assumes inv: "sys_inv V s ts ow css" and r: "running s t" and c: "ctxs (shared s) t = None"
    and n: "64 dvd n" "n < 2 ^ 32"
  shows "sys_inv V (make_ring R t m n s) ts (ow @ [t]) (css @ [[]])"
proof -
  let ?s = "make_ring R t m n s"
  have ok: "world_ok V (all_registered s) ow css" using inv by (simp add: sys_inv_def)
  note add = world_ok_add [OF ok _ n refl refl, of t m]
  have eq: "all_registered ?s = (all_registered s)\<lparr>
      rings := rings (all_registered s) @ [rb_new R n],
      registry := registry (all_registered s) @ [length (rings (all_registered s))],
      ctxs := (ctxs (all_registered s))(t \<mapsto>
        \<lparr>producer = length (rings (all_registered s)), capacity = n, mode = m\<rparr>)\<rparr>"
    by (simp add: make_ring_def all_registered_def Let_def)
  have l: "length ow = length css" "length (rings (shared s)) = length css"
    and reg: "\<forall>i \<in> set (registry (all_registered s)). i < length css"
    using ok by (auto simp: world_ok_def list_all2_lengthD)
  have reg': "k < length (registry (shared s)) \<Longrightarrow> registry (shared s) ! k < length css" for k
    using reg by simp
  have "i < length css" if "(u, i) \<in> set (waiting s)" for u i
    using reg that by force
  then have w: "\<forall>(u, i) \<in> set (waiting ?s). (ow @ [t]) ! i = u"
    using inv reg l by (auto simp: sys_inv_def make_ring_def Let_def nth_append)
  have "distinct (map fst (waiting ?s))"
    using inv r by (auto simp: sys_inv_def make_ring_def Let_def running_def)
  moreover have "position_ok V (shared ?s) (ow @ [t]) (css @ [[]]) (poller ?s)"
    using inv reg' l has_later_bound
    by (auto simp: sys_inv_def make_ring_def Let_def nth_append intro!: position_ok_mono [of V "shared s" ow css])
  ultimately show ?thesis
    using inv add c w unfolding sys_inv_def eq by (simp add: make_ring_def Let_def)
qed

lemma inv_drop:
  assumes inv: "sys_inv V s ts ow css" and c: "ctxs (shared s) t = Some c"
  shows "sys_inv V (s\<lparr>shared := (drop_ctx R c (shared s))\<lparr>ctxs := (ctxs (shared s))(t := None)\<rparr>\<rparr>) ts ow css"
proof -
  have ok: "world_ok V (all_registered s) ow css" using inv by (simp add: sys_inv_def)
  have c': "ctxs (all_registered s) t = Some c" using c by simp
  note d = world_ok_drop [OF ok c']
  let ?s = "s\<lparr>shared := (drop_ctx R c (shared s))\<lparr>ctxs := (ctxs (shared s))(t := None)\<rparr>\<rparr>"
  have eq: "all_registered ?s = (drop_ctx R c (all_registered s))\<lparr>ctxs := (ctxs (all_registered s))(t := None)\<rparr>"
    by (simp add: all_registered_def drop_ctx_def)
  have g: "gone V (rings (drop_ctx R c (shared s)) ! k)" if "gone V (rings (shared s) ! k)" for k
    using that d(2) by (cases "k = producer c") (auto simp: drop_ctx_def)
  have "position_ok V (shared ?s) ow css (poller ?s)"
    using inv g by (auto simp: sys_inv_def intro!: position_ok_mono [of V "shared s" ow css])
  then show ?thesis using inv d unfolding sys_inv_def eq by simp
qed

lemma inv_push:
  assumes inv: "sys_inv V s ts ow css" and c: "ctxs (shared s) t = Some c"
    and p: "push R (rings (shared s) ! producer c) d = Some (Inr r)" and d: "length d < 2 ^ 63"
  shows "sys_inv V (s\<lparr>shared := (shared s)\<lparr>rings := (rings (shared s))[producer c := r]\<rparr>,
    sent := (sent s)(t := sent s t @ [d])\<rparr>) ts ow (css[producer c := css ! producer c @ [d]])"
proof -
  let ?css = "css[producer c := css ! producer c @ [d]]"
  have ok: "world_ok V (all_registered s) ow css" using inv by (simp add: sys_inv_def)
  have c': "ctxs (all_registered s) t = Some c" using c by simp
  note w = world_ok_producer [OF ok c']
  have q: "queue_holds V (rings (shared s) ! producer c) (css ! producer c)" using w(4) by simp
  have "queue_holds V r (css ! producer c @ [d]) \<and> same_ring V (rings (shared s) ! producer c) r"
    using push_fits [OF q, of d] push_full [OF q d] p
    by (cases "frame_size d + length (committed V (rings (shared s) ! producer c))
      \<le> cap V (rings (shared s) ! producer c)") auto
  then have r: "queue_holds V r (css ! producer c @ [d])" "same_ring V (rings (shared s) ! producer c) r"
    by blast+
  have ok': "world_ok V ((all_registered s)\<lparr>rings := (rings (shared s))[producer c := r]\<rparr>) ow ?css"
    using world_ok_update [OF ok w(3) r(1)] r(2) w(1) by (simp add: owns_def)
  have m: "thread_msgs (all_registered s) ow ?css u =
      thread_msgs (all_registered s) ow css u @ (if u = t then [d] else [])" for u
    by (rule thread_msgs_append [OF ok c'])
  have "position_ok V ((shared s)\<lparr>rings := (rings (shared s))[producer c := r]\<rparr>) ow ?css (poller s)"
  proof (rule position_ok_mono [of V "shared s" ow css])
    show "position_ok V (shared s) ow css (poller s)" using inv by (simp add: sys_inv_def)
    fix k
    assume k: "has_later ow (registry (shared s)) k" "css ! (registry (shared s) ! k) = []"
    have "registry (shared s) ! k \<noteq> producer c"
      by (rule producer_not_later [OF ok c' _ k(1) has_later_bound [OF k(1)]]) simp
    then show "?css ! (registry (shared s) ! k) = []" using k(2) by simp
  next
    fix k assume "gone V (rings (shared s) ! (registry (shared s) ! k))"
    then show "gone V (rings ((shared s)\<lparr>rings := (rings (shared s))[producer c := r]\<rparr>) !
        (registry (shared s) ! k))"
      using r(2) w(2) by (cases "registry (shared s) ! k = producer c") (auto simp: same_ring_def)
  qed simp_all
  then show ?thesis using inv ok' m unfolding sys_inv_def by (auto simp flip: append_assoc)
qed

lemma inv_register:
  assumes inv: "sys_inv V s ts ow css" and idle: "poller s = Idle" and w: "waiting s = xs @ (t, i) # ys"
  shows "sys_inv V (s\<lparr>shared := (shared s)\<lparr>registry := registry (shared s) @ [i]\<rparr>,
    waiting := xs @ ys\<rparr>) ts ow css"
proof -
  let ?s = "s\<lparr>shared := (shared s)\<lparr>registry := registry (shared s) @ [i]\<rparr>, waiting := xs @ ys\<rparr>"
  have ok: "world_ok V (all_registered s) ow css" using inv by (simp add: sys_inv_def)
  have wt: "\<forall>(u, j) \<in> set (xs @ (t, i) # ys). ow ! j = u" "distinct (map fst (xs @ (t, i) # ys))"
    using inv unfolding sys_inv_def w by blast+
  have own1: "ow ! i = t" using wt(1) by simp
  have own2: "ow ! j = u \<and> u \<noteq> t" if "(u, j) \<in> set xs" for u j
  proof -
    have "u \<in> fst ` set xs" using that by force
    moreover have "t \<notin> fst ` set xs" using wt(2) by simp
    ultimately have "u \<noteq> t" by (rule_tac notI) simp
    then show ?thesis using wt(1) that by auto
  qed
  have f: "filter (\<lambda>k. ow ! k = u) ((registry (shared s) @ [i]) @ map snd (xs @ ys)) =
      filter (\<lambda>k. ow ! k = u) (registry (all_registered s))" for u
  proof (cases "u = t")
    case True
    have "ow ! snd p \<noteq> u" if "p \<in> set xs" for p
      using own2 [of "fst p" "snd p"] that True by simp
    then have "filter (\<lambda>k. ow ! k = u) (map snd xs) = []"
      by (simp add: filter_empty_conv)
    then show ?thesis using own1 True by (simp add: w)
  next
    case False
    then show ?thesis using own1 by (simp add: w)
  qed
  have eq: "all_registered ?s =
      (all_registered s)\<lparr>registry := (registry (shared s) @ [i]) @ map snd (xs @ ys)\<rparr>"
    by (simp add: all_registered_def)
  have "mset ((registry (shared s) @ [i]) @ map snd (xs @ ys)) = mset (registry (all_registered s))"
    by (simp add: w)
  note reo = world_ok_reorder [OF ok this f]
  have "world_ok V (all_registered ?s) ow css"
    "thread_msgs (all_registered ?s) ow css = thread_msgs (all_registered s) ow css"
    unfolding eq by (fact reo)+
  moreover have "distinct (map fst (xs @ ys))" "\<forall>(u, j) \<in> set (xs @ ys). ow ! j = u"
    "length ts = length (taken s)"
    "\<forall>t. by_thread ts (taken s) t @ thread_msgs (all_registered s) ow css t = sent s t"
    using inv by (auto simp: sys_inv_def w)
  ultimately show ?thesis unfolding sys_inv_def by (simp add: idle)
qed

lemma thread_msgs_pop:
  assumes dist: "distinct (registry w)" and i: "i < length (registry w)" "registry w ! i < length css"
    and m: "css ! (registry w ! i) = m # ms" and u: "u = ow ! (registry w ! i)"
    and before: "\<forall>k < i. ow ! (registry w ! k) = u \<longrightarrow> css ! (registry w ! k) = []"
  shows "thread_msgs w ow css = (thread_msgs w ow (css[registry w ! i := ms]))(u :=
    m # thread_msgs w ow (css[registry w ! i := ms]) u)"
proof -
  let ?j = "registry w ! i" and ?css = "css[registry w ! i := ms]"
  have split: "registry w = take i (registry w) @ ?j # drop (Suc i) (registry w)"
    using i by (simp add: id_take_nth_drop)
  have "distinct (take i (registry w) @ ?j # drop (Suc i) (registry w))"
    using dist split by simp
  then have j: "?j \<notin> set (drop (Suc i) (registry w))" "?j \<notin> set (take i (registry w))" by auto
  have nil: "concat (map (nth css) (filter (\<lambda>k. ow ! k = u) (take i (registry w)))) = []"
    using before i by (auto simp: in_set_conv_nth)
  have same: "map (nth ?css) (filter P (drop (Suc i) (registry w))) =
      map (nth css) (filter P (drop (Suc i) (registry w)))"
    "map (nth ?css) (filter P (take i (registry w))) = map (nth css) (filter P (take i (registry w)))" for P
    using j by (auto intro!: nth_list_update_neq)
  have msgs: "thread_msgs w ow cs v = concat (map (nth cs) (filter (\<lambda>k. ow ! k = v) (take i (registry w)))) @
      (if ow ! ?j = v then cs ! ?j else []) @
      concat (map (nth cs) (filter (\<lambda>k. ow ! k = v) (drop (Suc i) (registry w))))" for cs v
    unfolding thread_msgs_def by (subst split) simp
  let ?rest = "concat (map (nth css) (filter (\<lambda>k. ow ! k = u) (drop (Suc i) (registry w))))"
  have "thread_msgs w ow css u = m # ms @ ?rest" "thread_msgs w ow ?css u = ms @ ?rest"
    unfolding msgs same nil using m i(2) u by simp_all
  moreover have "thread_msgs w ow css v = thread_msgs w ow ?css v" if "v \<noteq> u" for v
    unfolding msgs same using that u by simp
  ultimately show ?thesis by (intro ext) simp
qed

lemma thread_msgs_remove:
  assumes i: "i < length (registry w)" and e: "css ! (registry w ! i) = []"
  shows "thread_msgs (w\<lparr>registry := remove_at i (registry w)\<rparr>) ow css = thread_msgs w ow css"
proof
  fix u
  have "thread_msgs w ow css u = concat (map (nth css) (filter (\<lambda>k. ow ! k = u)
      (take i (registry w) @ registry w ! i # drop (Suc i) (registry w))))"
    unfolding thread_msgs_def using i by (simp only: id_take_nth_drop [symmetric])
  then show "thread_msgs (w\<lparr>registry := remove_at i (registry w)\<rparr>) ow css u = thread_msgs w ow css u"
    by (simp add: thread_msgs_def remove_at_def e)
qed

lemma inv_drain:
  assumes inv: "sys_inv V s ts ow css" and p: "poller s = Draining i"
  shows "\<exists>ts' css'. sys_inv V (poll_step R s) ts' ow css'"
proof (cases "i < length (registry (shared s))")
  case False
  then show ?thesis using inv p
    by (intro exI [of _ ts] exI [of _ css]) (simp add: poll_step_def Let_def sys_inv_def)
next
  case True
  let ?w = "all_registered s" and ?reg = "registry (shared s)"
  let ?j = "?reg ! i"
  have ok: "world_ok V ?w ow css" using inv by (simp add: sys_inv_def)
  have pos: "\<forall>k < i. has_later ow ?reg k \<longrightarrow> css ! (?reg ! k) = []" using inv p by (simp add: sys_inv_def)
  have reg: "i < length (registry ?w)" "registry ?w ! k = ?reg ! k" if "k < length ?reg" for k
    using True that by (simp_all add: nth_append)
  have j: "?j < length css" using ok True reg by (auto simp: world_ok_def)
  have q: "queue_holds V (rings (shared s) ! ?j) (css ! ?j)"
    using ok j by (auto simp: world_ok_def list_all2_conv_all_nth)
  have l: "length (rings (shared s)) = length css" using ok by (auto simp: world_ok_def list_all2_lengthD)
  show ?thesis
  proof (cases "css ! ?j")
    case Nil
    then have "pop R (rings (shared s) ! ?j) = (None, rings (shared s) ! ?j)" using pop_empty q by simp
    then have s': "poll_step R s = s\<lparr>poller := CheckAbandoned i\<rparr>"
      using True p by (simp add: poll_step_def Let_def)
    have "\<forall>k < Suc i. has_later ow ?reg k \<longrightarrow> css ! (?reg ! k) = []"
      using pos Nil by (auto simp: less_Suc_eq)
    then show ?thesis using inv True p unfolding s'
      by (intro exI [of _ ts] exI [of _ css]) (simp add: sys_inv_def)
  next
    case (Cons m ms)
    obtain r where r: "pop R (rings (shared s) ! ?j) = (Some m, r)" "queue_holds V r ms"
      "same_ring V (rings (shared s) ! ?j) r"
      using pop_Cons q Cons by metis
    let ?rings = "(rings (shared s))[?j := r]" and ?css = "css[?j := ms]" and ?u = "ow ! ?j"
    have s': "poll_step R s = s\<lparr>shared := (shared s)\<lparr>rings := ?rings\<rparr>, taken := taken s @ [m]\<rparr>"
      using True p r(1) by (simp add: poll_step_def Let_def)
    have ok': "world_ok V (?w\<lparr>rings := ?rings\<rparr>) ow ?css"
      using world_ok_update [OF ok j r(2)] r(3) True by simp
    have "\<forall>k < i. ow ! (registry ?w ! k) = ?u \<longrightarrow> css ! (registry ?w ! k) = []"
      using pos True by (auto simp: has_later_def nth_append) metis
    then have T: "thread_msgs ?w ow css = (thread_msgs ?w ow ?css)(?u := m # thread_msgs ?w ow ?css ?u)"
      using thread_msgs_pop [of ?w i css m ms ?u ow] ok True j Cons
      by (simp add: world_ok_def nth_append)
    have "position_ok V ((shared s)\<lparr>rings := ?rings\<rparr>) ow ?css (poller s)"
    proof (rule position_ok_mono [of V "shared s" ow css])
      show "position_ok V (shared s) ow css (poller s)" using inv by (simp add: sys_inv_def)
      fix k assume k: "has_later ow ?reg k" "css ! (?reg ! k) = []"
      then have "?reg ! k \<noteq> ?j" using Cons by auto
      then show "?css ! (?reg ! k) = []" using k(2) by simp
    next
      fix k assume "gone V (rings (shared s) ! (?reg ! k))"
      then show "gone V (rings ((shared s)\<lparr>rings := ?rings\<rparr>) ! (?reg ! k))"
        using r(3) j l by (cases "?reg ! k = ?j") (auto simp: same_ring_def)
    qed simp_all
    moreover have "by_thread (ts @ [?u]) (taken s @ [m]) t @ thread_msgs ?w ow ?css t = sent s t" for t
    proof -
      have "by_thread ts (taken s) t @ thread_msgs ?w ow css t = sent s t" "length ts = length (taken s)"
        using inv by (simp_all add: sys_inv_def)
      then show ?thesis by (cases "t = ?u") (auto simp: by_thread_append T by_thread_def [of "[_]" "[_]"])
    qed
    ultimately show ?thesis
      using inv ok' by (intro exI [of _ "ts @ [?u]"] exI [of _ ?css]) (simp add: sys_inv_def s')
  qed
qed

lemma inv_check_abandoned:
  assumes inv: "sys_inv V s ts ow css" and p: "poller s = CheckAbandoned i"
  shows "sys_inv V (poll_step R s) ts ow css"
proof -
  have ok: "world_ok V (all_registered s) ow css" and i: "i < length (registry (shared s))"
    using inv p by (auto simp: sys_inv_def)
  then have "ok V (rings (shared s) ! (registry (shared s) ! i))"
    by (auto simp: world_ok_def list_all2_conv_all_nth queue_holds_def)
  then show ?thesis
    using inv p by (auto simp: sys_inv_def poll_step_def Let_def is_abandoned)
qed

lemma inv_check_empty:
  assumes inv: "sys_inv V s ts ow css" and p: "poller s = CheckEmpty i"
  shows "sys_inv V (poll_step R s) ts ow css"
proof -
  let ?w = "all_registered s" and ?reg = "registry (shared s)"
  have ok: "world_ok V ?w ow css" and i: "i < length ?reg"
    and pos: "\<forall>k < Suc i. has_later ow ?reg k \<longrightarrow> css ! (?reg ! k) = []"
    and g: "gone V (rings (shared s) ! (?reg ! i))"
    using inv p by (auto simp: sys_inv_def)
  have e: "rb_is_empty R (rings (shared s) ! (?reg ! i)) \<longleftrightarrow> css ! (?reg ! i) = []"
    using ok i holds_is_empty by (auto simp: world_ok_def list_all2_conv_all_nth)
  show ?thesis
  proof (cases "css ! (?reg ! i) = []")
    case False
    then show ?thesis using inv p e pos by (simp add: sys_inv_def poll_step_def Let_def)
  next
    case True
    let ?s = "s\<lparr>shared := (shared s)\<lparr>registry := remove_at i ?reg\<rparr>, poller := Draining i\<rparr>"
    have s': "poll_step R s = ?s" using True p e by (simp add: poll_step_def Let_def)
    have reg: "registry ?w ! i = ?reg ! i" "i < length (registry ?w)" using i by (simp_all add: nth_append)
    have eq: "all_registered ?s = ?w\<lparr>registry := remove_at i (registry ?w)\<rparr>"
      using i by (simp add: all_registered_def remove_at_def)
    have "world_ok V (all_registered ?s) ow css"
      unfolding eq by (rule world_ok_remove(1) [OF ok reg(2)]) (use reg True g in simp_all)
    moreover have "thread_msgs (all_registered ?s) ow css = thread_msgs ?w ow css"
      unfolding eq by (rule thread_msgs_remove) (use reg True in simp_all)
    moreover have "has_later ow ?reg k" if hl: "has_later ow (remove_at i ?reg) k" and ki: "k < i" for k
    proof -
      obtain j where j: "j < length (remove_at i ?reg)" "k < j"
        "ow ! (remove_at i ?reg ! j) = ow ! (remove_at i ?reg ! k)"
        using hl by (auto simp: has_later_def)
      have k: "remove_at i ?reg ! k = ?reg ! k" using ki i by (simp add: remove_at_def nth_append)
      have "remove_at i ?reg ! j = ?reg ! (if j < i then j else Suc j)"
        using i j(1) by (auto simp: remove_at_def nth_append)
      then show ?thesis
        using j k i unfolding has_later_def
        by (intro exI [of _ "if j < i then j else Suc j"]) (auto simp: length_remove_at)
    qed
    then have "position_ok V (shared ?s) ow css (Draining i)"
      using pos i by (auto simp: remove_at_def nth_append)
    ultimately show ?thesis using inv unfolding s' sys_inv_def by simp
  qed
qed

lemma inv_mode:
  fixes m
  assumes inv: "sys_inv V s ts ow css" and c: "ctxs (shared s) t = Some c"
  shows "sys_inv V (s\<lparr>shared := (shared s)\<lparr>ctxs := (ctxs (shared s))(t \<mapsto> c\<lparr>mode := m\<rparr>)\<rparr>\<rparr>) ts ow css"
proof -
  have "position_ok V ((shared s)\<lparr>ctxs := (ctxs (shared s))(t \<mapsto> c\<lparr>mode := m\<rparr>)\<rparr>) ow css (poller s)"
    using inv by (auto simp: sys_inv_def intro!: position_ok_mono [of V "shared s" ow css])
  then show ?thesis
    using inv c world_ok_frame [of V "all_registered s" ow css t c m] by (simp add: sys_inv_def)
qed

lemma make_ring_ctxs:
  "make_ring R t m n (s\<lparr>shared := w\<lparr>ctxs := (ctxs (shared s))(t := x)\<rparr>\<rparr>) =
   make_ring R t m n (s\<lparr>shared := w\<lparr>ctxs := ctxs (shared s)\<rparr>\<rparr>)"
  by (simp add: make_ring_def Let_def)

lemma inv_replace:
  fixes t m n
  assumes inv: "sys_inv V s ts ow css" and r: "running s t" and c: "ctxs (shared s) t = Some c"
    and n: "64 dvd n" "n < 2 ^ 32"
  shows "sys_inv V (make_ring R t m n (s\<lparr>shared := drop_ctx R c (shared s)\<rparr>)) ts (ow @ [t]) (css @ [[]])"
proof -
  let ?s = "s\<lparr>shared := (drop_ctx R c (shared s))\<lparr>ctxs := (ctxs (shared s))(t := None)\<rparr>\<rparr>"
  have "sys_inv V (make_ring R t m n ?s) ts (ow @ [t]) (css @ [[]])"
    using r by (intro inv_make_ring [OF inv_drop [OF inv c]] n) (simp_all add: running_def)
  moreover have "make_ring R t m n ?s = make_ring R t m n (s\<lparr>shared := drop_ctx R c (shared s)\<rparr>)"
    by (simp add: make_ring_def Let_def drop_ctx_def)
  ultimately show ?thesis by simp
qed

lemma capacity_ok:
  assumes "sys_inv V s ts ow css" "ctxs (shared s) t = Some c"
  shows "64 dvd capacity c"
  using world_ok_producer [of V "all_registered s" ow css t c] assms
  by (auto simp: sys_inv_def owns_def queue_holds_def)

lemma inv_step:
  assumes "step R s s'" and inv: "sys_inv V s ts ow css"
  shows "\<exists>ts' ow' css'. sys_inv V s' ts' ow' css'"
  using assms(1)
proof cases
  case poll
  show ?thesis
  proof (cases "poller s")
    case Idle
    have "sys_inv V (s\<lparr>poller := Draining 0\<rparr>) ts ow css" using inv by (simp add: sys_inv_def)
    then show ?thesis unfolding poll using Idle by (auto simp: poll_step_def Let_def)
  next
    case Draining
    then show ?thesis unfolding poll using inv_drain [OF inv] by blast
  next
    case CheckAbandoned
    then show ?thesis unfolding poll using inv_check_abandoned [OF inv] by blast
  next
    case CheckEmpty
    then show ?thesis unfolding poll using inv_check_empty [OF inv] by blast
  qed
next
  case (first_use t)
  have "64 dvd DEFAULT_START_CAPACITY" "DEFAULT_START_CAPACITY < 2 ^ 32"
    by (simp_all add: DEFAULT_START_CAPACITY_def)
  then show ?thesis using inv_make_ring [OF inv first_use(2,3)] first_use(1) by blast
next
  case (pushes t c d r)
  then show ?thesis using inv_push [OF inv] by blast
next
  case (grows t c d n r)
  have "n = min (capacity c * 2) MAX_BLOCK_CAPACITY"
    using grows(6) by (auto simp: grow_def Let_def split: if_splits)
  then have "64 dvd n" "n < 2 ^ 32"
    using capacity_ok [OF inv grows(3)] by (auto simp: min_def MAX_BLOCK_CAPACITY_def)
  then show ?thesis using inv_replace [OF inv grows(2,3)] grows(1) by blast
next
  case (replaces t c n m)
  then show ?thesis using inv_replace [OF inv replaces(2,3,5,6)] by blast
next
  case (sets_mode t c m)
  then show ?thesis using inv_mode [OF inv sets_mode(3)] by blast
next
  case (registers xs t i ys)
  then show ?thesis using inv_register [OF inv registers(2,3)] by blast
next
  case (exits t c)
  then show ?thesis using inv_drop [OF inv exits(3)] by (auto simp: thread_exit_def)
qed

lemma start_inv: "world_holds V w (\<lambda>_. []) \<Longrightarrow> \<exists>ts ow css. sys_inv V (start w) ts ow css"
  by (fastforce simp: world_holds_def sys_inv_def start_def all_registered_def by_thread_def fun_eq_iff)

lemma reaches_inv:
  assumes "reaches R s s'" "\<exists>ts ow css. sys_inv V s ts ow css"
  shows "\<exists>ts ow css. sys_inv V s' ts ow css"
  using assms by induction (use inv_step in blast)+

end

section \<open>The poll as a run of its steps\<close>

lemma funpow_join: "(f ^^ n) x = y \<Longrightarrow> (f ^^ m) y = z \<Longrightarrow> \<exists>n. (f ^^ n) x = z"
  by (rule exI [of _ "m + n"]) (simp add: funpow_add)

lemma funpow_step: "f x = y \<Longrightarrow> (f ^^ n) y = z \<Longrightarrow> \<exists>n. (f ^^ n) x = z"
  by (rule exI [of _ "Suc n"]) (simp add: funpow_Suc_right del: funpow.simps)

text \<open>\<open>pop_all\<close> on the ring at position \<open>i\<close>, and the state in which it leaves the poll.\<close>

definition drained :: "'r sys \<Rightarrow> nat \<Rightarrow> bytes list \<Rightarrow> 'r \<Rightarrow> 'r sys" where
  "drained s i ms r =
     s\<lparr>shared := (shared s)\<lparr>rings := (rings (shared s))[registry (shared s) ! i := r]\<rparr>,
       taken := taken s @ ms, poller := CheckAbandoned i\<rparr>"

lemma pop_all_steps:
  assumes "pop_all R r acc = Some res"
  shows "\<forall>s i. poller s = Draining i \<longrightarrow> i < length (registry (shared s)) \<longrightarrow>
    registry (shared s) ! i < length (rings (shared s)) \<longrightarrow>
    rings (shared s) ! (registry (shared s) ! i) = r \<longrightarrow>
    (\<exists>n ms. fst res = acc @ ms \<and> (poll_step R ^^ n) s = drained s i ms (snd res))"
  using assms
proof (induction R r acc res rule: pop_all.raw_induct [rotated, consumes 1])
  case (1 pa R r acc res)
  show ?case
  proof (intro allI impI)
    fix s :: "'a sys" and i
    assume s: "poller s = Draining i" "i < length (registry (shared s))"
      "registry (shared s) ! i < length (rings (shared s))"
      "rings (shared s) ! (registry (shared s) ! i) = r"
    obtain o' r1 where p: "pop R r = (o', r1)" by fastforce
    show "\<exists>n ms. fst res = acc @ ms \<and> (poll_step R ^^ n) s = drained s i ms (snd res)"
    proof (cases o')
      case None
      then have "poll_step R s = drained s i [] (snd res)" "fst res = acc"
        using 1(2) s p by (auto simp: poll_step_def Let_def drained_def)
      then show ?thesis by (intro exI [of _ "Suc 0"] exI [of _ "[]"]) simp
    next
      case (Some m)
      let ?s = "s\<lparr>shared := (shared s)\<lparr>rings := (rings (shared s))[registry (shared s) ! i := r1]\<rparr>,
        taken := taken s @ [m]\<rparr>"
      have "pa R r1 (acc @ [m]) = Some res" using 1(2) p Some by simp
      from 1(1) [OF this, THEN spec, THEN spec, of ?s i] s obtain n ms where
        ih: "fst res = (acc @ [m]) @ ms" "(poll_step R ^^ n) ?s = drained ?s i ms (snd res)"
        by auto
      have "poll_step R s = ?s" using s p Some by (simp add: poll_step_def Let_def)
      from funpow_step [OF this ih(2)] obtain k where "(poll_step R ^^ k) s = drained ?s i ms (snd res)" ..
      moreover have "drained ?s i ms (snd res) = drained s i (m # ms) (snd res)"
        by (simp add: drained_def)
      ultimately show ?thesis using ih(1) by (intro exI [of _ k] exI [of _ "m # ms"]) simp
    qed
  qed
qed

text \<open>The whole loop of \<open>poll_all_registered_queues\<close>.\<close>

lemma poll_loop_steps:
  "poll_loop R w i acc = Some (acc', w') \<Longrightarrow> \<forall>j \<in> set (registry w). j < length (rings w) \<Longrightarrow>
   shared s = w \<Longrightarrow> poller s = Draining i \<Longrightarrow>
   \<exists>n ms. acc' = acc @ ms \<and> (poll_step R ^^ n) s = s\<lparr>shared := w', taken := taken s @ ms, poller := Idle\<rparr>"
proof (induction R w i acc arbitrary: s rule: poll_loop.induct)
  case (1 R w i acc)
  let ?j = "registry w ! i"
  note unf = poll_loop.simps [of R w i acc]
  show ?case
  proof (cases "i < length (registry w)")
    case False
    then have "poll_step R s = s\<lparr>shared := w', poller := Idle\<rparr>" "acc' = acc"
      using "1.prems" unf by (auto simp: poll_step_def Let_def)
    then show ?thesis by (intro exI [of _ "Suc 0"] exI [of _ "[]"]) simp
  next
    case True
    then obtain msgs r where r: "pop_all R (rings w ! ?j) [] = Some (msgs, r)"
      using "1.prems"(1) unf by (auto split: option.splits)
    have j: "?j < length (rings w)" using True "1.prems"(2) by simp
    obtain n where n: "(poll_step R ^^ n) s = drained s i msgs r"
      using pop_all_steps [OF r, rule_format, of s i] "1.prems" True j by auto
    let ?ab = "rb_is_abandoned R r" and ?em = "rb_is_empty R r"
    let ?w = "w\<lparr>rings := (rings w)[?j := r]\<rparr>"
    let ?v = "if ?ab \<and> ?em then ?w\<lparr>registry := remove_at i (registry w)\<rparr> else ?w"
    let ?i = "if ?ab \<and> ?em then i else Suc i"
    let ?t = "s\<lparr>shared := ?v, taken := taken s @ msgs, poller := Draining ?i\<rparr>"
    have "\<exists>m. (poll_step R ^^ m) (drained s i msgs r) = ?t"
    proof (cases ?ab)
      case False
      then show ?thesis using "1.prems" j
        by (intro exI [of _ "Suc 0"]) (simp add: poll_step_def Let_def drained_def)
    next
      case ab: True
      then show ?thesis using "1.prems" j
        by (intro exI [of _ "Suc (Suc 0)"]) (simp add: poll_step_def Let_def drained_def)
    qed
    then obtain m where "(poll_step R ^^ (m + n)) s = ?t" using n by (auto simp: funpow_add)
    moreover have "poll_loop R ?v ?i (acc @ msgs) = Some (acc', w')"
      using "1.prems"(1) unf True r by (cases "?ab \<and> ?em") auto
    moreover have "\<forall>j \<in> set (registry ?v). j < length (rings ?v)"
      using "1.prems"(2) by (auto simp: remove_at_def dest!: in_set_takeD in_set_dropD)
    ultimately obtain k ms where k: "acc' = (acc @ msgs) @ ms"
      "(poll_step R ^^ k) ?t = ?t\<lparr>shared := w', taken := taken ?t @ ms, poller := Idle\<rparr>"
      using "1.IH" [OF True r refl, of ?t] by (cases "?ab \<and> ?em") auto
    with \<open>(poll_step R ^^ (m + n)) s = ?t\<close> show ?thesis
      by (intro exI [of _ "k + (m + n)"] exI [of _ "msgs @ ms"]) (simp add: funpow_add [of k])
  qed
qed

lemma poll_all_steps:
  assumes "poll_all_registered_queues R (shared s) = Some (ms, w')" "poller s = Idle"
    and "\<forall>j \<in> set (registry (shared s)). j < length (rings (shared s))"
  shows "\<exists>n. (poll_step R ^^ n) s = s\<lparr>shared := w', taken := taken s @ ms\<rparr>"
proof -
  let ?s = "s\<lparr>poller := Draining 0\<rparr>"
  obtain n where n: "(poll_step R ^^ n) ?s = ?s\<lparr>shared := w', taken := taken ?s @ ms, poller := Idle\<rparr>"
    using poll_loop_steps [of R "shared s" 0 "[]" ms w' ?s] assms
    by (auto simp: poll_all_registered_queues_def)
  have "poll_step R s = ?s" using assms(2) by (simp add: poll_step_def Let_def)
  moreover have "s\<lparr>poller := Idle\<rparr> = s" using assms(2) by simp
  then have "?s\<lparr>shared := w', taken := taken ?s @ ms, poller := Idle\<rparr> =
      s\<lparr>shared := w', taken := taken s @ ms\<rparr>"
    using assms(2) by (cases s) simp
  ultimately show ?thesis using funpow_step [OF _ n] by simp
qed

section \<open>Properties\<close>

lemma all_registered_start [simp]: "all_registered (start w) = w"
  by (simp add: all_registered_def start_def)

context byte_ring
begin

lemma idle_poll:
  assumes inv: "sys_inv V s ts ow css" and idle: "poller s = Idle" and w: "waiting s = []"
  shows "\<exists>n ts'. poller ((poll_step R ^^ n) s) = Idle \<and> sent ((poll_step R ^^ n) s) = sent s \<and>
    length ts' = length (taken ((poll_step R ^^ n) s)) \<and>
    by_thread ts' (taken ((poll_step R ^^ n) s)) = sent s"
proof -
  have eq: "all_registered s = shared s" using w by (simp add: all_registered_def)
  then have ok: "world_ok V (shared s) ow css" and l: "length ts = length (taken s)"
    and sent: "\<forall>t. by_thread ts (taken s) t @ thread_msgs (shared s) ow css t = sent s t"
    using inv by (simp_all add: sys_inv_def)
  obtain ms us w' where p: "poll_all_registered_queues R (shared s) = Some (ms, w')"
    "length us = length ms" "by_thread us ms = thread_msgs (shared s) ow css"
    using poll_holds [OF world_holdsI [OF ok refl]] by (elim exE conjE)
  have "\<forall>j \<in> set (registry (shared s)). j < length (rings (shared s))"
    using ok by (auto simp: world_ok_def list_all2_lengthD)
  from poll_all_steps [OF p(1) idle this] obtain n where
    n: "(poll_step R ^^ n) s = s\<lparr>shared := w', taken := taken s @ ms\<rparr>" by blast
  have "by_thread (ts @ us) (taken s @ ms) = sent s"
    using sent l by (intro ext) (simp add: by_thread_append p(3))
  then show ?thesis
    using n idle l p(2) by (intro exI [of _ n] exI [of _ "ts @ us"]) simp
qed

end

text \<open>C4: In every interleaving of application threads (which push, grow and replace their queues,
  start and end) with the steps of the backend's poll, no message is lost, duplicated or reordered
  within its thread: what the poll has taken from a thread, followed by what still waits in its
  rings, is what the thread has successfully pushed.\<close>

theorem no_loss_no_reorder:
  assumes "byte_ring R V" and "world_holds V w (\<lambda>_. [])" and "reaches R (start w) s"
  shows "\<exists>ts T. length ts = length (taken s) \<and> world_holds V (all_registered s) T \<and>
    (\<forall>t. by_thread ts (taken s) t @ T t = sent s t)"
  using byte_ring.reaches_inv [OF assms(1,3) byte_ring.start_inv [OF assms(1,2)]]
  by (force simp: sys_inv_def intro: world_holdsI)


text \<open>C18: The step by step poll, undisturbed, computes what the function
  \<open>poll_all_registered_queues\<close> computes: the same messages and the same final state.\<close>

theorem poll_steps_equiv:
  assumes "poll_all_registered_queues R (shared s) = Some (ms, w')" and "poller s = Idle"
    and "\<forall>j \<in> set (registry (shared s)). j < length (rings (shared s))"
  shows "\<exists>n. (poll_step R ^^ n) s = s\<lparr>shared := w', taken := taken s @ ms\<rparr>"
  by (rule poll_all_steps [OF assms])

text \<open>A run in which a thread pushes between two steps of the poll.\<close>

definition pushed_ring :: cring where
  "pushed_ring =
     (case push c_rtrb (rb_new c_rtrb 128) [1, 2] of Some (Inr r) \<Rightarrow> r | _ \<Rightarrow> rb_new c_rtrb 0)"

definition sample_run :: "cring sys" where
  "sample_run = (start (small_world BoundedDropping))
     \<lparr>poller := Draining 0, shared := (small_world BoundedDropping)\<lparr>rings := [pushed_ring]\<rparr>,
      sent := (\<lambda>_. [])(0 := [[1, 2]])\<rparr>"

lemma pushed_ring: "push c_rtrb (rb_new c_rtrb 128) [1, 2] = Some (Inr pushed_ring)"
proof -
  have "queue_holds c_view (rb_new c_rtrb 128) []" by (rule cr.new_holds) simp_all
  moreover have "frame_size [1, 2] + length (committed c_view (rb_new c_rtrb 128)) \<le>
      cap c_view (rb_new c_rtrb 128)"
    using cr.new [of 128] by (simp add: frame_size_def FRAME_HEADER_def c_committed_def window_def c_cap_def)
  ultimately obtain r where "push c_rtrb (rb_new c_rtrb 128) [1, 2] = Some (Inr r)"
    using cr.push_fits by blast
  then show ?thesis by (simp add: pushed_ring_def)
qed

lemma sample_run_reached: "reaches c_rtrb (start (small_world BoundedDropping)) sample_run"
proof -
  let ?s = "start (small_world BoundedDropping)"
  have "poll_step c_rtrb ?s = ?s\<lparr>poller := Draining 0\<rparr>"
    by (simp add: poll_step_def start_def)
  then have "reaches c_rtrb ?s (?s\<lparr>poller := Draining 0\<rparr>)"
    using step.poll [of c_rtrb ?s] reaches.intros by metis
  moreover have "step c_rtrb (?s\<lparr>poller := Draining 0\<rparr>) sample_run"
    using step.pushes [of "?s\<lparr>poller := Draining 0\<rparr>" 0
      "\<lparr>producer = 0, capacity = 128, mode = BoundedDropping\<rparr>" "[1, 2]" c_rtrb pushed_ring] pushed_ring
    by (simp add: running_def start_def small_world_def sample_run_def fun_upd_def)
  ultimately show ?thesis by (rule reaches_step)
qed

theorem no_loss_no_reorder_witness:
  "\<exists>ts T. length ts = length (taken sample_run) \<and> world_holds c_view (all_registered sample_run) T \<and>
    (\<forall>t. by_thread ts (taken sample_run) t @ T t = sent sample_run t) \<and> sent sample_run 0 = [[1, 2]]"
proof -
  have "sent sample_run 0 = [[1, 2]]" by (simp add: sample_run_def)
  then show ?thesis
    using no_loss_no_reorder [OF cr.byte_ring_axioms small_world_holds sample_run_reached] by blast
qed


theorem poll_steps_equiv_witness:
  "\<exists>n w'. (poll_step c_rtrb ^^ n) (sample_run\<lparr>poller := Idle\<rparr>) =
     sample_run\<lparr>poller := Idle, shared := w', taken := [[1, 2]]\<rparr>"
proof -
  have "map_option fst (poll_all_registered_queues c_rtrb (shared sample_run)) = Some [[1, 2]]"
    by code_simp
  then obtain w' where "poll_all_registered_queues c_rtrb (shared sample_run) = Some ([[1, 2]], w')" by auto
  then show ?thesis
    using poll_steps_equiv [of c_rtrb "sample_run\<lparr>poller := Idle\<rparr>" "[[1, 2]]" w']
    by (auto simp: sample_run_def start_def small_world_def)
qed

end
