(* ===== verification/Level.thy ===== *)
theory Level
  imports Rust_Text
begin

text \<open>
  \<open>src/level.rs\<close>: the severity levels, their numeric codes and their derived order, and the
  compile-time level features of \<open>src/macros.rs\<close>.
\<close>

section \<open>LogLevel\<close>

datatype LogLevel = TraceL3 | TraceL2 | TraceL1 | Debug | Info | Warning | Error | Critical

fun as_usize :: "LogLevel \<Rightarrow> nat" where
  "as_usize TraceL3 = 0"
| "as_usize TraceL2 = 1"
| "as_usize TraceL1 = 2"
| "as_usize Debug = 3"
| "as_usize Info = 4"
| "as_usize Warning = 5"
| "as_usize Error = 6"
| "as_usize Critical = 7"

definition from_usize :: "nat \<Rightarrow> LogLevel option" where
  "from_usize val =
     (if val = 0 then Some TraceL3
      else if val = 1 then Some TraceL2
      else if val = 2 then Some TraceL1
      else if val = 3 then Some Debug
      else if val = 4 then Some Info
      else if val = 5 then Some Warning
      else if val = 6 then Some Error
      else if val = 7 then Some Critical
      else None)"

lemma from_as_usize [simp]: "from_usize (as_usize l) = Some l"
  by (cases l) (simp_all add: from_usize_def)

lemma as_usize_lt: "as_usize l < 8"
  by (cases l) simp_all

lemma from_usize_Some: "from_usize n = Some l \<Longrightarrow> as_usize l = n"
  by (auto simp: from_usize_def split: if_splits)

lemma as_usize_inj [simp]: "as_usize a = as_usize b \<longleftrightarrow> a = b"
  by (metis from_as_usize option.inject)

text \<open>\<open>#[derive(PartialOrd, Ord)]\<close> compares the discriminants.\<close>

definition level_le :: "LogLevel \<Rightarrow> LogLevel \<Rightarrow> bool" where
  "level_le a b \<longleftrightarrow> as_usize a \<le> as_usize b"

definition level_lt :: "LogLevel \<Rightarrow> LogLevel \<Rightarrow> bool" where
  "level_lt a b \<longleftrightarrow> as_usize a < as_usize b"

instantiation LogLevel :: linorder
begin

definition less_eq_LogLevel :: "LogLevel \<Rightarrow> LogLevel \<Rightarrow> bool" where
  "less_eq_LogLevel = level_le"

definition less_LogLevel :: "LogLevel \<Rightarrow> LogLevel \<Rightarrow> bool" where
  "less_LogLevel = level_lt"

instance
  by standard (auto simp: less_eq_LogLevel_def less_LogLevel_def level_le_def level_lt_def)

end

lemma level_order:
  "a \<le> b \<longleftrightarrow> as_usize a \<le> as_usize b" "a < b \<longleftrightarrow> as_usize a < as_usize b" for a b :: LogLevel
  by (simp_all add: less_eq_LogLevel_def less_LogLevel_def level_le_def level_lt_def)

text \<open>\<open>#[derive(Debug)]\<close> prints the variant's name.\<close>

fun level_name :: "LogLevel \<Rightarrow> bytes" where
  "level_name TraceL3 = str ''TraceL3''"
| "level_name TraceL2 = str ''TraceL2''"
| "level_name TraceL1 = str ''TraceL1''"
| "level_name Debug = str ''Debug''"
| "level_name Info = str ''Info''"
| "level_name Warning = str ''Warning''"
| "level_name Error = str ''Error''"
| "level_name Critical = str ''Critical''"

section \<open>Compile-time level features\<close>

datatype feature =
  max_level_trace | max_level_debug | max_level_info | max_level_warning | max_level_error

text \<open>
  Whether the logging macro of a level expands to \<open>log_impl!\<close> (true) or to nothing under a set
  of Cargo features: the \<open>cfg\<close> attributes of the eight macro pairs, in the file's order.
\<close>

fun macro_enabled :: "feature list \<Rightarrow> LogLevel \<Rightarrow> bool" where
  "macro_enabled fs TraceL3 =
     (\<not> list_ex (\<lambda>f. f \<in> set [max_level_debug, max_level_info, max_level_warning, max_level_error]) fs)"
| "macro_enabled fs TraceL2 =
     (\<not> list_ex (\<lambda>f. f \<in> set [max_level_debug, max_level_info, max_level_warning, max_level_error]) fs)"
| "macro_enabled fs TraceL1 =
     (\<not> list_ex (\<lambda>f. f \<in> set [max_level_debug, max_level_info, max_level_warning, max_level_error]) fs)"
| "macro_enabled fs Debug =
     (\<not> list_ex (\<lambda>f. f \<in> set [max_level_info, max_level_warning, max_level_error]) fs)"
| "macro_enabled fs Info = (\<not> list_ex (\<lambda>f. f \<in> set [max_level_warning, max_level_error]) fs)"
| "macro_enabled fs Warning = (\<not> list_ex (\<lambda>f. f = max_level_error) fs)"
| "macro_enabled fs Error = True"
| "macro_enabled fs Critical = True"

text \<open>The level a feature names: the least level it leaves enabled.\<close>

fun feature_level :: "feature \<Rightarrow> LogLevel" where
  "feature_level max_level_trace = TraceL3"
| "feature_level max_level_debug = Debug"
| "feature_level max_level_info = Info"
| "feature_level max_level_warning = Warning"
| "feature_level max_level_error = Error"

lemma macro_enabled_alt: "macro_enabled fs l \<longleftrightarrow> list_all (\<lambda>f. feature_level f \<le> l) fs"
proof (induction fs)
  case Nil
  show ?case by (cases l) simp_all
next
  case (Cons f fs)
  then show ?case
    by (cases l; cases f) (auto simp: level_order)
qed

section \<open>Properties\<close>

text \<open>The eight \<open>cfg\<close> pairs agree with the names of the features: a level's macro is compiled in
  exactly when every chosen feature names a level at or below it, so that errors and critical
  messages are never compiled out.\<close>

lemma macro_enabled_threshold:
  "macro_enabled fs l \<longleftrightarrow> list_all (\<lambda>f. feature_level f \<le> l) fs"
  by (rule macro_enabled_alt)

text \<open>\<open>from_usize\<close> is the inverse of \<open>as_usize\<close> and refuses every other number.\<close>

lemma from_usize_inverse: "from_usize n = Some l \<longleftrightarrow> n = as_usize l"
  by (cases l) (auto simp: from_usize_def split: if_splits)

end
