(* ===== verification/Schema.thy ===== *)
theory Schema
  imports Rust_Text
begin

text \<open>
  \<open>src/arg/mod.rs\<close> and the decoder of \<open>src/arg/schema.rs\<close>: the schema bytecode, its measurement,
  and \<open>format_payload\<close>, which walks a schema and a payload side by side and writes the text.
  A reader that panics on an index out of range returns \<open>None\<close>. The writer only appends, so the
  formatter returns the text it writes.
\<close>

unbundle bit_operations_syntax

section \<open>Opcodes\<close>

definition OP_UNIT :: byte where "OP_UNIT = 0x00"
definition OP_SIGNED_INT :: byte where "OP_SIGNED_INT = 0x10"
definition OP_UNSIGNED_INT :: byte where "OP_UNSIGNED_INT = 0x20"
definition OP_FLOAT :: byte where "OP_FLOAT = 0x30"
definition OP_STR :: byte where "OP_STR = 0x40"
definition OP_CHAR :: byte where "OP_CHAR = 0x50"
definition OP_BOOL :: byte where "OP_BOOL = 0x60"
definition OP_SEQ :: byte where "OP_SEQ = 0x80"
definition OP_TUPLE :: byte where "OP_TUPLE = 0x90"
definition OP_STRUCT :: byte where "OP_STRUCT = 0xA0"
definition OP_ENUM :: byte where "OP_ENUM = 0xB0"
definition OP_USER_DEFINED :: byte where "OP_USER_DEFINED = 0xF0"
definition CAT_MASK :: byte where "CAT_MASK = 0xF0"
definition SIZE_MASK :: byte where "SIZE_MASK = 0x0F"

lemmas op_defs = OP_UNIT_def OP_SIGNED_INT_def OP_UNSIGNED_INT_def OP_FLOAT_def OP_STR_def
  OP_CHAR_def OP_BOOL_def OP_SEQ_def OP_TUPLE_def OP_STRUCT_def OP_ENUM_def OP_USER_DEFINED_def
  CAT_MASK_def SIZE_MASK_def

definition op_signed_int :: "nat \<Rightarrow> byte" where
  "op_signed_int k = OP_SIGNED_INT OR (word_of_nat k AND SIZE_MASK)"

definition op_unsigned_int :: "nat \<Rightarrow> byte" where
  "op_unsigned_int k = OP_UNSIGNED_INT OR (word_of_nat k AND SIZE_MASK)"

definition op_float :: "nat \<Rightarrow> byte" where
  "op_float k = OP_FLOAT OR (word_of_nat k AND SIZE_MASK)"

definition op_str :: "nat \<Rightarrow> byte" where
  "op_str k = OP_STR OR (word_of_nat k AND SIZE_MASK)"

definition op_bool :: byte where "op_bool = OP_BOOL"

definition op_char :: byte where "op_char = OP_CHAR"

definition size_for_k :: "nat \<Rightarrow> nat" where
  "size_for_k k =
     (if k = 1 then 1 else if k = 2 then 2 else if k = 3 then 4 else if k = 4 then 8
      else if k = 5 then 16 else 0)"

section \<open>Reading integers\<close>

text \<open>16-byte integers are not read: the last branch returns 0.\<close>

definition read_unsigned_ne :: "bytes \<Rightarrow> nat \<Rightarrow> nat option" where
  "read_unsigned_ne buf k =
     (let sz = size_for_k k
      in if sz = 1 then Some (case buf of [] \<Rightarrow> 0 | b # _ \<Rightarrow> unat b)
         else if sz = 2 \<or> sz = 4 \<or> sz = 8 then
           (if sz \<le> length buf then Some (from_le (take sz buf)) else None)
         else Some 0)"

text \<open>Two's complement of a \<open>sz\<close>-byte number.\<close>

definition to_signed :: "nat \<Rightarrow> nat \<Rightarrow> int" where
  "to_signed sz n = (if n < 2 ^ (8 * sz - 1) then int n else int n - 2 ^ (8 * sz))"

definition read_signed_ne :: "bytes \<Rightarrow> nat \<Rightarrow> int option" where
  "read_signed_ne buf k =
     (let sz = size_for_k k
      in if sz = 1 then Some (case buf of [] \<Rightarrow> 0 | b # _ \<Rightarrow> to_signed 1 (unat b))
         else if sz = 2 \<or> sz = 4 \<or> sz = 8 then
           (if sz \<le> length buf then Some (to_signed sz (from_le (take sz buf))) else None)
         else Some 0)"

text \<open>\<open>u16::from_ne_bytes([buf[i], buf[i + 1]])\<close>\<close>

definition read_u16 :: "bytes \<Rightarrow> nat \<Rightarrow> nat option" where
  "read_u16 buf i = do { a \<leftarrow> index buf i; b \<leftarrow> index buf (Suc i); Some (from_le [a, b]) }"

section \<open>Measuring a schema\<close>

declare bind_option_cong [fundef_cong]

text \<open>
  \<open>measure_loop schema pos skip n\<close> is the loop over \<open>n\<close> sub-schemas, each preceded by \<open>skip\<close>
  bytes (a string-table offset, or nothing), from position \<open>pos\<close>.
\<close>

function measure_schema :: "bytes \<Rightarrow> nat option"
  and measure_loop :: "bytes \<Rightarrow> nat \<Rightarrow> nat \<Rightarrow> nat \<Rightarrow> nat option" where
  "measure_schema schema =
     (case schema of
        [] \<Rightarrow> Some 0
      | op # rest \<Rightarrow>
          let cat = op AND CAT_MASK; k = unat (op AND SIZE_MASK)
          in if cat = OP_UNIT \<or> cat = OP_SIGNED_INT \<or> cat = OP_UNSIGNED_INT \<or> cat = OP_FLOAT \<or>
                cat = OP_STR \<or> cat = OP_CHAR \<or> cat = OP_BOOL then Some 1
             else if cat = OP_USER_DEFINED then Some 2
             else if cat = OP_SEQ then do { m \<leftarrow> measure_schema rest; Some (1 + m) }
             else if cat = OP_TUPLE \<and> k = 0 then do { n \<leftarrow> read_u16 schema 1; measure_loop schema 3 0 n }
             else if cat = OP_TUPLE then measure_loop schema 1 0 k
             else if cat = OP_STRUCT \<and> k = 0 then do { n \<leftarrow> read_u16 schema 1; measure_loop schema 4 2 n }
             else if cat = OP_STRUCT then measure_loop schema 2 2 k
             else if cat = OP_ENUM \<and> k = 0 then do { n \<leftarrow> read_u16 schema 1; measure_loop schema 5 2 n }
             else if cat = OP_ENUM then measure_loop schema 3 2 k
             else Some 1)"
| "measure_loop schema pos skip n =
     (if n = 0 then Some pos
      else do {
        s \<leftarrow> slice_from schema (pos + skip);
        m \<leftarrow> measure_schema s;
        measure_loop schema (pos + skip + m) skip (n - 1)
      })"
  by pat_completeness auto
termination
  by (relation "inv_image (less_than <*lex*> less_than)
      (\<lambda>x. case x of Inl s \<Rightarrow> (length s, 0) | Inr (s, pos, skip, n) \<Rightarrow> (length s - pos, n))")
    (auto dest!: slice_from_Some)

declare measure_schema.simps [simp del] measure_loop.simps [simp del]

section \<open>Formatting a payload\<close>

text \<open>
  What the formatter is given besides schema and payload: the string tables, the user formatters
  (each returns the bytes used and the text), and the printing of floats by the standard library,
  which stays a parameter.
\<close>

record fmt_env =
  tables :: "bytes list"
  users :: "(bytes \<Rightarrow> nat \<times> bytes) list"
  show_f32 :: "32 word \<Rightarrow> bytes"
  show_f64 :: "64 word \<Rightarrow> bytes"

definition read_str_from_table :: "nat \<Rightarrow> nat \<Rightarrow> bytes list \<Rightarrow> bytes" where
  "read_str_from_table st_idx st_off string_tables =
     (let table = (if st_idx < length string_tables then string_tables ! st_idx else [])
      in if length table \<le> st_off then []
         else from_utf8_or_empty (takeWhile (\<lambda>b. b \<noteq> 0) (drop st_off table)))"

text \<open>The loop over an enum's variants that finds the one with index \<open>var_idx\<close>.\<close>

fun find_variant ::
    "bytes list \<Rightarrow> bytes \<Rightarrow> nat \<Rightarrow> nat \<Rightarrow> nat \<Rightarrow> nat \<Rightarrow> nat \<Rightarrow> (bytes \<times> nat \<times> nat) \<Rightarrow>
     (bytes \<times> nat \<times> nat) option" where
  "find_variant string_tables schema st_idx var_idx i 0 spos found = Some found"
| "find_variant string_tables schema st_idx var_idx i (Suc n) spos found =
     do {
       st_off \<leftarrow> read_u16 schema spos;
       s \<leftarrow> slice_from schema (spos + 2);
       m \<leftarrow> measure_schema s;
       find_variant string_tables schema st_idx var_idx (Suc i) n (spos + 2 + m)
         (if i = var_idx
          then (read_str_from_table st_idx st_off string_tables, spos + 2, spos + 2 + m)
          else found)
     }"

lemma find_variant_start:
  "find_variant ts schema st v i n spos found = Some (nm, a, b) \<Longrightarrow>
   (\<forall>nm' a' b'. found = (nm', a', b') \<longrightarrow> a' < b' \<longrightarrow> 0 < a') \<Longrightarrow> a < b \<Longrightarrow> 0 < a"
  by (induction n arbitrary: i spos found) (auto split: Option.bind_splits if_splits)

text \<open>The count of a tuple, struct or enum and where its schema goes on.\<close>

definition schema_count :: "bytes \<Rightarrow> nat \<Rightarrow> (nat \<times> nat) option" where
  "schema_count schema k =
     (if k = 0 then do { n \<leftarrow> read_u16 schema 1; Some (n, 3) } else Some (k, 1))"

lemma schema_count_start: "schema_count schema k = Some (n, p) \<Longrightarrow> 0 < p"
  by (auto simp: schema_count_def split: if_splits Option.bind_splits)

definition comma :: "nat \<Rightarrow> bytes" where
  "comma i = (if 0 < i then str '', '' else [])"

text \<open>
  \<open>format_payload\<close> and its loops; a loop's last number counts the elements left. The result is the
  text and the bytes of payload used.
\<close>

function format_payload :: "fmt_env \<Rightarrow> bytes \<Rightarrow> bytes \<Rightarrow> (bytes \<times> nat) option"
  and fmt_seq :: "fmt_env \<Rightarrow> bytes \<Rightarrow> bytes \<Rightarrow> nat \<Rightarrow> nat \<Rightarrow> nat \<Rightarrow> (bytes \<times> nat) option"
  and fmt_tuple :: "fmt_env \<Rightarrow> bytes \<Rightarrow> bytes \<Rightarrow> nat \<Rightarrow> nat \<Rightarrow> nat \<Rightarrow> nat \<Rightarrow> (bytes \<times> nat) option"
  and fmt_struct ::
    "fmt_env \<Rightarrow> nat \<Rightarrow> bytes \<Rightarrow> bytes \<Rightarrow> nat \<Rightarrow> nat \<Rightarrow> nat \<Rightarrow> nat \<Rightarrow> (bytes \<times> nat) option" where
  "format_payload env schema payload =
     (case schema of
        [] \<Rightarrow> Some ([], 0)
      | op # rest \<Rightarrow>
          let cat = op AND CAT_MASK; k = unat (op AND SIZE_MASK); sz = size_for_k k
          in if cat = OP_UNIT then Some (str ''()'', 0)
             else if cat = OP_SIGNED_INT then
               (if length payload < sz then Some ([], 0)
                else do { val \<leftarrow> read_signed_ne payload k; Some (show_int val, sz) })
             else if cat = OP_UNSIGNED_INT then
               (if length payload < sz then Some ([], 0)
                else do { val \<leftarrow> read_unsigned_ne payload k; Some (show_nat val, sz) })
             else if cat = OP_FLOAT then
               (if length payload < sz then Some ([], 0)
                else Some (if k = 3 then show_f32 env (word_of_nat (from_le (take 4 payload)))
                           else if k = 4 then show_f64 env (word_of_nat (from_le (take 8 payload)))
                           else [], sz))
             else if cat = OP_STR then
               (if length payload < sz then Some ([], 0)
                else do {
                  len \<leftarrow> read_unsigned_ne payload k;
                  if USIZE_LIMIT \<le> sz + len then None
                  else if length payload < sz + len then Some ([], sz)
                  else do {
                    s \<leftarrow> slice payload sz (sz + len);
                    Some (from_utf8_or_empty s, sz + len)
                  }
                })
             else if cat = OP_CHAR then
               (if length payload < 4 then Some ([], 0)
                else let code = from_le (take 4 payload)
                  in Some (if is_scalar code then utf8_char code else [], 4))
             else if cat = OP_BOOL then
               (case payload of [] \<Rightarrow> Some ([], 0) | b # _ \<Rightarrow> Some (show_bool (b \<noteq> 0), 1))
             else if cat = OP_SEQ then
               (if length payload < sz then Some ([], 0)
                else do {
                  count \<leftarrow> read_unsigned_ne payload k;
                  m \<leftarrow> measure_schema rest;
                  elem_schema \<leftarrow> slice schema 1 (1 + m);
                  (s, pos) \<leftarrow> fmt_seq env elem_schema payload sz 0 count;
                  Some (str ''['' @ s @ str '']'', pos)
                })
             else if cat = OP_TUPLE then
               do {
                 (n, schema_start) \<leftarrow> schema_count schema k;
                 (s, pos) \<leftarrow> fmt_tuple env schema payload schema_start 0 0 n;
                 Some (str ''('' @ s @ str '')'', pos)
               }
             else if cat = OP_STRUCT then
               do {
                 (n, schema_start) \<leftarrow> schema_count schema k;
                 st_idx \<leftarrow> index schema schema_start;
                 (s, pos) \<leftarrow> fmt_struct env (unat st_idx) schema payload (schema_start + 1) 0 0 n;
                 Some (str ''{'' @ s @ str ''}'', pos)
               }
             else if cat = OP_ENUM then
               do {
                 (n, schema_start) \<leftarrow> schema_count schema k;
                 vdx_k \<leftarrow> index schema schema_start;
                 st_idx \<leftarrow> index schema (schema_start + 1);
                 let var_count_size = size_for_k (unat vdx_k);
                 if length payload < var_count_size then Some ([], 0)
                 else do {
                   var_idx \<leftarrow> read_unsigned_ne payload (unat vdx_k);
                   (found_name, found_start, found_end) \<leftarrow>
                     find_variant (tables env) schema (unat st_idx) var_idx 0 n (schema_start + 2) ([], 0, 0);
                   var_schema \<leftarrow>
                     (if found_start < found_end then slice schema found_start found_end else Some []);
                   if var_schema = [] \<or> var_schema = [OP_UNIT] then Some (found_name, var_count_size)
                   else do {
                     p \<leftarrow> slice_from payload var_count_size;
                     (s, used) \<leftarrow> format_payload env var_schema p;
                     Some (found_name @ str ''('' @ s @ str '')'', var_count_size + used)
                   }
                 }
               }
             else if cat = OP_USER_DEFINED then
               (case rest of
                  [] \<Rightarrow> Some ([], 0)
                | idx # _ \<Rightarrow>
                    if unat idx < length (users env)
                    then (case (users env ! unat idx) payload of (used, s) \<Rightarrow> Some (s, used))
                    else Some ([], 0))
             else Some ([], 0))"
| "fmt_seq env elem_schema payload pos i n =
     (if n = 0 then Some ([], pos)
      else do {
        p \<leftarrow> slice_from payload pos;
        (s, used) \<leftarrow> format_payload env elem_schema p;
        (t, pos') \<leftarrow> fmt_seq env elem_schema payload (pos + used) (Suc i) (n - 1);
        Some (comma i @ s @ t, pos')
      })"
| "fmt_tuple env schema payload spos pos i n =
     (if n = 0 then Some ([], pos)
      else do {
        rest \<leftarrow> slice_from schema spos;
        m \<leftarrow> measure_schema rest;
        es \<leftarrow> slice schema spos (spos + m);
        p \<leftarrow> slice_from payload pos;
        (s, used) \<leftarrow> format_payload env es p;
        (t, pos') \<leftarrow> fmt_tuple env schema payload (spos + m) (pos + used) (Suc i) (n - 1);
        Some (comma i @ s @ t, pos')
      })"
| "fmt_struct env st_idx schema payload spos pos i n =
     (if n = 0 then Some ([], pos)
      else do {
        st_off \<leftarrow> read_u16 schema spos;
        rest \<leftarrow> slice_from schema (spos + 2);
        m \<leftarrow> measure_schema rest;
        es \<leftarrow> slice schema (spos + 2) (spos + 2 + m);
        p \<leftarrow> slice_from payload pos;
        (s, used) \<leftarrow> format_payload env es p;
        (t, pos') \<leftarrow> fmt_struct env st_idx schema payload (spos + 2 + m) (pos + used) (Suc i) (n - 1);
        Some (comma i @ read_str_from_table st_idx st_off (tables env) @ str '': '' @ s @ t, pos')
      })"
  by pat_completeness auto
termination
  by (relation "inv_image (less_than <*lex*> less_than)
      (\<lambda>x. case x of
         Inl (Inl (env, s, p)) \<Rightarrow> (length s, 0)
       | Inl (Inr (env, es, p, pos, i, n)) \<Rightarrow> (length es, Suc n)
       | Inr (Inl (env, s, p, spos, pos, i, n)) \<Rightarrow> (length s - spos, Suc n)
       | Inr (Inr (env, st, s, p, spos, pos, i, n)) \<Rightarrow> (length s - spos, Suc n))")
    (auto dest!: slice_from_Some slice_length schema_count_start
      dest: find_variant_start split: if_splits)

declare format_payload.simps [simp del] fmt_seq.simps [simp del] fmt_tuple.simps [simp del]
  fmt_struct.simps [simp del]

section \<open>Opcodes taken apart\<close>

text \<open>An opcode is its category and, in the low four bits, a variant or a count.\<close>

definition op_with :: "byte \<Rightarrow> nat \<Rightarrow> byte" where
  "op_with base k = base OR word_of_nat k"

definition categories :: "byte list" where
  "categories = [OP_UNIT, OP_SIGNED_INT, OP_UNSIGNED_INT, OP_FLOAT, OP_STR, OP_CHAR, OP_BOOL, OP_SEQ,
     OP_TUPLE, OP_STRUCT, OP_ENUM, OP_USER_DEFINED]"

lemma op_with_all:
  "list_all (\<lambda>k. list_all (\<lambda>b. op_with b k AND CAT_MASK = b \<and> unat (op_with b k AND SIZE_MASK) = k \<and>
     b OR (word_of_nat k AND SIZE_MASK) = op_with b k) categories) [0..<16]"
  by code_simp

lemma op_with:
  assumes "b \<in> set categories" "k < 16"
  shows "op_with b k AND CAT_MASK = b" "unat (op_with b k AND SIZE_MASK) = k"
    "b OR (word_of_nat k AND SIZE_MASK) = op_with b k"
  using op_with_all assms by (auto simp: list_all_iff)

lemma op_with_0: "op_with b 0 = b"
  by (simp add: op_with_def)

lemma in_categories [simp]:
  "OP_UNIT \<in> set categories" "OP_SIGNED_INT \<in> set categories" "OP_UNSIGNED_INT \<in> set categories"
  "OP_FLOAT \<in> set categories" "OP_STR \<in> set categories" "OP_CHAR \<in> set categories"
  "OP_BOOL \<in> set categories" "OP_SEQ \<in> set categories" "OP_TUPLE \<in> set categories"
  "OP_STRUCT \<in> set categories" "OP_ENUM \<in> set categories" "OP_USER_DEFINED \<in> set categories"
  by (simp_all add: categories_def)

lemma distinct_categories: "distinct categories" "distinct (rev categories)"
  by code_simp+

lemmas op_neq = distinct_categories [unfolded categories_def, simplified]

text \<open>The primitive opcodes in this form.\<close>

lemma op_forms:
  "k < 16 \<Longrightarrow> op_signed_int k = op_with OP_SIGNED_INT k"
  "k < 16 \<Longrightarrow> op_unsigned_int k = op_with OP_UNSIGNED_INT k"
  "k < 16 \<Longrightarrow> op_float k = op_with OP_FLOAT k"
  "k < 16 \<Longrightarrow> op_str k = op_with OP_STR k"
  by (simp_all add: op_signed_int_def op_unsigned_int_def op_float_def op_str_def op_with(3))

lemma op_form_others: "op_bool = op_with OP_BOOL 0" "op_char = op_with OP_CHAR 0" "OP_UNIT = op_with OP_UNIT 0"
  by (simp_all add: op_bool_def op_char_def op_with_0)

section \<open>The decoder, opcode by opcode\<close>

lemma measure_Nil [simp]: "measure_schema [] = Some 0"
  by (simp add: measure_schema.simps)

lemma measure_leaf:
  "k < 16 \<Longrightarrow> b \<in> {OP_UNIT, OP_SIGNED_INT, OP_UNSIGNED_INT, OP_FLOAT, OP_STR, OP_CHAR, OP_BOOL} \<Longrightarrow>
   measure_schema (op_with b k # s) = Some 1"
  by (subst measure_schema.simps) (auto simp: op_with Let_def)

lemma measure_seq:
  "k < 16 \<Longrightarrow> measure_schema (op_with OP_SEQ k # s) = map_option Suc (measure_schema s)"
  by (subst measure_schema.simps) (auto simp: op_with Let_def op_neq split: Option.bind_splits)

lemma measure_counted:
  assumes "0 < k" "k < 16"
  shows "measure_schema (op_with OP_TUPLE k # s) = measure_loop (op_with OP_TUPLE k # s) 1 0 k"
    and "measure_schema (op_with OP_STRUCT k # s) = measure_loop (op_with OP_STRUCT k # s) 2 2 k"
    and "measure_schema (op_with OP_ENUM k # s) = measure_loop (op_with OP_ENUM k # s) 3 2 k"
  using assms by (subst measure_schema.simps, simp add: op_with Let_def op_neq)+

lemma measure_wide:
  assumes "n < 65536" and s: "s = op_with b 0 # to_le 2 n @ r"
  shows "b = OP_TUPLE \<Longrightarrow> measure_schema s = measure_loop s 3 0 n"
    and "b = OP_STRUCT \<Longrightarrow> measure_schema s = measure_loop s 4 2 n"
    and "b = OP_ENUM \<Longrightarrow> measure_schema s = measure_loop s 5 2 n"
proof -
  have u: "read_u16 s 1 = Some n"
    using assms(1) from_le_to_le [of 2 n] by (simp add: s read_u16_def to_le_2)
  show "b = OP_TUPLE \<Longrightarrow> measure_schema s = measure_loop s 3 0 n"
    "b = OP_STRUCT \<Longrightarrow> measure_schema s = measure_loop s 4 2 n"
    "b = OP_ENUM \<Longrightarrow> measure_schema s = measure_loop s 5 2 n"
    using u by (subst measure_schema.simps, simp add: s op_with Let_def op_neq)+
qed

text \<open>\<open>measured es\<close>: the schema \<open>es\<close> is measured right whatever follows it.\<close>

definition measured :: "bytes \<Rightarrow> bool" where
  "measured es \<longleftrightarrow> (\<forall>r. measure_schema (es @ r) = Some (length es))"

lemma measure_loop_concat:
  "\<forall>es \<in> set ess. measured (snd es) \<and> length (fst es) = skip \<Longrightarrow>
   measure_loop (pre @ concat (map (\<lambda>es. fst es @ snd es) ess) @ r) (length pre) skip (length ess) =
     Some (length pre + length (concat (map (\<lambda>es. fst es @ snd es) ess)))"
proof (induction ess arbitrary: pre)
  case Nil
  show ?case by (simp add: measure_loop.simps)
next
  case (Cons e ess)
  obtain o' es where e: "e = (o', es)" by (cases e)
  then have l: "length o' = skip" "measured es" using Cons.prems by auto
  let ?rest = "concat (map (\<lambda>es. fst es @ snd es) ess) @ r"
  have "slice_from (pre @ o' @ es @ ?rest) (length pre + skip) = Some (es @ ?rest)"
    using slice_from_append [of "pre @ o'" "es @ ?rest"] l(1) by simp
  moreover have "measure_schema (es @ ?rest) = Some (length es)" using l(2) by (simp add: measured_def)
  moreover have "measure_loop ((pre @ o' @ es) @ ?rest) (length (pre @ o' @ es)) skip (length ess) =
      Some (length (pre @ o' @ es) + length (concat (map (\<lambda>es. fst es @ snd es) ess)))"
    using Cons.prems by (intro Cons.IH) simp
  ultimately show ?case
    by (subst measure_loop.simps) (simp add: e l(1) add.assoc)
qed

end
