(* ===== verification/Arg_Types.thy ===== *)
theory Arg_Types
  imports Schema
begin

text \<open>
  The argument types and values that \<open>src/arg/primitives.rs\<close>, \<open>container.rs\<close>, \<open>compound.rs\<close>,
  \<open>pointer.rs\<close> and the derive macro of \<open>rapidlog_derive/src/lib.rs\<close> make loggable: their schemas
  and string tables (by type), their encoders into a buffer and their size estimates (by value).

  The implementations of \<open>Encode\<close> are generic, so a type is a tree of the supported constructors
  and a value a tree of the same shape; \<open>&str\<close> and \<open>String\<close> share \<open>StrT\<close>, \<open>HashMap\<close> and \<open>BTreeMap\<close>
  share \<open>MapT\<close> (a value lists the entries in iteration order), and the wrappers that print their
  content through \<open>Display\<close> or \<open>Debug\<close> (\<open>DisplayArg\<close>, \<open>DebugArg\<close>, \<open>Box\<close>, \<open>Arc\<close>, \<open>Rc\<close>) share \<open>TextT\<close>.
\<close>

section \<open>Types\<close>

text \<open>The fields of an enum's variant.\<close>

datatype 'a vfields = UnitF | UnnamedF "'a list" | NamedF "(bytes \<times> 'a) list"

datatype rty =
    SignedT nat | UnsignedT nat | UsizeT | F32T | F64T | BoolT | CharT | UnitT | StrT | TextT
  | VecT rty | MapT rty rty | ArrayT nat rty | TupleT "rty list"
  | OptionT rty | ResultT rty rty
  | StructT "(bytes \<times> rty) list" | EnumT "(bytes \<times> rty vfields) list"

section \<open>Schemas and string tables\<close>

text \<open>
  The derive macro writes a struct's or enum's schema and string table in one pass: the offset of
  a name is the length of the table so far, as a \<open>u16\<close>. The functions below take the schemas of
  the fields and return the schema and the table. \<open>named_fields\<close> is the loop over named fields,
  \<open>count_header\<close> the opcode with its count in the low bits or, from 16 on, in two bytes after it.
\<close>

definition count_header :: "byte \<Rightarrow> nat \<Rightarrow> bytes" where
  "count_header base n =
     (if n \<le> 15 then [base OR word_of_nat n]
      else [base, word_of_nat (n mod 256), word_of_nat (n div 256)])"

definition st_offset :: "bytes \<Rightarrow> bytes" where
  "st_offset table = to_le 2 (length table)"

fun named_fields :: "(bytes \<times> bytes) list \<Rightarrow> bytes \<Rightarrow> bytes \<times> bytes" where
  "named_fields [] table = ([], table)"
| "named_fields ((name, sch) # fs) table =
     (let (s, table') = named_fields fs (table @ name @ [0])
      in (st_offset table @ sch @ s, table'))"

definition struct_schema_named :: "(bytes \<times> bytes) list \<Rightarrow> bytes \<Rightarrow> bytes \<times> bytes" where
  "struct_schema_named fs table =
     (let (s, table') = named_fields fs table
      in (count_header 0xA0 (length fs) @ [0] @ s, table'))"

definition struct_schema_unnamed :: "bytes list \<Rightarrow> bytes" where
  "struct_schema_unnamed fs = count_header 0x90 (length fs) @ concat fs"

fun variant_sub_schema :: "bytes vfields \<Rightarrow> bytes \<Rightarrow> bytes \<times> bytes" where
  "variant_sub_schema UnitF table = ([0x00], table)"
| "variant_sub_schema (UnnamedF fs) table =
     (if length fs = 1 then hd fs else struct_schema_unnamed fs, table)"
| "variant_sub_schema (NamedF fs) table = struct_schema_named fs table"

fun enum_variants :: "(bytes \<times> bytes vfields) list \<Rightarrow> bytes \<Rightarrow> bytes \<times> bytes" where
  "enum_variants [] table = ([], table)"
| "enum_variants ((name, v) # vs) table =
     (let (sub, table') = variant_sub_schema v (table @ name @ [0]);
          (s, table'') = enum_variants vs table'
      in (st_offset table @ sub @ s, table''))"

definition enum_schema :: "(bytes \<times> bytes vfields) list \<Rightarrow> bytes \<Rightarrow> bytes \<times> bytes" where
  "enum_schema vs table =
     (let vdx_k = (if length vs \<le> 255 then 1 else 2); (s, table') = enum_variants vs table
      in (count_header 0xB0 (length vs) @ [vdx_k, 0] @ s, table'))"

text \<open>The schemas of the generic types, from the schemas of their parts.\<close>

definition schema_vec :: "bytes \<Rightarrow> bytes" where
  [simp]: "schema_vec t = (OP_SEQ OR 2) # t"

definition schema_map :: "bytes \<Rightarrow> bytes \<Rightarrow> bytes" where
  [simp]: "schema_map k v = (OP_SEQ OR 3) # (OP_TUPLE OR 2) # k @ v"

definition schema_array :: "bytes \<Rightarrow> bytes" where
  [simp]: "schema_array t = (OP_SEQ OR 2) # t"

definition schema_tuple :: "bytes list \<Rightarrow> bytes" where
  [simp]: "schema_tuple ts = (OP_TUPLE OR word_of_nat (length ts)) # concat ts"

definition schema_option :: "bytes \<Rightarrow> bytes" where
  [simp]: "schema_option t = [OP_ENUM OR 2, 1, 0, 0, 0, OP_UNIT, 5, 0] @ t"

definition schema_result :: "bytes \<Rightarrow> bytes \<Rightarrow> bytes" where
  [simp]: "schema_result t e = [OP_ENUM OR 2, 1, 0, 0, 0] @ t @ [3, 0] @ e"

primrec schema :: "rty \<Rightarrow> bytes" where
  "schema (SignedT k) = [op_signed_int k]"
| "schema (UnsignedT k) = [op_unsigned_int k]"
| "schema UsizeT = [op_unsigned_int 4]"
| "schema F32T = [op_float 3]"
| "schema F64T = [op_float 4]"
| "schema BoolT = [op_bool]"
| "schema CharT = [op_char]"
| "schema UnitT = [OP_UNIT]"
| "schema StrT = [op_str 2]"
| "schema TextT = [op_str 2]"
| "schema (VecT t) = schema_vec (schema t)"
| "schema (MapT k v) = schema_map (schema k) (schema v)"
| "schema (ArrayT n t) = schema_array (schema t)"
| "schema (TupleT ts) = schema_tuple (map schema ts)"
| "schema (OptionT t) = schema_option (schema t)"
| "schema (ResultT t e) = schema_result (schema t) (schema e)"
| "schema (StructT fs) = fst (struct_schema_named (map (map_prod id schema) fs) [])"
| "schema (EnumT vs) = fst (enum_schema (map (map_prod id (map_vfields schema)) vs) [])"

text \<open>\<open>Encode::string_table\<close>; the default of the trait is the empty table.\<close>

fun string_table :: "rty \<Rightarrow> bytes" where
  "string_table (OptionT t) = str ''None'' @ [0] @ str ''Some'' @ [0]"
| "string_table (ResultT t e) = str ''Ok'' @ [0] @ str ''Err'' @ [0]"
| "string_table (StructT fs) = snd (struct_schema_named (map (map_prod id schema) fs) [])"
| "string_table (EnumT vs) = snd (enum_schema (map (map_prod id (map_vfields schema)) vs) [])"
| "string_table _ = []"

section \<open>Values and their encoders\<close>

text \<open>
  \<open>TextV s\<close> has the text \<open>s\<close> its \<open>Display\<close> or \<open>Debug\<close> prints; \<open>EnumV wide i vs\<close> is variant \<open>i\<close> with
  fields \<open>vs\<close> of an enum that has more than 255 variants (\<open>wide\<close>) or not.
\<close>

datatype rval =
    SignedV nat int | UnsignedV nat nat | UsizeV nat | F32V "32 word" | F64V "64 word" | BoolV bool
  | CharV nat | UnitV | StrV bytes | TextV bytes
  | VecV "rval list" | MapV "(rval \<times> rval) list" | ArrayV "rval list" | TupleV "rval list"
  | NoneV | SomeV rval | OkV rval | ErrV rval
  | StructV "rval list" | EnumV bool nat "rval list"

text \<open>\<open>buf[off..off + n].copy_from_slice(bs)\<close>: out of range is a panic.\<close>

definition put :: "bytes \<Rightarrow> nat \<Rightarrow> bytes \<Rightarrow> bytes option" where
  "put buf off bs =
     (if off + length bs \<le> length buf
      then Some (take off buf @ bs @ drop (off + length bs) buf) else None)"

text \<open>\<open>&str::encode_to\<close>.\<close>

definition encode_str :: "bytes \<Rightarrow> bytes \<Rightarrow> (bytes \<times> nat) option" where
  "encode_str s buf =
     do {
       let len = min (length s) 65535;
       b1 \<leftarrow> put buf 0 (to_le 2 len);
       b2 \<leftarrow> put b1 2 (take len s);
       Some (b2, 2 + len)
     }"

text \<open>
  \<open>encode_all\<close> is the loop \<open>pos += x.encode_to(&mut buf[pos..])\<close> over the encoders of the items; an
  encoder returns the buffer after its writes and the number of bytes written, or panics.
\<close>

fun encode_all :: "(bytes \<Rightarrow> (bytes \<times> nat) option) list \<Rightarrow> nat \<Rightarrow> bytes \<Rightarrow> (bytes \<times> nat) option" where
  "encode_all [] pos buf = Some (buf, pos)"
| "encode_all (enc # encs) pos buf =
     do {
       tail \<leftarrow> slice_from buf pos;
       (tail', used) \<leftarrow> enc tail;
       encode_all encs (pos + used) (take pos buf @ tail')
     }"

text \<open>The entries of a map, key before value.\<close>

definition entries :: "('a \<times> 'a) list \<Rightarrow> 'a list" where
  "entries kvs = concat (map (\<lambda>(k, v). [k, v]) kvs)"

definition discriminant :: "bool \<Rightarrow> nat \<Rightarrow> bytes" where
  "discriminant wide i =
     (if wide then [word_of_nat (i mod 256), word_of_nat (i div 256)] else [word_of_nat i])"

text \<open>The wrappers encode the string they print into, and reserve 512 bytes for it.\<close>

definition encode_text :: "bytes \<Rightarrow> bytes \<Rightarrow> (bytes \<times> nat) option" where
  [simp]: "encode_text printed = encode_str printed"

definition text_size :: nat where
  [simp]: "text_size = 512"

text \<open>The encoders of the generic types, from the encoders of their parts.\<close>

type_synonym encoder = "bytes \<Rightarrow> (bytes \<times> nat) option"

definition encode_vec :: "encoder list \<Rightarrow> encoder" where
  [simp]: "encode_vec items = (\<lambda>buf.
     do {
       let count = min (length items) 65535;
       b \<leftarrow> put buf 0 (to_le 2 count);
       encode_all (take count items) 2 b
     })"

definition encode_map :: "(encoder \<times> encoder) list \<Rightarrow> encoder" where
  [simp]: "encode_map items = (\<lambda>buf.
     do { b \<leftarrow> put buf 0 (to_le 4 (length items)); encode_all (entries items) 4 b })"

definition encode_array :: "encoder list \<Rightarrow> encoder" where
  [simp]: "encode_array items = (\<lambda>buf.
     do { b \<leftarrow> put buf 0 (to_le 2 (length items)); encode_all items 2 b })"

definition encode_tuple :: "encoder list \<Rightarrow> encoder" where
  [simp]: "encode_tuple parts = encode_all parts 0"

text \<open>The two arms of an \<open>Option\<close> or a \<open>Result\<close>: the discriminant, then the content if any.\<close>

definition encode_option :: "encoder option \<Rightarrow> encoder" where
  [simp]: "encode_option arg = (\<lambda>buf. case arg of
       None \<Rightarrow> do { b \<leftarrow> put buf 0 [0]; Some (b, 1) }
     | Some e \<Rightarrow> do { b \<leftarrow> put buf 0 [1]; encode_all [e] 1 b })"

definition encode_result :: "encoder + encoder \<Rightarrow> encoder" where
  [simp]: "encode_result arg = (\<lambda>buf. case arg of
       Inl e \<Rightarrow> do { b \<leftarrow> put buf 0 [0]; encode_all [e] 1 b }
     | Inr e \<Rightarrow> do { b \<leftarrow> put buf 0 [1]; encode_all [e] 1 b })"

definition struct_encode_body :: "encoder list \<Rightarrow> encoder" where
  [simp]: "struct_encode_body parts = encode_all parts 0"

definition variant_encode_body :: "bool \<Rightarrow> nat \<Rightarrow> encoder list \<Rightarrow> encoder" where
  [simp]: "variant_encode_body wide i parts = (\<lambda>buf.
     do {
       b \<leftarrow> put buf 0 (discriminant wide i);
       encode_all parts (length (discriminant wide i)) b
     })"

primrec encode_to :: "rval \<Rightarrow> encoder" where
  "encode_to (SignedV k i) = (\<lambda>buf.
     do { b \<leftarrow> put buf 0 (to_le (size_for_k k) (nat (i mod 2 ^ 128))); Some (b, size_for_k k) })"
| "encode_to (UnsignedV k n) = (\<lambda>buf.
     do { b \<leftarrow> put buf 0 (to_le (size_for_k k) n); Some (b, size_for_k k) })"
| "encode_to (UsizeV n) = (\<lambda>buf.
     do { b \<leftarrow> put buf 0 (to_le (size_for_k 4) n); Some (b, size_for_k 4) })"
| "encode_to (F32V bits) = (\<lambda>buf. do { b \<leftarrow> put buf 0 (to_le 4 (unat bits)); Some (b, 4) })"
| "encode_to (F64V bits) = (\<lambda>buf. do { b \<leftarrow> put buf 0 (to_le 8 (unat bits)); Some (b, 8) })"
| "encode_to (BoolV x) = (\<lambda>buf. do { b \<leftarrow> put buf 0 [if x then 1 else 0]; Some (b, 1) })"
| "encode_to (CharV c) = (\<lambda>buf. do { b \<leftarrow> put buf 0 (to_le 4 c); Some (b, 4) })"
| "encode_to UnitV = (\<lambda>buf. Some (buf, 0))"
| "encode_to (StrV s) = encode_str s"
| "encode_to (TextV s) = encode_text s"
| "encode_to (VecV vs) = encode_vec (map encode_to vs)"
| "encode_to (MapV kvs) = encode_map (map (map_prod encode_to encode_to) kvs)"
| "encode_to (ArrayV vs) = encode_array (map encode_to vs)"
| "encode_to (TupleV vs) = encode_tuple (map encode_to vs)"
| "encode_to NoneV = encode_option None"
| "encode_to (SomeV v) = encode_option (Some (encode_to v))"
| "encode_to (OkV v) = encode_result (Inl (encode_to v))"
| "encode_to (ErrV v) = encode_result (Inr (encode_to v))"
| "encode_to (StructV vs) = struct_encode_body (map encode_to vs)"
| "encode_to (EnumV wide i vs) = variant_encode_body wide i (map encode_to vs)"

text \<open>The size estimates of the generic types; a map and an array multiply by the first element.\<close>

definition vec_size :: "nat list \<Rightarrow> nat" where
  [simp]: "vec_size ns = 2 + sum_list (take (min (length ns) 65535) ns)"

definition map_size :: "(nat \<times> nat) list \<Rightarrow> nat" where
  [simp]: "map_size ns =
     (case ns of [] \<Rightarrow> 4 | (k, v) # _ \<Rightarrow> 4 + min (length ns * (k + v)) (USIZE_LIMIT - 1))"

definition array_size :: "nat list \<Rightarrow> nat" where
  [simp]: "array_size ns = (case ns of [] \<Rightarrow> 2 | n # _ \<Rightarrow> 2 + length ns * n)"

definition tuple_size :: "nat list \<Rightarrow> nat" where
  [simp]: "tuple_size ns = sum_list ns"

definition option_size :: "nat option \<Rightarrow> nat" where
  [simp]: "option_size arg = (case arg of None \<Rightarrow> 1 | Some n \<Rightarrow> 1 + n)"

definition struct_max_size_body :: "nat list \<Rightarrow> nat" where
  [simp]: "struct_max_size_body ns = sum_list ns"

definition variant_max_size_body :: "bool \<Rightarrow> nat list \<Rightarrow> nat" where
  [simp]: "variant_max_size_body wide ns = (if wide then 2 else 1) + sum_list ns"

text \<open>\<open>encoded_size\<close>, from which the macro computes the length of the message.\<close>

primrec encoded_size :: "rval \<Rightarrow> nat" where
  "encoded_size (SignedV k i) = size_for_k k"
| "encoded_size (UnsignedV k n) = size_for_k k"
| "encoded_size (UsizeV n) = 8"
| "encoded_size (F32V bits) = 4"
| "encoded_size (F64V bits) = 8"
| "encoded_size (BoolV b) = 1"
| "encoded_size (CharV c) = 4"
| "encoded_size UnitV = 0"
| "encoded_size (StrV s) = 2 + length s"
| "encoded_size (TextV s) = text_size"
| "encoded_size (VecV vs) = vec_size (map encoded_size vs)"
| "encoded_size (MapV kvs) = map_size (map (map_prod encoded_size encoded_size) kvs)"
| "encoded_size (ArrayV vs) = array_size (map encoded_size vs)"
| "encoded_size (TupleV vs) = tuple_size (map encoded_size vs)"
| "encoded_size NoneV = option_size None"
| "encoded_size (SomeV v) = option_size (Some (encoded_size v))"
| "encoded_size (OkV v) = 1 + encoded_size v"
| "encoded_size (ErrV v) = 1 + encoded_size v"
| "encoded_size (StructV vs) = struct_max_size_body (map encoded_size vs)"
| "encoded_size (EnumV wide i vs) = variant_max_size_body wide (map encoded_size vs)"

end
