(* ===== verification/Arg_Encode.thy ===== *)
theory Arg_Encode
  imports Arg_Types
begin

text \<open>
  What the encoders of \<open>Arg_Types\<close> write: every encoder writes one byte string at the start of its
  buffer and panics exactly when the buffer is shorter. The size estimates of \<open>encoded_size\<close> are
  compared with the length of that string.
\<close>

section \<open>The bytes of a value\<close>

primrec enc :: "rval \<Rightarrow> bytes" where
  "enc (SignedV k i) = to_le (size_for_k k) (nat (i mod 2 ^ 128))"
| "enc (UnsignedV k n) = to_le (size_for_k k) n"
| "enc (UsizeV n) = to_le 8 n"
| "enc (F32V bits) = to_le 4 (unat bits)"
| "enc (F64V bits) = to_le 8 (unat bits)"
| "enc (BoolV x) = [if x then 1 else 0]"
| "enc (CharV c) = to_le 4 c"
| "enc UnitV = []"
| "enc (StrV s) = to_le 2 (min (length s) 65535) @ take 65535 s"
| "enc (TextV s) = to_le 2 (min (length s) 65535) @ take 65535 s"
| "enc (VecV vs) = to_le 2 (min (length vs) 65535) @ concat (take 65535 (map enc vs))"
| "enc (MapV kvs) = to_le 4 (length kvs) @ concat (entries (map (map_prod enc enc) kvs))"
| "enc (ArrayV vs) = to_le 2 (length vs) @ concat (map enc vs)"
| "enc (TupleV vs) = concat (map enc vs)"
| "enc NoneV = [0]"
| "enc (SomeV v) = 1 # enc v"
| "enc (OkV v) = 0 # enc v"
| "enc (ErrV v) = 1 # enc v"
| "enc (StructV vs) = concat (map enc vs)"
| "enc (EnumV wide i vs) = discriminant wide i @ concat (map enc vs)"

text \<open>The encoder \<open>e\<close> writes \<open>bs\<close>.\<close>

definition writes :: "(bytes \<Rightarrow> (bytes \<times> nat) option) \<Rightarrow> bytes \<Rightarrow> bool" where
  "writes e bs \<longleftrightarrow> (\<forall>buf. e buf =
     (if length bs \<le> length buf then Some (bs @ drop (length bs) buf, length bs) else None))"

lemma encode_all_writes:
  "list_all2 writes encs bss \<Longrightarrow>
   encode_all encs (length pre) (pre @ tail) =
     (if length (concat bss) \<le> length tail
      then Some (pre @ concat bss @ drop (length (concat bss)) tail, length pre + length (concat bss))
      else None)"
proof (induction encs bss arbitrary: pre tail rule: list_all2_induct)
  case Nil
  show ?case by simp
next
  case (Cons e encs bs bss)
  show ?case
  proof (cases "length bs \<le> length tail")
    case True
    then have "e tail = Some (bs @ drop (length bs) tail, length bs)" using Cons(1) by (simp add: writes_def)
    then show ?thesis
      using Cons.IH [of "pre @ bs" "drop (length bs) tail"] True
      by (auto simp: add.assoc add.commute [of "length (concat bss)"])
  next
    case False
    then have "e tail = None" using Cons(1) by (simp add: writes_def)
    then show ?thesis using False by simp
  qed
qed

lemma put_head: "put buf 0 bs = (if length bs \<le> length buf then Some (bs @ drop (length bs) buf) else None)"
  by (simp add: put_def)

lemma writes_header:
  assumes "list_all2 writes encs bss" "n = length h"
  shows "writes (\<lambda>buf. do { b \<leftarrow> put buf 0 h; encode_all encs n b }) (h @ concat bss)"
  unfolding writes_def
proof
  fix buf
  show "do { b \<leftarrow> put buf 0 h; encode_all encs n b } =
    (if length (h @ concat bss) \<le> length buf
     then Some ((h @ concat bss) @ drop (length (h @ concat bss)) buf, length (h @ concat bss)) else None)"
    using encode_all_writes [OF assms(1), of h "drop (length h) buf"] assms(2)
    by (auto simp: put_head add.commute)
qed

lemma writes_all: "list_all2 writes encs bss \<Longrightarrow> writes (encode_all encs 0) (concat bss)"
  using encode_all_writes [of encs bss "[]"] by (simp add: writes_def)

lemma writes_put: "n = length bs \<Longrightarrow> writes (\<lambda>buf. do { b \<leftarrow> put buf 0 bs; Some (b, n) }) bs"
  by (simp add: writes_def put_head)

lemma writes_str: "writes (encode_str s) (to_le 2 (min (length s) 65535) @ take 65535 s)"
proof -
  have "encode_str s buf = (if 2 + length (take 65535 s) \<le> length buf
      then Some (to_le 2 (min (length s) 65535) @ take 65535 s @ drop (2 + length (take 65535 s)) buf,
        2 + length (take 65535 s)) else None)" for buf
    by (auto simp: encode_str_def put_def min_def Let_def add.commute split: if_splits)
  then show ?thesis by (simp add: writes_def min.commute)
qed

lemma list_all2_map_writes:
  "(\<And>v. v \<in> set vs \<Longrightarrow> writes (encode_to v) (enc v)) \<Longrightarrow>
   list_all2 writes (map encode_to vs) (map enc vs)"
  by (auto simp: list_all2_conv_all_nth)

lemma entries_Cons [simp]: "entries ((k, v) # kvs) = k # v # entries kvs"
  by (simp add: entries_def)

lemma entries_Nil [simp]: "entries [] = []"
  by (simp add: entries_def)

lemma list_all2_entries:
  "(\<forall>(k, v) \<in> set kvs. P (f k) (g k) \<and> P (f v) (g v)) \<Longrightarrow>
   list_all2 P (entries (map (map_prod f f) kvs)) (entries (map (map_prod g g) kvs))"
  by (induction kvs) auto

lemma encode_to_writes: "writes (encode_to v) (enc v)"
proof (induction v)
  case (VecV vs)
  then have "list_all2 writes (take (min (length vs) 65535) (map encode_to vs))
      (take (min (length vs) 65535) (map enc vs))"
    by (intro list_all2_takeI list_all2_map_writes)
  from writes_header [OF this, of 2 "to_le 2 (min (length vs) 65535)"] show ?case
    by (simp add: Let_def min_def split: if_splits)
next
  case (MapV kvs)
  have "list_all2 writes (entries (map (map_prod encode_to encode_to) kvs))
      (entries (map (map_prod enc enc) kvs))"
    by (rule list_all2_entries) (use MapV in \<open>force simp: prod_set_defs\<close>)
  from writes_header [OF this, of 4 "to_le 4 (length kvs)"] show ?case by simp
next
  case (ArrayV vs)
  from writes_header [OF list_all2_map_writes, of vs 2 "to_le 2 (length vs)"] ArrayV show ?case by simp
next
  case (TupleV vs)
  then show ?case using writes_all [OF list_all2_map_writes, of vs] by simp
next
  case (SomeV v)
  then show ?case using writes_header [of "[encode_to v]" "[enc v]" 1 "[1]"] by (simp del: encode_all.simps)
next
  case (OkV v)
  then show ?case using writes_header [of "[encode_to v]" "[enc v]" 1 "[0]"] by (simp del: encode_all.simps)
next
  case (ErrV v)
  then show ?case using writes_header [of "[encode_to v]" "[enc v]" 1 "[1]"] by (simp del: encode_all.simps)
next
  case (StructV vs)
  then show ?case using writes_all [OF list_all2_map_writes, of vs] by simp
next
  case (EnumV wide i vs)
  from writes_header [OF list_all2_map_writes, of vs "length (discriminant wide i)" "discriminant wide i"] EnumV
  show ?case by simp
next
  case UnitV
  show ?case by (simp add: writes_def)
qed (simp_all add: writes_put writes_str size_for_k_def)

lemma writesD: "writes e bs \<Longrightarrow> e buf =
    (if length bs \<le> length buf then Some (bs @ drop (length bs) buf, length bs) else None)"
  by (simp add: writes_def)

section \<open>Size estimates\<close>

text \<open>
  \<open>sized v\<close>: the estimate for \<open>v\<close> is not too small. Texts have a fixed estimate of 512 bytes, maps
  and arrays multiply the size of their first entry; everything else adds up its parts.
\<close>

primrec sized :: "rval \<Rightarrow> bool" where
  "sized (SignedV k i) \<longleftrightarrow> True"
| "sized (UnsignedV k n) \<longleftrightarrow> True"
| "sized (UsizeV n) \<longleftrightarrow> True"
| "sized (F32V bits) \<longleftrightarrow> True"
| "sized (F64V bits) \<longleftrightarrow> True"
| "sized (BoolV x) \<longleftrightarrow> True"
| "sized (CharV c) \<longleftrightarrow> True"
| "sized UnitV \<longleftrightarrow> True"
| "sized (StrV s) \<longleftrightarrow> True"
| "sized (TextV s) \<longleftrightarrow> length s \<le> 510"
| "sized (VecV vs) \<longleftrightarrow> list_all id (map sized vs)"
| "sized (MapV kvs) \<longleftrightarrow> list_all id (entries (map (map_prod sized sized) kvs)) \<and>
     (case kvs of [] \<Rightarrow> True
      | (k, v) # _ \<Rightarrow> length kvs * (encoded_size k + encoded_size v) < USIZE_LIMIT \<and>
          list_all (\<lambda>(k', v'). encoded_size k' + encoded_size v' \<le> encoded_size k + encoded_size v) kvs)"
| "sized (ArrayV vs) \<longleftrightarrow> list_all id (map sized vs) \<and>
     (case vs of [] \<Rightarrow> True | v # _ \<Rightarrow> list_all (\<lambda>v'. encoded_size v' \<le> encoded_size v) vs)"
| "sized (TupleV vs) \<longleftrightarrow> list_all id (map sized vs)"
| "sized NoneV \<longleftrightarrow> True"
| "sized (SomeV v) \<longleftrightarrow> sized v"
| "sized (OkV v) \<longleftrightarrow> sized v"
| "sized (ErrV v) \<longleftrightarrow> sized v"
| "sized (StructV vs) \<longleftrightarrow> list_all id (map sized vs)"
| "sized (EnumV wide i vs) \<longleftrightarrow> list_all id (map sized vs)"

lemma length_concat_le:
  "(\<And>v. v \<in> set vs \<Longrightarrow> length (f v) \<le> g v) \<Longrightarrow>
   length (concat (take n (map f vs))) \<le> sum_list (take n (map g vs))"
  by (induction vs arbitrary: n) (auto simp: take_Cons add_mono split: nat.splits)

lemmas length_concat_le_all = length_concat_le [where n = "length vs" and vs = vs for vs, simplified]

lemma length_concat_const:
  "(\<And>x. x \<in> set xs \<Longrightarrow> length x \<le> n) \<Longrightarrow> length (concat xs) \<le> length xs * n"
  by (induction xs) (auto intro: add_mono)

lemma length_concat_entries:
  "(\<forall>(k, v) \<in> set kvs. length (f k) + length (f v) \<le> n) \<Longrightarrow>
   length (concat (entries (map (map_prod f f) kvs))) \<le> length kvs * n"
  by (induction kvs) auto

lemma in_entries:
  "(k, v) \<in> set kvs \<Longrightarrow>
   f k \<in> set (entries (map (map_prod f f) kvs)) \<and> f v \<in> set (entries (map (map_prod f f) kvs))"
  by (induction kvs) auto

lemma size_covers: "sized v \<Longrightarrow> length (enc v) \<le> encoded_size v"
proof (induction v)
  case (VecV vs)
  then show ?case
    using length_concat_le [of vs enc encoded_size "min (length vs) 65535"]
    by (auto simp: list_all_iff min_def split: if_splits)
next
  case (ArrayV vs)
  show ?case
  proof (cases vs)
    case (Cons v vs')
    have "length (concat (map enc vs)) \<le> length (map enc vs) * encoded_size v"
      by (rule length_concat_const) (use ArrayV Cons in \<open>fastforce simp: list_all_iff\<close>)
    then show ?thesis using Cons by simp
  qed simp
next
  case (MapV kvs)
  show ?case
  proof (cases kvs)
    case (Cons kv kvs')
    obtain k v where kv: "kv = (k, v)" by (cases kv)
    have "length (concat (entries (map (map_prod enc enc) kvs))) \<le>
        length kvs * (encoded_size k + encoded_size v)"
    proof (rule length_concat_entries, clarify)
      fix k' v' assume m: "(k', v') \<in> set kvs"
      then have "sized k'" "sized v'"
        using MapV.prems in_entries [OF m, of sized] by (auto simp: list_all_iff)
      then have "length (enc k') \<le> encoded_size k'" "length (enc v') \<le> encoded_size v'"
        using MapV.IH [OF m] by (auto simp: prod_set_defs)
      moreover have "encoded_size k' + encoded_size v' \<le> encoded_size k + encoded_size v"
        using MapV.prems m by (auto simp: list_all_iff Cons kv)
      ultimately show "length (enc k') + length (enc v') \<le> encoded_size k + encoded_size v" by linarith
    qed
    moreover have "length kvs * (encoded_size k + encoded_size v) < USIZE_LIMIT"
      using MapV.prems by (simp add: Cons kv)
    ultimately show ?thesis by (simp add: Cons kv)
  qed simp
next
  case (EnumV wide i vs)
  then show ?case
    using length_concat_le_all [of vs enc encoded_size] by (auto simp: list_all_iff discriminant_def)
qed (auto simp: list_all_iff min_def size_for_k_def intro: length_concat_le_all)

section \<open>Properties\<close>

text \<open>C24: Every encoder writes the value's bytes at the start of its buffer, leaves the rest of the
  buffer alone and returns their number; it panics exactly when the buffer is too short.\<close>

theorem encode_to_exact:
  "encode_to v buf =
     (if length (enc v) \<le> length buf then Some (enc v @ drop (length (enc v)) buf, length (enc v)) else None)"
  by (rule writesD [OF encode_to_writes])

text \<open>C25: Where no text is longer than 510 bytes and no entry of an array or map is larger than the
  first, the estimate of \<open>encoded_size\<close> is large enough: a buffer of that size is encoded without
  a panic.\<close>

theorem estimate_suffices:
  assumes "sized v"
  shows "\<exists>buf' n. encode_to v (replicate (encoded_size v) 0) = Some (buf', n) \<and> n \<le> encoded_size v"
proof -
  have "length (enc v) \<le> encoded_size v" by (rule size_covers [OF assms])
  moreover from this have "encode_to v (replicate (encoded_size v) 0) =
      Some (enc v @ drop (length (enc v)) (replicate (encoded_size v) 0), length (enc v))"
    by (subst writesD [OF encode_to_writes]) (simp only: length_replicate if_True)
  ultimately show ?thesis by blast
qed

theorem estimate_suffices_witness:
  "\<exists>buf' n. encode_to (VecV [SomeV (StrV (str ''ab'')), NoneV]) (replicate 8 0) = Some (buf', n) \<and> n \<le> 8"
proof -
  have "sized (VecV [SomeV (StrV (str ''ab'')), NoneV])" "encoded_size (VecV [SomeV (StrV (str ''ab'')), NoneV]) = 8"
    by simp_all
  then show ?thesis using estimate_suffices by metis
qed


end
