(* ===== verification/Arg_Roundtrip.thy ===== *)
theory Arg_Roundtrip
  imports Arg_Encode
begin

text \<open>
  Encoding and formatting fit together: the schema of every supported type is measured right, and
  \<open>format_payload\<close>, given the schema of a type and the bytes of a value of that type, consumes
  exactly these bytes and writes the value's text.
\<close>

section \<open>Well-formed types\<close>

text \<open>
  The types the library implements \<open>Encode\<close> for: tuples of 1 to 12 elements, structs and enums
  with at least one field or variant (the count of an empty one would be read as the wide form).
\<close>

definition wf_count :: "'a list \<Rightarrow> bool" where
  "wf_count xs \<longleftrightarrow> xs \<noteq> [] \<and> length xs < 65536"

primrec wf_fields :: "bool vfields \<Rightarrow> bool" where
  "wf_fields UnitF \<longleftrightarrow> True"
| "wf_fields (UnnamedF ts) \<longleftrightarrow> wf_count ts \<and> list_all id ts"
| "wf_fields (NamedF fs) \<longleftrightarrow> wf_count fs \<and> list_all id (map snd fs)"

primrec wf_ty :: "rty \<Rightarrow> bool" where
  "wf_ty (SignedT k) \<longleftrightarrow> 1 \<le> k \<and> k \<le> 5"
| "wf_ty (UnsignedT k) \<longleftrightarrow> 1 \<le> k \<and> k \<le> 5"
| "wf_ty UsizeT \<longleftrightarrow> True"
| "wf_ty F32T \<longleftrightarrow> True"
| "wf_ty F64T \<longleftrightarrow> True"
| "wf_ty BoolT \<longleftrightarrow> True"
| "wf_ty CharT \<longleftrightarrow> True"
| "wf_ty UnitT \<longleftrightarrow> True"
| "wf_ty StrT \<longleftrightarrow> True"
| "wf_ty TextT \<longleftrightarrow> True"
| "wf_ty (VecT t) \<longleftrightarrow> wf_ty t"
| "wf_ty (MapT k v) \<longleftrightarrow> wf_ty k \<and> wf_ty v"
| "wf_ty (ArrayT n t) \<longleftrightarrow> n \<le> 256 \<and> wf_ty t"
| "wf_ty (TupleT ts) \<longleftrightarrow> ts \<noteq> [] \<and> length ts \<le> 12 \<and> list_all id (map wf_ty ts)"
| "wf_ty (OptionT t) \<longleftrightarrow> wf_ty t"
| "wf_ty (ResultT t e) \<longleftrightarrow> wf_ty t \<and> wf_ty e"
| "wf_ty (StructT fs) \<longleftrightarrow> wf_count fs \<and> list_all id (map snd (map (map_prod id wf_ty) fs))"
| "wf_ty (EnumT vs) \<longleftrightarrow> wf_count vs \<and>
     list_all wf_fields (map snd (map (map_prod id (map_vfields wf_ty)) vs))"

section \<open>Schemas are measured right\<close>

text \<open>The offset and schema of each field or variant, as the derive macro lays them out.\<close>

fun field_parts :: "(bytes \<times> bytes) list \<Rightarrow> bytes \<Rightarrow> (bytes \<times> bytes) list" where
  "field_parts [] table = []"
| "field_parts ((name, s) # fs) table = (st_offset table, s) # field_parts fs (table @ name @ [0])"

fun variant_parts :: "(bytes \<times> bytes vfields) list \<Rightarrow> bytes \<Rightarrow> (bytes \<times> bytes) list" where
  "variant_parts [] table = []"
| "variant_parts ((name, v) # vs) table =
     (let (sub, table') = variant_sub_schema v (table @ name @ [0])
      in (st_offset table, sub) # variant_parts vs table')"

abbreviation flat_parts :: "(bytes \<times> bytes) list \<Rightarrow> bytes" where
  "flat_parts ess \<equiv> concat (map (\<lambda>es. fst es @ snd es) ess)"

lemma named_fields_parts: "fst (named_fields fs table) = flat_parts (field_parts fs table)"
  by (induction fs table rule: named_fields.induct) (auto simp: split_beta)

lemma enum_variants_parts: "fst (enum_variants vs table) = flat_parts (variant_parts vs table)"
  by (induction vs arbitrary: table) (auto simp: split_beta Let_def)

lemma length_st_offset [simp]: "length (st_offset table) = 2"
  by (simp add: st_offset_def)

lemma field_parts_props:
  "length (field_parts fs table) = length fs" "map snd (field_parts fs table) = map snd fs"
  "es \<in> set (field_parts fs table) \<Longrightarrow> length (fst es) = 2"
  by (induction fs table rule: field_parts.induct) auto

lemma variant_parts_props:
  "length (variant_parts vs table) = length vs"
  "es \<in> set (variant_parts vs table) \<Longrightarrow> length (fst es) = 2"
  by (induction vs arbitrary: table) (auto simp: split_beta Let_def)

lemma variant_parts_subs:
  "es \<in> set (variant_parts vs table) \<Longrightarrow> \<exists>nm v tb. (nm, v) \<in> set vs \<and> snd es = fst (variant_sub_schema v tb)"
  by (induction vs arbitrary: table) (fastforce simp: split_beta Let_def)+

lemma field_parts_snd: "es \<in> set (field_parts fs table) \<Longrightarrow> snd es \<in> snd ` set fs"
  by (induction fs table rule: field_parts.induct) auto

lemma count_header_forms:
  "n \<le> 15 \<Longrightarrow> count_header b n = [op_with b n]"
  "15 < n \<Longrightarrow> n < 65536 \<Longrightarrow> count_header b n = op_with b 0 # to_le 2 n"
  by (simp_all add: count_header_def op_with_def to_le_2 word_unat_eq_iff unat_of_nat)

lemma measured_tuple:
  assumes ess: "\<forall>es \<in> set ess. measured es" and n: "wf_count ess"
  shows "measured (count_header OP_TUPLE (length ess) @ concat ess)"
  unfolding measured_def
proof
  fix r
  let ?n = "length ess" and ?ess = "map (Pair []) ess"
  have e: "\<forall>es \<in> set ?ess. measured (snd es) \<and> length (fst es) = 0" using ess by auto
  have f: "flat_parts ?ess = concat ess" by (simp add: comp_def)
  show "measure_schema ((count_header OP_TUPLE ?n @ concat ess) @ r) =
      Some (length (count_header OP_TUPLE ?n @ concat ess))"
  proof (cases "?n \<le> 15")
    case True
    then show ?thesis
      using measure_loop_concat [OF e, of "[op_with OP_TUPLE ?n]" r] measure_counted(1) [of ?n] n f
      by (simp add: count_header_forms wf_count_def)
  next
    case False
    let ?h = "op_with OP_TUPLE 0 # to_le 2 ?n"
    have l: "length ?h = 3" by simp
    show ?thesis
      using measure_loop_concat [OF e, of ?h r] n f False
        measure_wide(1) [of ?n "?h @ concat ess @ r" OP_TUPLE]
      unfolding l by (simp add: count_header_forms wf_count_def)
  qed
qed

lemma measured_named:
  assumes ess: "\<forall>es \<in> set ess. measured (snd es) \<and> length (fst es) = 2" and n: "wf_count ess"
  shows "measured (count_header OP_STRUCT (length ess) @ [x] @ flat_parts ess)"
    and "measured (count_header OP_ENUM (length ess) @ [x, y] @ flat_parts ess)"
proof -
  let ?n = "length ess"
  have "measure_schema ((count_header OP_STRUCT ?n @ [x] @ flat_parts ess) @ r) =
      Some (length (count_header OP_STRUCT ?n @ [x] @ flat_parts ess)) \<and>
    measure_schema ((count_header OP_ENUM ?n @ [x, y] @ flat_parts ess) @ r) =
      Some (length (count_header OP_ENUM ?n @ [x, y] @ flat_parts ess))" for r
  proof (cases "?n \<le> 15")
    case True
    then show ?thesis
      using measure_loop_concat [OF ess, of "[op_with OP_STRUCT ?n, x]" r]
        measure_loop_concat [OF ess, of "[op_with OP_ENUM ?n, x, y]" r] measure_counted(2,3) [of ?n] n
      by (simp add: count_header_forms wf_count_def numeral_2_eq_2 numeral_3_eq_3)
  next
    case False
    let ?h = "\<lambda>b. op_with b 0 # to_le 2 ?n"
    have l: "length (?h b @ [x]) = 4" "length (?h b @ [x, y]) = 5" for b by simp_all
    show ?thesis
      using measure_loop_concat [OF ess, of "?h OP_STRUCT @ [x]" r]
        measure_loop_concat [OF ess, of "?h OP_ENUM @ [x, y]" r] n False
        measure_wide(2) [of ?n "?h OP_STRUCT @ [x] @ flat_parts ess @ r" OP_STRUCT]
        measure_wide(3) [of ?n "?h OP_ENUM @ [x, y] @ flat_parts ess @ r" OP_ENUM]
      unfolding l by (simp add: count_header_forms wf_count_def)
  qed
  then show "measured (count_header OP_STRUCT (length ess) @ [x] @ flat_parts ess)"
    "measured (count_header OP_ENUM (length ess) @ [x, y] @ flat_parts ess)"
    unfolding measured_def by blast+
qed

lemma measured_leaf:
  "k < 16 \<Longrightarrow> b \<in> {OP_UNIT, OP_SIGNED_INT, OP_UNSIGNED_INT, OP_FLOAT, OP_STR, OP_CHAR, OP_BOOL} \<Longrightarrow>
   measured [op_with b k]"
  by (simp add: measured_def measure_leaf)

lemma measured_seq: "measured es \<Longrightarrow> k < 16 \<Longrightarrow> measured (op_with OP_SEQ k # es)"
  by (simp add: measured_def measure_seq)

lemma op_lits:
  "OP_SEQ OR 2 = op_with OP_SEQ 2" "OP_SEQ OR 3 = op_with OP_SEQ 3" "OP_TUPLE OR 2 = op_with OP_TUPLE 2"
  "OP_ENUM OR 2 = op_with OP_ENUM 2" "0x90 = OP_TUPLE" "0xA0 = OP_STRUCT" "0xB0 = OP_ENUM"
  by (simp_all add: op_with_def op_defs)

lemma tuple_header: "n \<le> 15 \<Longrightarrow> [OP_TUPLE OR word_of_nat n] = count_header OP_TUPLE n"
  by (simp add: count_header_def)

lemma wf_count_map [simp]: "wf_count (map f xs) \<longleftrightarrow> wf_count xs"
  by (simp add: wf_count_def)

lemma wf_count_same: "length xs = length ys \<Longrightarrow> wf_count xs \<longleftrightarrow> wf_count ys"
  by (auto simp: wf_count_def)

lemma struct_schema_parts:
  "fst (struct_schema_named fs table) =
     count_header OP_STRUCT (length fs) @ [0] @ flat_parts (field_parts fs table)"
  using named_fields_parts [of fs table] by (simp add: struct_schema_named_def split_beta op_lits)

lemma measured_struct:
  assumes "wf_count fs" "\<forall>(n, s) \<in> set fs. measured s"
  shows "measured (fst (struct_schema_named fs table))"
proof -
  let ?p = "field_parts fs table"
  have "\<forall>es \<in> set ?p. measured (snd es) \<and> length (fst es) = 2"
    using assms(2) field_parts_snd [of _ fs table] field_parts_props(3) [of _ fs table] by fastforce
  moreover have "wf_count ?p" using assms(1) wf_count_same [of ?p fs] field_parts_props(1) by blast
  ultimately show ?thesis
    using measured_named(1) [of ?p 0] field_parts_props(1) [of fs table] by (simp add: struct_schema_parts)
qed

lemma measured_variant:
  assumes "wf_fields (map_vfields W v)" "\<forall>t \<in> set_vfields v. W t \<longrightarrow> measured (f t)"
  shows "measured (fst (variant_sub_schema (map_vfields f v) table))"
proof (cases v)
  case UnitF
  then show ?thesis using measured_leaf [of 0 OP_UNIT] by (simp add: op_with_0 OP_UNIT_def)
next
  case (UnnamedF ts)
  then have m: "\<forall>es \<in> set (map f ts). measured es" and c: "wf_count (map f ts)"
    using assms by (auto simp: list_all_iff)
  show ?thesis
  proof (cases "length ts = 1")
    case True
    then obtain t where "ts = [t]" by (cases ts) auto
    then show ?thesis using m UnnamedF by simp
  next
    case False
    then show ?thesis
      using measured_tuple [OF m c] UnnamedF by (simp add: struct_schema_unnamed_def op_lits)
  qed
next
  case (NamedF fs)
  have "\<forall>(n, s) \<in> set (map (map_prod id f) fs). measured s"
    using assms NamedF by (force simp: list_all_iff prod_set_defs)
  moreover have "wf_count (map (map_prod id f) fs)" using assms NamedF by simp
  ultimately show ?thesis using measured_struct NamedF by simp
qed

lemma enum_schema_parts:
  "fst (enum_schema vs table) = count_header OP_ENUM (length vs) @
     [if length vs \<le> 255 then 1 else 2, 0] @ flat_parts (variant_parts vs table)"
  using enum_variants_parts [of vs table] by (simp add: enum_schema_def split_beta Let_def op_lits)

lemma schema_measured: "wf_ty t \<Longrightarrow> measured (schema t)"
proof (induction t)
  case (SignedT k)
  then show ?case by (simp add: op_forms measured_leaf)
next
  case (UnsignedT k)
  then show ?case by (simp add: op_forms measured_leaf)
next
  case (MapT k v)
  then have "measured (count_header OP_TUPLE (length [schema k, schema v]) @ concat [schema k, schema v])"
    by (intro measured_tuple) (auto simp: wf_count_def)
  then have "measured (op_with OP_TUPLE 2 # schema k @ schema v)"
    by (simp add: count_header_forms numeral_2_eq_2)
  from measured_seq [OF this, of 3] show ?case by (simp add: op_lits)
next
  case (TupleT ts)
  then have "\<forall>es \<in> set (map schema ts). measured es" "wf_count (map schema ts)"
    by (auto simp: list_all_iff wf_count_def)
  from measured_tuple [OF this] TupleT.prems show ?case
    by (simp add: tuple_header [symmetric])
next
  case (OptionT t)
  let ?p = "[([0, 0], [OP_UNIT]), ([5, 0], schema t)]"
  have "measured [OP_UNIT]" using measured_leaf [of 0 OP_UNIT] by (simp add: op_with_0)
  then have "\<forall>es \<in> set ?p. measured (snd es) \<and> length (fst es) = 2" using OptionT by simp
  from measured_named(2) [OF this, of 1 0] show ?case
    by (simp add: wf_count_def count_header_forms op_lits numeral_2_eq_2)
next
  case (ResultT t e)
  let ?p = "[([0, 0], schema t), ([3, 0], schema e)]"
  have "\<forall>es \<in> set ?p. measured (snd es) \<and> length (fst es) = 2" using ResultT by simp
  from measured_named(2) [OF this, of 1 0] show ?case
    by (simp add: wf_count_def count_header_forms op_lits numeral_2_eq_2)
next
  case (StructT fs)
  have "\<forall>(n, s) \<in> set (map (map_prod id schema) fs). measured s"
    using StructT by (force simp: list_all_iff prod_set_defs)
  then show ?case using StructT.prems measured_struct [of "map (map_prod id schema) fs" "[]"] by simp
next
  case (EnumT vs)
  let ?vs = "map (map_prod id (map_vfields schema)) vs"
  let ?p = "variant_parts ?vs []"
  have "measured (snd es)" if es: "es \<in> set ?p" for es
  proof -
    obtain nm v tb where v: "(nm, v) \<in> set vs" "snd es = fst (variant_sub_schema (map_vfields schema v) tb)"
      using variant_parts_subs [OF es] by auto
    have "wf_fields (map_vfields wf_ty v)" using EnumT.prems v(1) by (force simp: list_all_iff)
    moreover have "\<forall>t \<in> set_vfields v. wf_ty t \<longrightarrow> measured (schema t)"
      using EnumT.IH v(1) by (force simp: prod_set_defs)
    ultimately show ?thesis using measured_variant [where W = wf_ty and v = v and f = schema and table = tb] v(2) by simp
  qed
  then have "\<forall>es \<in> set ?p. measured (snd es) \<and> length (fst es) = 2"
    using variant_parts_props(2) by blast
  moreover have "wf_count ?p" "length ?p = length vs"
    using EnumT.prems wf_count_same [of ?p vs] variant_parts_props(1) [of ?vs "[]"] by auto
  ultimately show ?case
    using measured_named(2) [of ?p "if length vs \<le> 255 then 1 else 2" 0] by (simp add: enum_schema_parts)
next
  case UnitT
  show ?case using measured_leaf [of 0 OP_UNIT] by (simp add: op_with_0)
qed (simp_all add: op_forms op_form_others(1,2) op_lits(1-4) measured_leaf measured_seq)

section \<open>The formatter's loops\<close>

text \<open>\<open>formats env es p s\<close>: with schema \<open>es\<close> the bytes \<open>p\<close> are formatted as \<open>s\<close>, whatever follows them.\<close>

definition formats :: "fmt_env \<Rightarrow> bytes \<Rightarrow> bytes \<Rightarrow> bytes \<Rightarrow> bool" where
  "formats env es p s \<longleftrightarrow> (\<forall>rest. format_payload env es (p @ rest) = Some (s, length p))"

text \<open>The texts of the elements with the commas the loops put before all but the first.\<close>

fun commas :: "nat \<Rightarrow> bytes list \<Rightarrow> bytes" where
  "commas i [] = []"
| "commas i (s # ss) = comma i @ s @ commas (Suc i) ss"

lemma commas_sep: "commas 0 ss = sep_join (str '', '') ss"
proof -
  have "commas (Suc i) ss = (if ss = [] then [] else str '', '' @ sep_join (str '', '') ss)" for i ss
    by (induction ss arbitrary: i) (auto simp: comma_def sep_join_Cons)
  then show ?thesis by (cases ss) (auto simp: comma_def sep_join_Cons)
qed

lemma fmt_seq_formats:
  "\<forall>(p, s) \<in> set xs. formats env es p s \<Longrightarrow>
   fmt_seq env es (pre @ concat (map fst xs) @ rest) (length pre) i (length xs) =
     Some (commas i (map snd xs), length pre + length (concat (map fst xs)))"
proof (induction xs arbitrary: pre i)
  case Nil
  show ?case by (simp add: fmt_seq.simps)
next
  case (Cons x xs)
  obtain p s where x: "x = (p, s)" by (cases x)
  have "format_payload env es (p @ concat (map fst xs) @ rest) = Some (s, length p)"
    using Cons.prems x by (simp add: formats_def)
  with Cons.IH [of "pre @ p" "Suc i"] Cons.prems show ?case
    by (subst fmt_seq.simps) (simp add: x add.assoc)
qed

lemma slice_mid: "slice (xs @ ys @ zs) (length xs) (length xs + length ys) = Some ys"
  by (simp add: slice_append_eq)

lemma fmt_tuple_formats:
  "\<forall>(es, p, s) \<in> set xs. measured es \<and> formats env es p s \<Longrightarrow>
   fmt_tuple env (spre @ concat (map fst xs) @ srest) (pre @ concat (map (\<lambda>x. fst (snd x)) xs) @ rest)
     (length spre) (length pre) i (length xs) =
     Some (commas i (map (\<lambda>x. snd (snd x)) xs), length pre + length (concat (map (\<lambda>x. fst (snd x)) xs)))"
proof (induction xs arbitrary: spre pre i)
  case Nil
  show ?case by (simp add: fmt_tuple.simps)
next
  case (Cons x xs)
  obtain es p s where x: "x = (es, p, s)" by (cases x)
  let ?sr = "concat (map fst xs) @ srest"
  have "format_payload env es (p @ concat (map (\<lambda>x. fst (snd x)) xs) @ rest) = Some (s, length p)"
    "measure_schema (es @ ?sr) = Some (length es)"
    using Cons.prems x by (simp_all add: formats_def measured_def)
  moreover have "slice (spre @ es @ ?sr) (length spre) (length spre + length es) = Some es"
    by (rule slice_mid)
  ultimately show ?case
    using Cons.IH [of "spre @ es" "pre @ p" "Suc i"] Cons.prems
    by (subst fmt_tuple.simps) (simp add: x add.assoc)
qed

text \<open>The text of a field: the name found in the string table, a colon and the value.\<close>

definition field_text :: "fmt_env \<Rightarrow> nat \<Rightarrow> bytes \<Rightarrow> bytes \<Rightarrow> bytes" where
  "field_text env st off s = read_str_from_table st (from_le off) (tables env) @ str '': '' @ s"

lemma read_u16_at: "length off = 2 \<Longrightarrow> read_u16 (xs @ off @ ys) (length xs) = Some (from_le off)"
  by (auto simp: read_u16_def index_def nth_append numeral_2_eq_2 length_Suc_conv)

lemma fmt_struct_formats:
  "\<forall>(off, es, p, s) \<in> set xs. length off = 2 \<and> measured es \<and> formats env es p s \<Longrightarrow>
   fmt_struct env st (spre @ concat (map (\<lambda>x. fst x @ fst (snd x)) xs) @ srest)
     (pre @ concat (map (\<lambda>x. fst (snd (snd x))) xs) @ rest) (length spre) (length pre) i (length xs) =
     Some (commas i (map (\<lambda>x. field_text env st (fst x) (snd (snd (snd x)))) xs),
       length pre + length (concat (map (\<lambda>x. fst (snd (snd x))) xs)))"
proof (induction xs arbitrary: spre pre i)
  case Nil
  show ?case by (simp add: fmt_struct.simps)
next
  case (Cons x xs)
  obtain off es p s where x: "x = (off, es, p, s)" by (cases x)
  let ?sr = "concat (map (\<lambda>x. fst x @ fst (snd x)) xs) @ srest"
  have l: "length off = 2" using Cons.prems x by simp
  have "format_payload env es (p @ concat (map (\<lambda>x. fst (snd (snd x))) xs) @ rest) = Some (s, length p)"
    "measure_schema (es @ ?sr) = Some (length es)"
    using Cons.prems x by (simp_all add: formats_def measured_def)
  moreover have "slice (spre @ off @ es @ ?sr) (length spre + 2) (length spre + 2 + length es) = Some es"
    "slice_from (spre @ off @ es @ ?sr) (length spre + 2) = Some (es @ ?sr)"
    using slice_mid [of "spre @ off" es ?sr] slice_from_append [of "spre @ off" "es @ ?sr"] l by simp_all
  ultimately show ?case
    using Cons.IH [of "spre @ off @ es" "pre @ p" "Suc i"] Cons.prems read_u16_at [OF l, of spre "es @ ?sr"]
    by (subst fmt_struct.simps) (simp add: x l add.assoc field_text_def)
qed

lemma find_variant_parts:
  "\<forall>es \<in> set ess. length (fst es) = 2 \<and> measured (snd es) \<Longrightarrow>
   find_variant ts (pre @ flat_parts ess @ r) st v i (length ess) (length pre) found =
     Some (if i \<le> v \<and> v < i + length ess
           then (read_str_from_table st (from_le (fst (ess ! (v - i)))) ts,
                 length (pre @ flat_parts (take (v - i) ess)) + 2,
                 length (pre @ flat_parts (take (v - i) ess)) + 2 + length (snd (ess ! (v - i))))
           else found)"
proof (induction ess arbitrary: pre i found)
  case (Cons e ess)
  obtain off es where e: "e = (off, es)" by (cases e)
  then have l: "length off = 2" "measured es" using Cons.prems by auto
  let ?r = "flat_parts ess @ r"
  have "slice_from (pre @ off @ es @ ?r) (length pre + 2) = Some (es @ ?r)"
    using slice_from_append [of "pre @ off" "es @ ?r"] l by simp
  moreover have "measure_schema (es @ ?r) = Some (length es)" using l(2) by (simp add: measured_def)
  moreover have "v - i = Suc (v - Suc i)" if "Suc i \<le> v" using that by simp
  ultimately show ?case
    using Cons.IH [of "pre @ off @ es" "Suc i"] Cons.prems read_u16_at [OF l(1), of pre "es @ ?r"]
    by (auto simp: e l(1) add.assoc)
qed auto

end
