(* ===== verification/Arg_Format.thy ===== *)
theory Arg_Format
  imports Arg_Roundtrip
begin

text \<open>
  \<open>format_payload\<close> on the bytes the encoders write, one opcode at a time, in the form that composes:
  a schema, the bytes of one value, and the text they are formatted as, whatever follows the bytes.
\<close>

section \<open>Primitive values\<close>

lemma read_unsigned_to_le:
  assumes "k \<in> {1, 2, 3, 4}"
  shows "read_unsigned_ne (to_le (size_for_k k) n @ rest) k = Some (n mod 256 ^ size_for_k k)"
  using assms by (auto simp: read_unsigned_ne_def size_for_k_def)

lemma read_unsigned_16: "read_unsigned_ne buf 5 = Some 0" "read_signed_ne buf 5 = Some 0"
  by (simp_all add: read_unsigned_ne_def read_signed_ne_def size_for_k_def)

lemma read_signed_to_le:
  assumes "k \<in> {1, 2, 3, 4}"
  shows "read_signed_ne (to_le (size_for_k k) n @ rest) k =
    Some (to_signed (size_for_k k) (n mod 256 ^ size_for_k k))"
  using assms by (auto simp: read_signed_ne_def size_for_k_def)

lemma to_signed_of_int:
  assumes "0 < sz" "sz \<le> 16" "- (2 ^ (8 * sz - 1)) \<le> i" "i < 2 ^ (8 * sz - 1)"
  shows "to_signed sz (nat (i mod 2 ^ 128) mod 256 ^ sz) = i"
proof -
  let ?B = "2 ^ (8 * sz) :: int"
  have B: "?B = 2 * 2 ^ (8 * sz - 1)" using assms(1) by (simp flip: power_Suc)
  have p: "(256 :: nat) ^ sz = 2 ^ (8 * sz)" by (simp add: power_mult)
  have "?B dvd 2 ^ 128" using assms(2) by (intro le_imp_power_dvd) simp
  then have "(i mod 2 ^ 128) mod ?B = i mod ?B" by (rule mod_mod_cancel)
  moreover have "int (nat (i mod 2 ^ 128) mod 2 ^ (8 * sz)) = (i mod 2 ^ 128) mod ?B"
    by (simp add: zmod_int)
  ultimately have n: "int (nat (i mod 2 ^ 128) mod 256 ^ sz) = i mod ?B" by (simp add: p)
  have m: "i mod ?B = (if 0 \<le> i then i else i + ?B)"
  proof (cases "0 \<le> i")
    case False
    have "(i + ?B) mod ?B = i + ?B" using False assms B by (intro mod_pos_pos_trivial) linarith+
    then show ?thesis using False by simp
  next
    case True
    then show ?thesis using assms(4) B by (intro trans [OF mod_pos_pos_trivial]) auto
  qed
  define N where "N = nat (i mod 2 ^ 128) mod 256 ^ sz"
  have N: "int N = (if 0 \<le> i then i else i + ?B)" using n m by (simp only: N_def)
  have "N < 2 ^ (8 * sz - 1) \<longleftrightarrow> int N < 2 ^ (8 * sz - 1)"
    by (metis of_nat_less_iff of_nat_numeral of_nat_power)
  then show ?thesis
    unfolding to_signed_def N_def [symmetric] using N assms(3,4) B by (auto split: if_splits)
qed

lemma format_unit: "format_payload env [OP_UNIT] p = Some (str ''()'', 0)"
  using op_with [of OP_UNIT 0] by (subst format_payload.simps) (simp add: op_with_0 Let_def)

lemma format_signed:
  assumes "1 \<le> k" "k \<le> 5" "- (2 ^ (8 * size_for_k k - 1)) \<le> i" "i < 2 ^ (8 * size_for_k k - 1)"
  shows "formats env [op_signed_int k] (to_le (size_for_k k) (nat (i mod 2 ^ 128)))
    (show_int (if k = 5 then 0 else i))"
proof -
  have k: "k \<in> {1, 2, 3, 4} \<or> k = 5" using assms by auto
  have "0 < size_for_k k" "size_for_k k \<le> 16" using k by (auto simp: size_for_k_def)
  note ts = to_signed_of_int [OF this assms(3,4)]
  have "read_signed_ne (to_le (size_for_k k) (nat (i mod 2 ^ 128)) @ rest) k = Some (if k = 5 then 0 else i)"
    for rest
    using k read_signed_to_le [of k] read_unsigned_16(2) ts by auto
  then show ?thesis
    using assms(2) op_with [of OP_SIGNED_INT k] unfolding formats_def
    by (subst format_payload.simps) (simp add: op_forms Let_def op_neq)
qed

lemma format_unsigned:
  assumes "1 \<le> k" "k \<le> 5" "n < 256 ^ size_for_k k"
  shows "formats env [op_unsigned_int k] (to_le (size_for_k k) n) (show_nat (if k = 5 then 0 else n))"
proof -
  have k: "k \<in> {1, 2, 3, 4} \<or> k = 5" using assms by auto
  have "read_unsigned_ne (to_le (size_for_k k) n @ rest) k = Some (if k = 5 then 0 else n)" for rest
    using k read_unsigned_to_le [of k] read_unsigned_16(1) assms(3) by auto
  then show ?thesis
    using assms(2) op_with [of OP_UNSIGNED_INT k] unfolding formats_def
    by (subst format_payload.simps) (simp add: op_forms Let_def op_neq)
qed

lemma format_floats:
  "formats env [op_float 3] (to_le 4 (unat (b :: 32 word))) (show_f32 env b)"
  "formats env [op_float 4] (to_le 8 (unat (c :: 64 word))) (show_f64 env c)"
proof -
  have "unat b < 2 ^ LENGTH(32)" "unat c < 2 ^ LENGTH(64)" by (rule unsigned_less)+
  then have "unat b mod 256 ^ 4 = unat b" "unat c mod 256 ^ 8 = unat c" by simp_all
  then show "formats env [op_float 3] (to_le 4 (unat (b :: 32 word))) (show_f32 env b)"
    "formats env [op_float 4] (to_le 8 (unat (c :: 64 word))) (show_f64 env c)"
    using op_with [of OP_FLOAT 3] op_with [of OP_FLOAT 4] unfolding formats_def
    by (subst format_payload.simps, simp add: op_forms Let_def op_neq size_for_k_def)+
qed

lemma format_bool: "formats env [op_bool] [if x then 1 else 0] (show_bool x)"
  using op_with [of OP_BOOL 0] unfolding formats_def
  by (subst format_payload.simps) (simp add: op_with_0 op_bool_def Let_def op_neq)

lemma format_char: "is_scalar c \<Longrightarrow> formats env [op_char] (to_le 4 c) (utf8_char c)"
proof -
  assume c: "is_scalar c"
  then have "c mod 256 ^ 4 = c" by (auto simp: is_scalar_def)
  then show ?thesis
    using op_with [of OP_CHAR 0] c unfolding formats_def
    by (subst format_payload.simps) (simp add: op_with_0 op_char_def Let_def op_neq)
qed

lemma format_str:
  "formats env [op_str 2] (to_le 2 (min (length s) 65535) @ take 65535 s) (from_utf8_or_empty (take 65535 s))"
  unfolding formats_def
proof
  fix rest
  obtain n t where n: "n = min (length s) 65535" and t: "t = take 65535 s" by blast
  have l: "length t = n" "n < 65536" by (simp_all add: n t min.commute)
  have "read_unsigned_ne (to_le 2 n @ t @ rest) 2 = Some n"
    using read_unsigned_to_le [of 2 n "t @ rest"] l by (simp add: size_for_k_def)
  moreover have "slice (to_le 2 n @ t @ rest) 2 (2 + n) = Some t"
    using slice_mid [of "to_le 2 n" t rest] l by simp
  moreover have "2 + n < USIZE_LIMIT" using l by (simp add: USIZE_LIMIT_def)
  ultimately have "format_payload env [op_str 2] ((to_le 2 n @ t) @ rest) =
      Some (from_utf8_or_empty t, length (to_le 2 n @ t))"
    using op_with [of OP_STR 2] l
    by (subst format_payload.simps) (simp add: op_forms Let_def op_neq size_for_k_def)
  then show "format_payload env [op_str 2] ((to_le 2 (min (length s) 65535) @ take 65535 s) @ rest) =
      Some (from_utf8_or_empty (take 65535 s), length (to_le 2 (min (length s) 65535) @ take 65535 s))"
    by (simp only: n t)
qed

section \<open>Compound values\<close>

text \<open>Sequences: \<open>xs\<close> are the elements' bytes and texts, \<open>k\<close> gives the width of the count.\<close>

lemma format_seq:
  assumes k: "k \<in> {1, 2, 3, 4}" and n: "length xs < 256 ^ size_for_k k"
    and m: "measured es" and f: "\<forall>(p, s) \<in> set xs. formats env es p s"
  shows "formats env (op_with OP_SEQ k # es) (to_le (size_for_k k) (length xs) @ concat (map fst xs))
    (str ''['' @ sep_join (str '', '') (map snd xs) @ str '']'')"
  unfolding formats_def
proof
  fix rest
  let ?h = "to_le (size_for_k k) (length xs)"
  have "read_unsigned_ne (?h @ concat (map fst xs) @ rest) k = Some (length xs)"
    using read_unsigned_to_le [OF k, of "length xs" "concat (map fst xs) @ rest"] n by simp
  moreover have "fmt_seq env es (?h @ concat (map fst xs) @ rest) (length ?h) 0 (length xs) =
      Some (sep_join (str '', '') (map snd xs), length ?h + length (concat (map fst xs)))"
    using fmt_seq_formats [OF f, of ?h rest 0] by (simp only: commas_sep)
  moreover have "measure_schema es = Some (length es)"
    using m [unfolded measured_def, rule_format, of "[]"] by simp
  moreover have "slice (op_with OP_SEQ k # es) 1 (1 + length es) = Some es"
    using slice_mid [of "[op_with OP_SEQ k]" es "[]"] by simp
  moreover have "k < 16" using k by auto
  ultimately show "format_payload env (op_with OP_SEQ k # es) ((?h @ concat (map fst xs)) @ rest) =
      Some (str ''['' @ sep_join (str '', '') (map snd xs) @ str '']'', length (?h @ concat (map fst xs)))"
    using op_with [of OP_SEQ k]
    by (subst format_payload.simps) (simp add: Let_def op_neq)
qed

lemma schema_count_header:
  assumes "0 < n" "n < 65536" "b \<in> set categories"
  obtains op rest k where "count_header b n = op # rest" "op AND CAT_MASK = b" "unat (op AND SIZE_MASK) = k"
    "\<And>r. schema_count (op # rest @ r) k = Some (n, length (count_header b n))"
proof (cases "n \<le> 15")
  case True
  then show ?thesis
    using that [of "op_with b n" "[]" n] op_with [OF assms(3), of n] assms(1)
    by (simp add: count_header_forms schema_count_def)
next
  case False
  then have "read_u16 (op_with b 0 # to_le 2 n @ r) 1 = Some n" for r
    using assms(2) from_le_to_le [of 2 n] by (simp add: read_u16_def to_le_2)
  then show ?thesis
    using that [of "op_with b 0" "to_le 2 n" 0] op_with [OF assms(3), of 0] assms(2) False
    by (simp add: count_header_forms schema_count_def)
qed

lemma format_tuple:
  assumes xs: "\<forall>(es, p, s) \<in> set xs. measured es \<and> formats env es p s" and n: "wf_count xs"
  shows "formats env (count_header OP_TUPLE (length xs) @ concat (map fst xs))
    (concat (map (\<lambda>x. fst (snd x)) xs))
    (str ''('' @ sep_join (str '', '') (map (\<lambda>x. snd (snd x)) xs) @ str '')'')"
  unfolding formats_def
proof
  fix rest
  have "0 < length xs" "length xs < 65536" using n by (auto simp: wf_count_def)
  then obtain op hr k where h: "count_header OP_TUPLE (length xs) = op # hr" "op AND CAT_MASK = OP_TUPLE"
    "unat (op AND SIZE_MASK) = k"
    "\<And>r. schema_count (op # hr @ r) k = Some (length xs, length (count_header OP_TUPLE (length xs)))"
    by (rule schema_count_header [of _ OP_TUPLE]) auto
  show "format_payload env (count_header OP_TUPLE (length xs) @ concat (map fst xs))
      (concat (map (\<lambda>x. fst (snd x)) xs) @ rest) =
    Some (str ''('' @ sep_join (str '', '') (map (\<lambda>x. snd (snd x)) xs) @ str '')'',
      length (concat (map (\<lambda>x. fst (snd x)) xs)))"
    using fmt_tuple_formats [OF xs, of "count_header OP_TUPLE (length xs)" "[]" "[]" rest 0]
    by (subst format_payload.simps) (simp add: h Let_def op_neq commas_sep)
qed

text \<open>\<open>xs\<close> are the fields' offsets, schemas, bytes and texts.\<close>

lemma format_struct:
  assumes xs: "\<forall>(off, es, p, s) \<in> set xs. length off = 2 \<and> measured es \<and> formats env es p s"
    and n: "wf_count xs"
  shows "formats env (count_header OP_STRUCT (length xs) @ [0] @ concat (map (\<lambda>x. fst x @ fst (snd x)) xs))
    (concat (map (\<lambda>x. fst (snd (snd x))) xs))
    (str ''{'' @ sep_join (str '', '') (map (\<lambda>x. field_text env 0 (fst x) (snd (snd (snd x)))) xs) @ str ''}'')"
  unfolding formats_def
proof
  fix rest
  let ?h = "count_header OP_STRUCT (length xs)"
  have "0 < length xs" "length xs < 65536" using n by (auto simp: wf_count_def)
  then obtain op hr k where h: "?h = op # hr" "op AND CAT_MASK = OP_STRUCT"
    "unat (op AND SIZE_MASK) = k" "\<And>r. schema_count (op # hr @ r) k = Some (length xs, length ?h)"
    by (rule schema_count_header [of _ OP_STRUCT]) auto
  have "index (?h @ 0 # concat (map (\<lambda>x. fst x @ fst (snd x)) xs)) (length ?h) = Some 0"
    by (simp add: index_append)
  then show "format_payload env (?h @ [0] @ concat (map (\<lambda>x. fst x @ fst (snd x)) xs))
      (concat (map (\<lambda>x. fst (snd (snd x))) xs) @ rest) =
    Some (str ''{'' @ sep_join (str '', '') (map (\<lambda>x. field_text env 0 (fst x) (snd (snd (snd x)))) xs) @
      str ''}'', length (concat (map (\<lambda>x. fst (snd (snd x))) xs)))"
    using fmt_struct_formats [OF xs, of 0 "?h @ [0]" "[]" "[]" rest 0]
    by (subst format_payload.simps) (simp add: h Let_def op_neq commas_sep)
qed

text \<open>An enum's variant: its name, and in parentheses its payload unless its schema is the unit's.\<close>

definition variant_text :: "fmt_env \<Rightarrow> bytes \<Rightarrow> bytes \<Rightarrow> bytes \<Rightarrow> bytes" where
  "variant_text env off sub s =
     (let name = read_str_from_table 0 (from_le off) (tables env)
      in if sub = [OP_UNIT] then name else name @ str ''('' @ s @ str '')'')"

lemma format_enum_step:
  assumes "sch = op # t" "op AND CAT_MASK = OP_ENUM" "unat (op AND SIZE_MASK) = k"
    and "schema_count sch k = Some (n, st)" "index sch st = Some vdx" "index sch (st + 1) = Some sti"
    and "sz = size_for_k (unat vdx)" "sz \<le> length payload" "read_unsigned_ne payload (unat vdx) = Some v"
    and "find_variant (tables env) sch (unat sti) v 0 n (st + 2) ([], 0, 0) = Some (nm, a, b)"
    and "a < b" "slice sch a b = Some vs" "vs \<noteq> []"
    and "slice_from payload sz = Some p" "format_payload env vs p = Some (s, used)"
  shows "format_payload env sch payload =
    Some (if vs = [OP_UNIT] then (nm, sz) else (nm @ str ''('' @ s @ str '')'', sz + used))"
  using assms by (subst format_payload.simps) (simp add: Let_def op_neq)

lemma format_enum:
  assumes ess: "\<forall>es \<in> set ess. length (fst es) = 2 \<and> measured (snd es)" and n: "wf_count ess"
    and v: "v < length ess" "v < 256 ^ size_for_k vk" "vk = 1 \<or> vk = 2"
    and sub: "snd (ess ! v) \<noteq> []" and p: "snd (ess ! v) = [OP_UNIT] \<longrightarrow> p = []"
    and f: "formats env (snd (ess ! v)) p s"
  shows "formats env (count_header OP_ENUM (length ess) @ [word_of_nat vk, 0] @ flat_parts ess)
    (to_le (size_for_k vk) v @ p) (variant_text env (fst (ess ! v)) (snd (ess ! v)) s)"
  unfolding formats_def
proof
  fix rest
  let ?h = "count_header OP_ENUM (length ess)" and ?d = "to_le (size_for_k vk) v"
  let ?sch = "?h @ word_of_nat vk # 0 # flat_parts ess" and ?es = "snd (ess ! v)" and ?off = "fst (ess ! v)"
  have "0 < length ess" "length ess < 65536" using n by (auto simp: wf_count_def)
  then obtain op hr k where h: "?h = op # hr" "op AND CAT_MASK = OP_ENUM"
    "unat (op AND SIZE_MASK) = k" "\<And>r. schema_count (op # hr @ r) k = Some (length ess, length ?h)"
    by (rule schema_count_header [of _ OP_ENUM]) auto
  have ix: "index ?sch (length ?h) = Some (word_of_nat vk)" "index ?sch (Suc (length ?h)) = Some 0"
    by (simp_all add: index_append)
  have vk: "unat (word_of_nat vk :: byte) = vk" using v(3) by auto
  have rd: "read_unsigned_ne (?d @ p @ rest) vk = Some v"
    using read_unsigned_to_le [of vk v "p @ rest"] v by auto
  let ?start = "length ((?h @ [word_of_nat vk, 0]) @ flat_parts (take v ess)) + 2"
  have fv: "find_variant (tables env) ?sch 0 v 0 (length ess) (Suc (Suc (length ?h))) ([], 0, 0) =
      Some (read_str_from_table 0 (from_le ?off) (tables env), ?start, ?start + length ?es)"
    using find_variant_parts [OF ess, of "tables env" "?h @ [word_of_nat vk, 0]" "[]" 0 v 0 "([], 0, 0)"] v(1)
    by simp
  have fp: "flat_parts ess = flat_parts (take v ess) @ ?off @ ?es @ flat_parts (drop (Suc v) ess)"
    by (subst id_take_nth_drop [OF v(1)]) simp
  have "length ?off = 2" using ess v(1) by simp
  then have sl: "slice ?sch ?start (?start + length ?es) = Some ?es"
    using slice_mid [of "?h @ [word_of_nat vk, 0] @ flat_parts (take v ess) @ ?off" ?es
      "flat_parts (drop (Suc v) ess)"] by (simp add: fp)
  have fm: "format_payload env ?es (p @ rest) = Some (s, length p)" using f by (simp add: formats_def)
  have "schema_count ?sch k = Some (length ess, length ?h)" using h(4) by (simp add: h(1))
  moreover have "?sch = op # (hr @ word_of_nat vk # 0 # flat_parts ess)" by (simp add: h(1))
  moreover have "?start < ?start + length ?es" using sub by simp
  moreover have "slice_from (?d @ p @ rest) (size_for_k vk) = Some (p @ rest)"
    by (simp add: slice_from_append_eq)
  ultimately have "format_payload env ?sch (?d @ p @ rest) =
      Some (if ?es = [OP_UNIT] then (read_str_from_table 0 (from_le ?off) (tables env), size_for_k vk)
        else (read_str_from_table 0 (from_le ?off) (tables env) @ str ''('' @ s @ str '')'',
          size_for_k vk + length p))"
    using fv sl ix rd vk fm sub h(2,3)
    by (intro format_enum_step [where vdx = "word_of_nat vk" and sti = 0 and st = "length ?h" and v = v
      and n = "length ess" and k = k]) simp_all
  then show "format_payload env (?h @ [word_of_nat vk, 0] @ flat_parts ess) ((?d @ p) @ rest) =
      Some (variant_text env ?off ?es s, length (?d @ p))"
    using p by (auto simp: variant_text_def)
qed

end
