(* ===== verification/Arg_Display.thy ===== *)
theory Arg_Display
  imports Arg_Format
begin

text \<open>
  The text the backend writes for each value, as a function of the value and its type, and the
  round trip: formatting the encoding of a well-typed value yields this text and uses exactly the
  encoding's bytes. The names of fields and variants come from the string table of the environment;
  the last part says when they are the right ones.
\<close>

section \<open>Well-typed values\<close>

primrec field_types :: "rty vfields \<Rightarrow> rty list" where
  "field_types UnitF = []"
| "field_types (UnnamedF ts) = ts"
| "field_types (NamedF fs) = map snd fs"

inductive has_type :: "rval \<Rightarrow> rty \<Rightarrow> bool" where
  "- (2 ^ (8 * size_for_k k - 1)) \<le> i \<Longrightarrow> i < 2 ^ (8 * size_for_k k - 1) \<Longrightarrow>
     has_type (SignedV k i) (SignedT k)"
| "n < 256 ^ size_for_k k \<Longrightarrow> has_type (UnsignedV k n) (UnsignedT k)"
| "n < 2 ^ 64 \<Longrightarrow> has_type (UsizeV n) UsizeT"
| "has_type (F32V b) F32T"
| "has_type (F64V c) F64T"
| "has_type (BoolV x) BoolT"
| "is_scalar c \<Longrightarrow> has_type (CharV c) CharT"
| "has_type UnitV UnitT"
| "valid_utf8 s \<Longrightarrow> has_type (StrV s) StrT"
| "valid_utf8 s \<Longrightarrow> has_type (TextV s) TextT"
| "\<forall>v \<in> set vs. has_type v t \<Longrightarrow> has_type (VecV vs) (VecT t)"
| "length kvs < 2 ^ 32 \<Longrightarrow> \<forall>kv \<in> set kvs. has_type (fst kv) kt \<and> has_type (snd kv) vt \<Longrightarrow>
     has_type (MapV kvs) (MapT kt vt)"
| "length vs = n \<Longrightarrow> \<forall>v \<in> set vs. has_type v t \<Longrightarrow> has_type (ArrayV vs) (ArrayT n t)"
| "list_all2 has_type vs ts \<Longrightarrow> has_type (TupleV vs) (TupleT ts)"
| "has_type NoneV (OptionT t)"
| "has_type v t \<Longrightarrow> has_type (SomeV v) (OptionT t)"
| "has_type v t \<Longrightarrow> has_type (OkV v) (ResultT t e)"
| "has_type v e \<Longrightarrow> has_type (ErrV v) (ResultT t e)"
| "list_all2 has_type vs (map snd fs) \<Longrightarrow> has_type (StructV vs) (StructT fs)"
| "i < length vars \<Longrightarrow> wide = (255 < length vars) \<Longrightarrow>
     list_all2 has_type vs (field_types (snd (vars ! i))) \<Longrightarrow> has_type (EnumV wide i vs) (EnumT vars)"

inductive_cases has_type_unitE: "has_type v UnitT"

inductive_simps has_type_simps:
  "has_type v (SignedT k)" "has_type v (UnsignedT k)" "has_type v StrT" "has_type v (VecT t)"
  "has_type v (TupleT ts)" "has_type v (OptionT t)" "has_type v (StructT fs)" "has_type v (EnumT vars)"

section \<open>The text of a value\<close>

definition in_list :: "bytes list \<Rightarrow> bytes" where
  "in_list ss = str ''['' @ sep_join (str '', '') ss @ str '']''"

definition in_tuple :: "bytes list \<Rightarrow> bytes" where
  "in_tuple ss = str ''('' @ sep_join (str '', '') ss @ str '')''"

text \<open>A struct's text, from its offsets and schemas and its fields' texts.\<close>

definition in_struct :: "fmt_env \<Rightarrow> (bytes \<times> bytes) list \<Rightarrow> bytes list \<Rightarrow> bytes" where
  "in_struct env parts ss =
     str ''{'' @ sep_join (str '', '') (map2 (\<lambda>es s. field_text env 0 (fst es) s) parts ss) @ str ''}''"

text \<open>The string table before the fields of variant \<open>i\<close>.\<close>

fun table_at :: "(bytes \<times> bytes vfields) list \<Rightarrow> bytes \<Rightarrow> nat \<Rightarrow> bytes" where
  "table_at [] table i = table"
| "table_at ((name, v) # vs) table 0 = table @ name @ [0]"
| "table_at ((name, v) # vs) table (Suc i) = table_at vs (snd (variant_sub_schema v (table @ name @ [0]))) i"

text \<open>The text of a variant's fields: nothing, one value, a tuple or a struct.\<close>

definition fields_text :: "fmt_env \<Rightarrow> bytes vfields \<Rightarrow> bytes \<Rightarrow> bytes list \<Rightarrow> bytes" where
  "fields_text env f table ss =
     (case f of
        UnitF \<Rightarrow> []
      | UnnamedF es \<Rightarrow> (if length es = 1 then hd ss else in_tuple ss)
      | NamedF fs \<Rightarrow> in_struct env (field_parts fs table) ss)"

primrec elem_ty :: "rty \<Rightarrow> rty" where
  "elem_ty (VecT t) = t" | "elem_ty (ArrayT n t) = t" | "elem_ty (OptionT t) = t"

primrec pair_ty :: "rty \<Rightarrow> rty \<times> rty" where
  "pair_ty (MapT k v) = (k, v)" | "pair_ty (ResultT t e) = (t, e)"

primrec part_tys :: "rty \<Rightarrow> rty list" where
  "part_tys (TupleT ts) = ts" | "part_tys (StructT fs) = map snd fs"

primrec struct_fields :: "rty \<Rightarrow> (bytes \<times> rty) list" where
  "struct_fields (StructT fs) = fs"

primrec variants :: "rty \<Rightarrow> (bytes \<times> rty vfields) list" where
  "variants (EnumT vs) = vs"

abbreviation sch_fields :: "(bytes \<times> rty) list \<Rightarrow> (bytes \<times> bytes) list" where
  "sch_fields \<equiv> map (map_prod id schema)"

abbreviation sch_variants :: "(bytes \<times> rty vfields) list \<Rightarrow> (bytes \<times> bytes vfields) list" where
  "sch_variants \<equiv> map (map_prod id (map_vfields schema))"

text \<open>16-byte integers are written as 0, strings end after 65535 bytes, and so do vectors.\<close>

primrec render :: "rval \<Rightarrow> fmt_env \<Rightarrow> rty \<Rightarrow> bytes" where
  "render (SignedV k i) env t = show_int (if k = 5 then 0 else i)"
| "render (UnsignedV k n) env t = show_nat (if k = 5 then 0 else n)"
| "render (UsizeV n) env t = show_nat n"
| "render (F32V b) env t = show_f32 env b"
| "render (F64V c) env t = show_f64 env c"
| "render (BoolV x) env t = show_bool x"
| "render (CharV c) env t = utf8_char c"
| "render UnitV env t = str ''()''"
| "render (StrV s) env t = from_utf8_or_empty (take 65535 s)"
| "render (TextV s) env t = from_utf8_or_empty (take 65535 s)"
| "render (VecV vs) env t = in_list (take 65535 (map (\<lambda>r. r env (elem_ty t)) (map render vs)))"
| "render (MapV kvs) env t =
     in_list (map (\<lambda>(k, v). in_tuple [k env (fst (pair_ty t)), v env (snd (pair_ty t))])
       (map (map_prod render render) kvs))"
| "render (ArrayV vs) env t = in_list (map (\<lambda>r. r env (elem_ty t)) (map render vs))"
| "render (TupleV vs) env t = in_tuple (map2 (\<lambda>r t. r env t) (map render vs) (part_tys t))"
| "render NoneV env t = variant_text env [0, 0] [OP_UNIT] []"
| "render (SomeV v) env t =
     variant_text env [5, 0] (schema (elem_ty t)) (render v env (elem_ty t))"
| "render (OkV v) env t =
     variant_text env [0, 0] (schema (fst (pair_ty t))) (render v env (fst (pair_ty t)))"
| "render (ErrV v) env t =
     variant_text env [3, 0] (schema (snd (pair_ty t))) (render v env (snd (pair_ty t)))"
| "render (StructV vs) env t =
     in_struct env (field_parts (sch_fields (struct_fields t)) [])
       (map2 (\<lambda>r t. r env t) (map render vs) (part_tys t))"
| "render (EnumV wide i vs) env t =
     (let vars = sch_variants (variants t); part = variant_parts vars [] ! i
      in variant_text env (fst part) (snd part)
           (fields_text env (snd (vars ! i)) (table_at vars [] i)
             (map2 (\<lambda>r t. r env t) (map render vs) (field_types (snd (variants t ! i))))))"

section \<open>The round trip\<close>

text \<open>\<open>prints env t v\<close>: with the schema of \<open>t\<close>, the encoding of \<open>v\<close> is formatted as its text.\<close>

definition prints :: "fmt_env \<Rightarrow> rty \<Rightarrow> rval \<Rightarrow> bool" where
  "prints env t v \<longleftrightarrow> formats env (schema t) (enc v) (render v env t)"

lemma schema_not_Nil: "wf_ty t \<Longrightarrow> schema t \<noteq> []"
  by (cases t) (auto simp: struct_schema_parts enum_schema_parts)

lemma op_with_not_unit: "b \<in> set categories \<Longrightarrow> b \<noteq> OP_UNIT \<Longrightarrow> k < 16 \<Longrightarrow> op_with b k \<noteq> OP_UNIT"
  using op_with(1) [of b k] op_with(1) [of OP_UNIT 0] by (auto simp: op_with_0)

lemma count_header_not_unit:
  "b \<in> set categories \<Longrightarrow> b \<noteq> OP_UNIT \<Longrightarrow> n < 65536 \<Longrightarrow> count_header b n @ xs \<noteq> [OP_UNIT]"
  by (cases "n \<le> 15") (auto simp: count_header_forms op_with_not_unit)

text \<open>The unit's schema belongs to the unit type only, whose value takes no bytes.\<close>

lemma schema_unit: "wf_ty t \<Longrightarrow> schema t = [OP_UNIT] \<longleftrightarrow> t = UnitT"
proof (cases t)
  case (StructT fs)
  assume "wf_ty t"
  then show ?thesis
    using count_header_not_unit [of OP_STRUCT "length fs"] op_neq
    by (simp add: StructT struct_schema_parts wf_count_def)
next
  case (EnumT vs)
  assume "wf_ty t"
  then show ?thesis
    using count_header_not_unit [of OP_ENUM "length vs"] op_neq
    by (simp add: EnumT enum_schema_parts wf_count_def)
next
  case (TupleT ts)
  assume "wf_ty t"
  then obtain t0 ts' where "ts = t0 # ts'" "wf_ty t0" using TupleT by (cases ts) auto
  then show ?thesis using schema_not_Nil [of t0] by (simp add: TupleT)
qed (use op_neq schema_not_Nil in
  \<open>auto simp: op_forms op_form_others(1,2) op_with_not_unit simp flip: op_with_0\<close>)

lemma variant_sub_unit:
  assumes "wf_fields (map_vfields wf_ty f)"
    and "fst (variant_sub_schema (map_vfields schema f) table) = [OP_UNIT]"
  shows "f = UnitF \<or> f = UnnamedF [UnitT]"
proof (cases f)
  case (UnnamedF ts)
  show ?thesis
  proof (cases "length ts = 1")
    case True
    then obtain t where t: "ts = [t]" by (cases ts) auto
    then show ?thesis using assms UnnamedF schema_unit [of t] by simp
  next
    case False
    then show ?thesis
      using assms UnnamedF count_header_not_unit [of OP_TUPLE "length ts"] op_neq
      by (simp add: struct_schema_unnamed_def op_lits wf_count_def)
  qed
next
  case (NamedF fs)
  then show ?thesis
    using assms count_header_not_unit [of OP_STRUCT "length fs"] op_neq
    by (simp add: struct_schema_parts wf_count_def)
qed simp

lemma variant_sub_not_Nil:
  "wf_fields (map_vfields wf_ty f) \<Longrightarrow> fst (variant_sub_schema (map_vfields schema f) table) \<noteq> []"
proof (cases f)
  case (UnnamedF ts)
  assume "wf_fields (map_vfields wf_ty f)"
  then show ?thesis
    using UnnamedF schema_not_Nil by (cases ts) (auto simp: struct_schema_unnamed_def count_header_def)
qed (auto simp: struct_schema_parts count_header_def)

lemma variant_parts_nth:
  "i < length vs \<Longrightarrow> snd (variant_parts vs table ! i) =
     fst (variant_sub_schema (snd (vs ! i)) (table_at vs table i))"
  by (induction vs table i rule: table_at.induct) (auto simp: split_beta Let_def)

text \<open>Tuples and structs, from lists of types and values.\<close>

lemma prints_tuple:
  assumes vt: "list_all2 (\<lambda>v t. prints env t v) vs ts" and w: "\<forall>t \<in> set ts. wf_ty t" and n: "wf_count ts"
  shows "formats env (count_header OP_TUPLE (length ts) @ concat (map schema ts)) (concat (map enc vs))
    (in_tuple (map2 (\<lambda>r t. r env t) (map render vs) ts))"
proof -
  let ?xs = "map2 (\<lambda>v t. (schema t, enc v, render v env t)) vs ts"
  have l: "length vs = length ts" using vt by (rule list_all2_lengthD)
  have "\<forall>(es, p, s) \<in> set ?xs. measured es \<and> formats env es p s"
    using vt w schema_measured by (auto simp: list_all2_iff prints_def set_zip)
  moreover have "wf_count ?xs" using n l wf_count_same [of ?xs ts] by simp
  moreover have "map fst ?xs = map schema ts" "map (\<lambda>x. fst (snd x)) ?xs = map enc vs"
    "map (\<lambda>x. snd (snd x)) ?xs = map2 (\<lambda>r t. r env t) (map render vs) ts"
    using l by (auto simp: list_eq_iff_nth_eq)
  ultimately show ?thesis using format_tuple [of ?xs env] l by (simp add: in_tuple_def)
qed

lemma prints_struct:
  assumes vt: "list_all2 (\<lambda>v t. prints env t v) vs (map snd fs)" and w: "\<forall>t \<in> set (map snd fs). wf_ty t"
    and n: "wf_count fs"
  shows "formats env (fst (struct_schema_named (sch_fields fs) table)) (concat (map enc vs))
    (in_struct env (field_parts (sch_fields fs) table) (map2 (\<lambda>r t. r env t) (map render vs) (map snd fs)))"
proof -
  let ?ps = "field_parts (sch_fields fs) table"
  let ?xs = "map2 (\<lambda>es (v, t). (fst es, snd es, enc v, render v env t)) ?ps (zip vs (map snd fs))"
  note ps = field_parts_props [where fs = "sch_fields fs" and table = table]
  have l: "length vs = length fs" using vt by (auto dest: list_all2_lengthD)
  have snds: "snd (?ps ! i) = schema (snd (fs ! i))" if "i < length fs" for i
  proof -
    have "map snd ?ps ! i = map snd (sch_fields fs) ! i" by (simp only: ps(2))
    then show ?thesis using that ps(1) by simp
  qed
  have "\<forall>(off, es, p, s) \<in> set ?xs. length off = 2 \<and> measured es \<and> formats env es p s"
  proof -
    have "length (fst (?ps ! i)) = 2" "measured (snd (?ps ! i))"
      "formats env (snd (?ps ! i)) (enc (vs ! i)) (render (vs ! i) env (snd (fs ! i)))" if "i < length fs" for i
      using that ps(1) ps(3) [of "?ps ! i"] w schema_measured [of "snd (fs ! i)"] vt
      by (auto simp: snds list_all2_conv_all_nth prints_def)
    then show ?thesis using l ps(1) by (auto simp: set_zip) (metis fst_conv snd_conv)+
  qed
  moreover have "length ?xs = length fs" using l ps(1) by simp
  moreover have "wf_count ?xs" using n \<open>length ?xs = length fs\<close> wf_count_same by blast
  moreover have "map (\<lambda>x. fst x @ fst (snd x)) ?xs = map (\<lambda>es. fst es @ snd es) ?ps"
    "map (\<lambda>x. fst (snd (snd x))) ?xs = map enc vs"
    "map (\<lambda>x. field_text env 0 (fst x) (snd (snd (snd x)))) ?xs =
       map2 (\<lambda>es s. field_text env 0 (fst es) s) ?ps (map2 (\<lambda>r t. r env t) (map render vs) (map snd fs))"
    using l ps(1) by (auto simp: list_eq_iff_nth_eq split_beta)
  ultimately show ?thesis
    using format_struct [of ?xs env] by (simp add: in_struct_def struct_schema_parts)
qed

lemma prints_fields:
  assumes vt: "list_all2 (\<lambda>v t. prints env t v) vs (field_types f)"
    and w: "wf_fields (map_vfields wf_ty f)"
  shows "formats env (fst (variant_sub_schema (map_vfields schema f) table)) (concat (map enc vs))
    (if f = UnitF then str ''()''
     else fields_text env (map_vfields schema f) table (map2 (\<lambda>r t. r env t) (map render vs) (field_types f)))"
proof (cases f)
  case UnitF
  then show ?thesis using vt format_unit [of env] by (simp add: formats_def OP_UNIT_def)
next
  case (UnnamedF ts)
  then have ts: "\<forall>t \<in> set ts. wf_ty t" "wf_count ts" using w by (auto simp: list_all_iff)
  show ?thesis
  proof (cases "length ts = 1")
    case True
    then obtain t where "ts = [t]" by (cases ts) auto
    moreover from this obtain v where "vs = [v]" using vt UnnamedF by (cases vs) auto
    ultimately show ?thesis using vt UnnamedF by (simp add: fields_text_def prints_def)
  next
    case False
    then show ?thesis
      using prints_tuple [OF _ ts, of env vs] vt UnnamedF
      by (simp add: fields_text_def struct_schema_unnamed_def op_lits)
  qed
next
  case (NamedF fs)
  then show ?thesis
    using prints_struct [of env vs fs table] vt w by (auto simp: fields_text_def list_all_iff)
qed

lemma to_le_disc: "to_le 1 n = discriminant False n" "to_le 2 n = discriminant True n"
  by (simp_all add: discriminant_def to_le_2 word_unat_eq_iff unat_of_nat)

lemma formats_vec:
  assumes "\<forall>v \<in> set vs. prints env t v" "wf_ty t" "length vs < 65536"
  shows "formats env ((OP_SEQ OR 2) # schema t) (to_le 2 (length vs) @ concat (map enc vs))
    (in_list (map (\<lambda>r. r env t) (map render vs)))"
  using format_seq [of 2 "map (\<lambda>v. (enc v, render v env t)) vs" "schema t" env] assms schema_measured [OF assms(2)]
  by (auto simp: op_lits size_for_k_def prints_def in_list_def comp_def)

text \<open>An enum of two variants without fields or with one field each, as \<open>Option\<close> and \<open>Result\<close>.\<close>

lemma formats_two:
  assumes off: "length o0 = 2" "length o1 = 2" and m: "measured s0" "measured s1" "s0 \<noteq> []" "s1 \<noteq> []"
    and f: "formats env (if b then s1 else s0) p s" and u: "(if b then s1 else s0) = [OP_UNIT] \<longrightarrow> p = []"
  shows "formats env ((OP_ENUM OR 2) # 1 # 0 # o0 @ s0 @ o1 @ s1) ((if b then 1 else 0) # p)
    (variant_text env (if b then o1 else o0) (if b then s1 else s0) s)"
proof -
  let ?ess = "[(o0, s0), (o1, s1)]" and ?v = "if b then 1 else 0 :: nat"
  have "\<forall>es \<in> set ?ess. length (fst es) = 2 \<and> measured (snd es)" using off m by simp
  from format_enum [OF this, of ?v 1 p env s] m f u
  have "formats env (count_header OP_ENUM 2 @ [1, 0] @ flat_parts ?ess) (to_le 1 ?v @ p)
      (variant_text env (fst (?ess ! ?v)) (snd (?ess ! ?v)) s)"
    by (simp add: wf_count_def size_for_k_def numeral_2_eq_2 split: if_splits)
  then show ?thesis by (simp add: count_header_forms op_lits split: if_splits)
qed

lemma unit_enc: "has_type v t \<Longrightarrow> wf_ty t \<Longrightarrow> schema t = [OP_UNIT] \<Longrightarrow> enc v = []"
  using schema_unit by (auto elim!: has_type_unitE)

lemma unit_measured: "measured [OP_UNIT]" "formats env [OP_UNIT] [] (str ''()'')"
  using schema_measured [of UnitT] format_unit [of env] by (simp_all add: formats_def)

lemma variant_text_unit: "variant_text env off [OP_UNIT] s = variant_text env off [OP_UNIT] []"
  by (simp add: variant_text_def)

lemma value_prints: "has_type v t \<Longrightarrow> wf_ty t \<Longrightarrow> prints env t v"
proof (induction v t rule: has_type.induct)
  case (11 vs t)
  have "\<forall>v \<in> set (take 65535 vs). prints env t v" using 11 by (auto dest: in_set_takeD)
  from formats_vec [OF this] 11(2) show ?case
    by (simp add: prints_def min.commute [of "length vs"] take_map)
next
  case (12 kvs kt vt)
  let ?p = "\<lambda>kv. enc (fst kv) @ enc (snd kv)"
    and ?s = "\<lambda>kv. in_tuple [render (fst kv) env kt, render (snd kv) env vt]"
    and ?es = "count_header OP_TUPLE 2 @ schema kt @ schema vt"
  have w: "wf_ty kt" "wf_ty vt" using 12(3) by auto
  have m: "measured (schema kt)" "measured (schema vt)" using w by (simp_all add: schema_measured)
  have "formats env ?es (?p kv) (?s kv)" if "kv \<in> set kvs" for kv
    using prints_tuple [of env "[fst kv, snd kv]" "[kt, vt]"] 12(2) w that
    by (simp add: wf_count_def numeral_2_eq_2)
  moreover have "measured ?es"
    using measured_tuple [of "[schema kt, schema vt]"] m by (simp add: wf_count_def numeral_2_eq_2)
  moreover have "concat (entries (map (map_prod enc enc) xs)) = concat (map ?p xs)" for xs
    by (induction xs) auto
  ultimately show ?case
    using format_seq [of 3 "map (\<lambda>kv. (?p kv, ?s kv)) kvs" ?es env] 12(1)
    by (auto simp: prints_def op_lits count_header_forms size_for_k_def in_list_def comp_def split_beta)
next
  case (13 vs n t)
  then show ?case using formats_vec [of vs env t] by (simp add: prints_def)
next
  case (14 vs ts)
  then have w: "\<forall>t \<in> set ts. wf_ty t" "wf_count ts" by (auto simp: list_all_iff wf_count_def)
  moreover have "list_all2 (\<lambda>v t. prints env t v) vs ts"
    using 14 w(1) by (auto simp: list_all2_conv_all_nth)
  ultimately show ?case
    using prints_tuple [of env vs ts] 14(2) by (simp add: prints_def flip: tuple_header)
next
  case (19 vs fs)
  then have w: "\<forall>t \<in> set (map snd fs). wf_ty t" "wf_count fs" by (auto simp: list_all_iff)
  moreover have "list_all2 (\<lambda>v t. prints env t v) vs (map snd fs)"
    using 19(1) w(1) by (auto simp: list_all2_conv_all_nth)
  ultimately show ?case using prints_struct [of env vs fs "[]"] by (simp add: prints_def)
next
  case (20 i vars wide vs)
  let ?vars = "sch_variants vars"
  let ?ps = "variant_parts ?vars []" and ?f = "snd (vars ! i)" and ?vk = "if length vars \<le> 255 then 1 else 2 :: nat"
  have w: "wf_count vars" "wf_fields (map_vfields wf_ty (snd (vars ! j)))" if "j < length vars" for j
    using 20(4) that by (auto simp: list_all_iff)
  have vs: "list_all2 (\<lambda>v t. prints env t v) vs (field_types ?f)"
  proof -
    have "\<forall>t \<in> set (field_types ?f). wf_ty t"
      using w(2) [OF 20(1)] by (cases ?f) (auto simp: list_all_iff)
    then show ?thesis using 20(3) by (auto simp: list_all2_conv_all_nth)
  qed
  have l: "length ?ps = length vars" "wf_count ?ps"
    using variant_parts_props(1) [of ?vars "[]"] wf_count_same [of ?ps vars] w(1) 20(1) by auto
  have sub: "snd (?ps ! j) = fst (variant_sub_schema (map_vfields schema (snd (vars ! j))) (table_at ?vars [] j))"
    if "j < length vars" for j
    using variant_parts_nth [of j ?vars "[]"] that by simp
  have "measured (snd es)" if es: "es \<in> set ?ps" for es
  proof -
    obtain j where j: "j < length vars" "es = ?ps ! j" using es l(1) by (auto simp: in_set_conv_nth)
    then show ?thesis
      using measured_variant [OF w(2) [OF j(1)], of schema] schema_measured by (simp add: sub)
  qed
  then have ps: "\<forall>es \<in> set ?ps. length (fst es) = 2 \<and> measured (snd es)"
    using variant_parts_props(2) by blast
  have disc: "discriminant wide i = to_le (size_for_k ?vk) i" "i < 256 ^ size_for_k ?vk" "?vk = 1 \<or> ?vk = 2"
    "(if length vars \<le> 255 then 1 else 2) = (word_of_nat ?vk :: byte)"
    using 20(1,2) w(1) [OF 20(1)] to_le_disc by (auto simp: size_for_k_def wf_count_def)
  have vi: "snd (?vars ! i) = map_vfields schema ?f" using 20(1) by simp
  let ?s = "if ?f = UnitF then str ''()'' else fields_text env (snd (?vars ! i)) (table_at ?vars [] i)
    (map2 (\<lambda>r t. r env t) (map render vs) (field_types ?f))"
  have f: "formats env (snd (?ps ! i)) (concat (map enc vs)) ?s"
    unfolding sub [OF 20(1)] vi by (rule prints_fields [OF vs w(2) [OF 20(1)]])
  have unit: "concat (map enc vs) = []" if "snd (?ps ! i) = [OP_UNIT]"
  proof -
    have "?f = UnitF \<or> ?f = UnnamedF [UnitT]"
      using variant_sub_unit [OF w(2) [OF 20(1)]] that by (simp add: sub [OF 20(1)])
    moreover have "list_all2 has_type vs (field_types ?f)" using 20(3) by (auto elim: list_all2_mono)
    ultimately show ?thesis by (auto simp: list_all2_Cons2 elim!: has_type_unitE)
  qed
  have ne: "snd (?ps ! i) \<noteq> []"
    using variant_sub_not_Nil [OF w(2) [OF 20(1)]] 20(1) by (simp add: sub)
  have "formats env (count_header OP_ENUM (length ?ps) @ [word_of_nat ?vk, 0] @ flat_parts ?ps)
      (to_le (size_for_k ?vk) i @ concat (map enc vs)) (variant_text env (fst (?ps ! i)) (snd (?ps ! i)) ?s)"
    using unit by (intro format_enum ps l disc(2,3) ne f) (simp_all add: l 20(1))
  moreover have "variant_text env (fst (?ps ! i)) (snd (?ps ! i)) ?s = render (EnumV wide i vs) env (EnumT vars)"
    using 20(1) by (auto simp: Let_def sub variant_text_def OP_UNIT_def)
  ultimately show ?case
    by (simp only: prints_def schema.simps enc.simps enum_schema_parts length_map disc(1,4) l(1))
next
  case (15 t)
  then show ?case
    using formats_two [of "[0, 0]" "[5, 0]" "[OP_UNIT]" "schema t" env False "[]" "str ''()''"]
      unit_measured schema_measured schema_not_Nil variant_text_unit [of env "[0, 0]" "str ''()''"]
    by (simp add: prints_def)
next
  case (16 v t)
  then show ?case
    using formats_two [of "[0, 0]" "[5, 0]" "[OP_UNIT]" "schema t" env True "enc v" "render v env t"]
      unit_measured schema_measured schema_not_Nil unit_enc
    by (simp add: prints_def)
next
  case (17 v t e)
  then show ?case
    using formats_two [of "[0, 0]" "[3, 0]" "schema t" "schema e" env False "enc v" "render v env t"]
      schema_measured schema_not_Nil unit_enc
    by (simp add: prints_def)
next
  case (18 v e t)
  then show ?case
    using formats_two [of "[0, 0]" "[3, 0]" "schema t" "schema e" env True "enc v" "render v env e"]
      schema_measured schema_not_Nil unit_enc
    by (simp add: prints_def)
next
  case (1 k i)
  then show ?case using format_signed [of k i env] by (simp add: prints_def)
next
  case (2 n k)
  then show ?case using format_unsigned [of k n env] by (simp add: prints_def)
next
  case (3 n)
  then show ?case using format_unsigned [of 4 n env] by (simp add: prints_def size_for_k_def)
next
  case 8
  show ?case using unit_measured(2) [of env] by (simp add: prints_def)
qed (simp_all add: prints_def format_floats format_bool format_char format_str)

end
