(* ===== verification/Arg_Names.thy ===== *)
theory Arg_Names
  imports Arg_Display
begin

text \<open>
  When the names of fields and variants are printed right. The backend formats an argument with
  the string table of the argument's own type as the only table; the names of a struct or enum at
  the top of the argument are then the declared ones. The theorems at the end state the round
  trip of the whole argument codec and where it loses information.
\<close>

section \<open>Looking up a name\<close>

text \<open>A name that can be stored: an identifier is UTF-8 without a zero byte.\<close>

definition good_name :: "bytes \<Rightarrow> bool" where
  "good_name n \<longleftrightarrow> valid_utf8 n \<and> (\<forall>b \<in> set n. b \<noteq> 0)"

lemma from_le_st_offset: "length table < 65536 \<Longrightarrow> from_le (st_offset table) = length table"
  by (simp add: st_offset_def)

lemma lookup_name:
  assumes "good_name n" "length table < 65536"
  shows "read_str_from_table 0 (from_le (st_offset table)) [table @ n @ 0 # rest] = n"
proof -
  have "takeWhile (\<lambda>b. b \<noteq> 0) (n @ 0 # rest) = n"
    using assms(1) by (simp add: good_name_def takeWhile_append2)
  then show ?thesis
    using assms by (simp add: read_str_from_table_def from_le_st_offset Let_def good_name_def from_utf8_or_empty_def)
qed

text \<open>The tables only grow.\<close>

lemma named_fields_table: "snd (named_fields fs table) = table @ concat (map (\<lambda>f. fst f @ [0]) fs)"
  by (induction fs arbitrary: table) (auto simp: split_beta)

lemma variant_sub_grows: "\<exists>rest. snd (variant_sub_schema v table) = table @ rest"
  by (cases v) (auto simp: struct_schema_named_def split_beta named_fields_table)

lemma enum_variants_grows: "\<exists>rest. snd (enum_variants vs table) = table @ rest"
proof (induction vs arbitrary: table)
  case (Cons a vs)
  obtain nm v where a: "a = (nm, v)" by (cases a)
  obtain r1 where "snd (variant_sub_schema v (table @ nm @ [0])) = (table @ nm @ [0]) @ r1"
    using variant_sub_grows by blast
  then show ?case using Cons [of "(table @ nm @ [0]) @ r1"] by (auto simp: a split_beta Let_def)
qed simp

lemma field_part_name:
  "i < length fs \<Longrightarrow> \<exists>pre rest. fst (field_parts fs table ! i) = st_offset pre \<and>
     snd (named_fields fs table) = pre @ fst (fs ! i) @ 0 # rest"
proof (induction fs arbitrary: table i)
  case (Cons a fs)
  obtain nm s where a: "a = (nm, s)" by (cases a)
  show ?case
  proof (cases i)
    case 0
    then show ?thesis by (auto simp: a split_beta named_fields_table)
  next
    case (Suc j)
    then show ?thesis using Cons.IH [of j "table @ nm @ [0]"] Cons.prems by (auto simp: a split_beta)
  qed
qed simp

lemma variant_part_name:
  "i < length vs \<Longrightarrow> \<exists>pre rest. fst (variant_parts vs table ! i) = st_offset pre \<and>
     snd (enum_variants vs table) = pre @ fst (vs ! i) @ 0 # rest"
proof (induction vs arbitrary: table i)
  case (Cons a vs)
  obtain nm v where a: "a = (nm, v)" by (cases a)
  let ?t = "snd (variant_sub_schema v (table @ nm @ [0]))"
  show ?case
  proof (cases i)
    case 0
    obtain r1 where "?t = (table @ nm @ [0]) @ r1" using variant_sub_grows by blast
    moreover obtain r2 where "snd (enum_variants vs ?t) = ?t @ r2" using enum_variants_grows by blast
    ultimately show ?thesis using 0 by (auto simp: a split_beta Let_def)
  next
    case (Suc j)
    then show ?thesis using Cons.IH [of j ?t] Cons.prems by (auto simp: a split_beta Let_def)
  qed
qed simp

section \<open>Structs and enums at the top of an argument\<close>

lemma struct_name:
  assumes t: "tables env = [string_table (StructT fs)]" "length (string_table (StructT fs)) < 65536"
    and i: "i < length fs" "good_name (fst (fs ! i))"
  shows "field_text env 0 (fst (field_parts (sch_fields fs) [] ! i)) s = fst (fs ! i) @ str '': '' @ s"
proof -
  obtain pre rest where "fst (field_parts (sch_fields fs) [] ! i) = st_offset pre"
    "snd (named_fields (sch_fields fs) []) = pre @ fst (fs ! i) @ 0 # rest"
    using field_part_name [of i "sch_fields fs" "[]"] i by auto
  then show ?thesis
    using t lookup_name [OF i(2), of pre rest] by (simp add: field_text_def struct_schema_named_def split_beta)
qed

lemma enum_name:
  assumes t: "tables env = [string_table (EnumT vars)]" "length (string_table (EnumT vars)) < 65536"
    and i: "i < length vars" "good_name (fst (vars ! i))"
  shows "read_str_from_table 0 (from_le (fst (variant_parts (sch_variants vars) [] ! i))) (tables env) =
    fst (vars ! i)"
proof -
  obtain pre rest where "fst (variant_parts (sch_variants vars) [] ! i) = st_offset pre"
    "snd (enum_variants (sch_variants vars) []) = pre @ fst (vars ! i) @ 0 # rest"
    using variant_part_name [of i "sch_variants vars" "[]"] i by auto
  then show ?thesis
    using t lookup_name [OF i(2), of pre rest] by (simp add: enum_schema_def split_beta Let_def)
qed

lemma option_names:
  assumes "tables env = [string_table (OptionT t)]"
  shows "read_str_from_table 0 (from_le [0, 0]) (tables env) = str ''None''"
    and "read_str_from_table 0 (from_le [5, 0]) (tables env) = str ''Some''"
  by (simp_all add: assms read_str_from_table_def from_utf8_or_empty_def)

lemma result_names:
  assumes "tables env = [string_table (ResultT t e)]"
  shows "read_str_from_table 0 (from_le [0, 0]) (tables env) = str ''Ok''"
    and "read_str_from_table 0 (from_le [3, 0]) (tables env) = str ''Err''"
  by (simp_all add: assms read_str_from_table_def from_utf8_or_empty_def)

lemma prints_encoded:
  assumes "has_type v t" "wf_ty t" "encode_to v buf = Some (buf', n)"
  shows "format_payload env (schema t) buf' = Some (render v env t, n)"
  using value_prints [OF assms(1,2), of env] writesD [OF encode_to_writes, of v buf] assms(3)
  by (auto simp: prints_def formats_def split: if_splits)

lemma map2_render: "map2 (\<lambda>r t. r env t) (map render vs) ts = map2 (\<lambda>v t. render v env t) vs ts"
  by (auto simp: list_eq_iff_nth_eq)

text \<open>An environment with one table and no user formatters.\<close>

definition plain_env :: "bytes list \<Rightarrow> fmt_env" where
  "plain_env ts = \<lparr>tables = ts, users = [], show_f32 = (\<lambda>_. []), show_f64 = (\<lambda>_. [])\<rparr>"

section \<open>Properties\<close>

text \<open>C5: The round trip of the argument codec: whatever a well-typed value of a supported type is
  encoded into, \<open>format_payload\<close> with the type's schema reads back exactly the bytes the encoder
  reported and writes the value's text; it does not panic and does not look at the bytes behind.\<close>

theorem encode_format_roundtrip:
  assumes "has_type v t" and "wf_ty t" and "encode_to v buf = Some (buf', n)"
  shows "format_payload env (schema t) buf' = Some (render v env t, n)"
  by (rule prints_encoded [OF assms])

theorem encode_format_roundtrip_witness:
  "format_payload (plain_env [string_table (OptionT (VecT (UnsignedT 2)))])
     (schema (OptionT (VecT (UnsignedT 2)))) [1, 2, 0, 7, 0, 0, 1, 99] =
     Some (str ''Some([7, 256])'', 7)"
proof -
  let ?t = "OptionT (VecT (UnsignedT 2))" and ?v = "SomeV (VecV [UnsignedV 2 7, UnsignedV 2 256])"
  have "has_type ?v ?t" by (simp add: has_type_simps size_for_k_def)
  moreover have "wf_ty ?t" by simp
  moreover have "encode_to ?v (replicate 7 0 @ [99]) = Some ([1, 2, 0, 7, 0, 0, 1, 99], 7)"
    by (subst writesD [OF encode_to_writes]) (simp add: size_for_k_def to_le_2)
  ultimately have "format_payload (plain_env [string_table ?t]) (schema ?t) [1, 2, 0, 7, 0, 0, 1, 99] =
      Some (render ?v (plain_env [string_table ?t]) ?t, 7)"
    by (rule encode_format_roundtrip)
  moreover have "render ?v (plain_env [string_table ?t]) ?t = str ''Some([7, 256])''"
    by (simp add: plain_env_def variant_text_def in_list_def show_nat.simps digit_def
        read_str_from_table_def from_utf8_or_empty_def)
  ultimately show ?thesis by simp
qed

text \<open>C23: \<open>measure_schema\<close> finds the end of every supported type's schema, whatever follows it, so
  the schemas of several arguments can be concatenated.\<close>

theorem schema_self_delimiting:
  assumes "wf_ty t"
  shows "measure_schema (schema t @ rest) = Some (length (schema t))"
  using schema_measured [OF assms] by (simp add: measured_def)

theorem schema_self_delimiting_witness:
  "measure_schema (schema (TupleT [StrT, ArrayT 3 F64T]) @ [0x40]) = Some 4"
proof -
  have "wf_ty (TupleT [StrT, ArrayT 3 F64T])" "length (schema (TupleT [StrT, ArrayT 3 F64T])) = 4" by simp_all
  then show ?thesis using schema_self_delimiting by metis
qed






text \<open>A 128-bit integer is encoded in full but printed as 0, whatever its value.\<close>

lemma wide_integers_print_zero:
  assumes "- (2 ^ 127) \<le> i" and "i < 2 ^ 127" and "n < 2 ^ 128"
  shows "format_payload env (schema (SignedT 5)) (enc (SignedV 5 i)) = Some (str ''0'', 16) \<and>
    format_payload env (schema (UnsignedT 5)) (enc (UnsignedV 5 n)) = Some (str ''0'', 16)"
proof -
  have s: "size_for_k 5 = 16" "show_int 0 = str ''0''" "show_nat 0 = str ''0''"
    by (simp_all add: size_for_k_def show_int_def show_nat.simps digit_def)
  have "has_type (SignedV 5 i) (SignedT 5)" "has_type (UnsignedV 5 n) (UnsignedT 5)"
    using assms by (simp_all add: has_type_simps s)
  then have "prints env (SignedT 5) (SignedV 5 i)" "prints env (UnsignedT 5) (UnsignedV 5 n)"
    by (simp_all add: value_prints)
  then show ?thesis
    unfolding prints_def formats_def by (auto dest!: spec [of _ "[]"] simp: s)
qed

lemma wide_integers_print_zero_example:
  "format_payload (plain_env []) (schema (SignedT 5)) (enc (SignedV 5 (-3))) = Some (str ''0'', 16)"
  using wide_integers_print_zero [of "-3" 7] by simp

lemma valid_utf8_ascii_prefix: "unat b < 0x80 \<Longrightarrow> valid_utf8 (replicate n b @ xs) = valid_utf8 xs"
  by (induction n) simp_all

text \<open>A string is cut after 65535 bytes, in the middle of a character if need be; then nothing of
  it is printed at all.\<close>

lemma long_string_vanishes:
  "valid_utf8 (replicate 65534 97 @ utf8_char 233) \<and>
   format_payload env (schema StrT) (enc (StrV (replicate 65534 97 @ utf8_char 233))) = Some ([], 65537)"
proof -
  let ?s = "replicate 65534 97 @ utf8_char 233"
  have c: "utf8_char 233 = [0xC3, 0xA9]" by (simp add: utf8_char_def)
  have v: "valid_utf8 ?s"
    by (simp add: valid_utf8_ascii_prefix valid_utf8_char is_scalar_def)
  have t: "take 65535 ?s = replicate 65534 97 @ [0xC3]" by (simp add: c)
  have "\<not> valid_utf8 ([0xC3] :: bytes)" by (simp add: valid_utf8.simps)
  then have "\<not> valid_utf8 (take 65535 ?s)"
    unfolding t by (simp add: valid_utf8_ascii_prefix)
  then have r: "render (StrV ?s) env StrT = []" by (simp only: render.simps from_utf8_or_empty_def if_False)
  have l: "length (enc (StrV ?s)) = 65537" by (simp add: c)
  have "prints env StrT (StrV ?s)" using v by (intro value_prints) (simp_all add: has_type_simps)
  then have "format_payload env (schema StrT) (enc (StrV ?s) @ []) = Some (render (StrV ?s) env StrT, length (enc (StrV ?s)))"
    unfolding prints_def formats_def by blast
  then show ?thesis using v r l by simp
qed

end
