(* ===== verification/Message.thy ===== *)
theory Message
  imports Level Arg_Names
begin

text \<open>
  \<open>src/message.rs\<close> and \<open>src/metadata.rs\<close>: the 32-byte header in front of every message, and the
  static description of a call site that the header points to. Addresses are numbers; what is
  stored at them is a parameter of the functions that follow a pointer.
\<close>

section \<open>Metadata\<close>

text \<open>
  The three providers return static data; the schema slice also has an address, the key of the
  backend's offset cache.
\<close>

record Metadata =
  level :: LogLevel
  format_str :: bytes
  source_file :: bytes
  line :: nat
  module_path :: bytes
  schema_provider :: "nat \<times> bytes"
  string_tables_provider :: "bytes list"
  user_formatters_provider :: "(bytes \<Rightarrow> nat \<times> bytes) list"

definition metadata_new ::
    "LogLevel \<Rightarrow> bytes \<Rightarrow> bytes \<Rightarrow> nat \<Rightarrow> bytes \<Rightarrow> nat \<times> bytes \<Rightarrow> bytes list \<Rightarrow>
     (bytes \<Rightarrow> nat \<times> bytes) list \<Rightarrow> Metadata" where
  "metadata_new l f fi li m sp st uf =
     \<lparr>level = l, format_str = f, source_file = fi, line = li, module_path = m, schema_provider = sp,
      string_tables_provider = st, user_formatters_provider = uf\<rparr>"

definition empty_string_tables_provider :: "bytes list" where
  "empty_string_tables_provider = []"

definition empty_user_formatters_provider :: "(bytes \<Rightarrow> nat \<times> bytes) list" where
  "empty_user_formatters_provider = []"

section \<open>The message header\<close>

record ArchivedHeader =
  timestamp_ns :: nat
  metadata_ptr :: nat
  logger_ptr :: nat
  reserved :: nat

definition HEADER_SIZE :: nat where
  "HEADER_SIZE = 32"

definition header_new :: "nat \<Rightarrow> nat \<Rightarrow> nat \<Rightarrow> ArchivedHeader" where
  "header_new ts metadata logger =
     \<lparr>timestamp_ns = ts, metadata_ptr = metadata, logger_ptr = logger, reserved = 0\<rparr>"

definition serialize_into :: "ArchivedHeader \<Rightarrow> bytes \<Rightarrow> bytes option" where
  "serialize_into h buf =
     do {
       b1 \<leftarrow> put buf 0 (to_le 8 (timestamp_ns h));
       b2 \<leftarrow> put b1 8 (to_le 8 (metadata_ptr h));
       b3 \<leftarrow> put b2 16 (to_le 8 (logger_ptr h));
       put b3 24 (replicate 8 0)
     }"

text \<open>\<open>ArchivedHeader::decode\<close>: four unaligned reads, guarded by the length.\<close>

definition decode :: "bytes \<Rightarrow> ArchivedHeader option" where
  "decode raw =
     (if length raw < HEADER_SIZE then None
      else Some \<lparr>timestamp_ns = from_le (take 8 raw), metadata_ptr = from_le (take 8 (drop 8 raw)),
        logger_ptr = from_le (take 8 (drop 16 raw)), reserved = from_le (take 8 (drop 24 raw))\<rparr>)"

text \<open>The bytes of a header.\<close>

definition header_bytes :: "ArchivedHeader \<Rightarrow> bytes" where
  "header_bytes h =
     to_le 8 (timestamp_ns h) @ to_le 8 (metadata_ptr h) @ to_le 8 (logger_ptr h) @ replicate 8 0"

lemma length_header_bytes [simp]: "length (header_bytes h) = 32"
  by (simp add: header_bytes_def)

lemma serialize_into_bytes:
  "serialize_into h buf =
     (if 32 \<le> length buf then Some (header_bytes h @ drop 32 buf) else None)"
proof (cases "32 \<le> length buf")
  case True
  let ?a = "to_le 8 (timestamp_ns h)" and ?b = "to_le 8 (metadata_ptr h)" and ?c = "to_le 8 (logger_ptr h)"
  have p: "put (xs @ ys) (length xs) zs = Some (xs @ zs @ drop (length zs) ys)"
    if "length zs \<le> length ys" for xs ys zs :: bytes
    using that by (simp add: put_def)
  have 1: "put buf 0 ?a = Some (?a @ drop 8 buf)" using True by (simp add: put_def)
  have 2: "put (?a @ drop 8 buf) 8 ?b = Some (?a @ ?b @ drop 16 buf)"
    using p [of ?b "drop 8 buf" ?a] True by simp
  have 3: "put (?a @ ?b @ drop 16 buf) 16 ?c = Some (?a @ ?b @ ?c @ drop 24 buf)"
    using p [of ?c "drop 16 buf" "?a @ ?b"] True by simp
  have 4: "put (?a @ ?b @ ?c @ drop 24 buf) 24 (replicate 8 0) =
      Some (?a @ ?b @ ?c @ replicate 8 0 @ drop 32 buf)"
    using p [of "replicate 8 0" "drop 24 buf" "?a @ ?b @ ?c"] True by simp
  show ?thesis using True by (simp only: serialize_into_def 1 2 3 4 bind.bind_lunit header_bytes_def) simp
next
  case False
  then have "put b3 24 (replicate 8 0) = None" if "length b3 = length buf" for b3
    using that by (simp add: put_def)
  moreover have "length b' = length b" if "put b off bs = Some b'" for b off bs b'
    using that by (auto simp: put_def split: if_splits)
  ultimately show ?thesis
    using False by (auto simp: serialize_into_def split: Option.bind_splits)
qed

definition header_ok :: "ArchivedHeader \<Rightarrow> bool" where
  "header_ok h \<longleftrightarrow> timestamp_ns h < 2 ^ 64 \<and> metadata_ptr h < 2 ^ 64 \<and> logger_ptr h < 2 ^ 64 \<and> reserved h = 0"

lemma from_le_replicate: "from_le (replicate n 0) = 0"
  by (induction n) simp_all

lemma decode_bytes: "header_ok h \<Longrightarrow> decode (header_bytes h @ rest) = Some h"
  by (simp add: decode_def HEADER_SIZE_def header_bytes_def header_ok_def from_le_replicate)

section \<open>Properties\<close>

text \<open>C30: A header is read back as it was written, with whatever follows it; writing panics and
  reading fails exactly when there are fewer than 32 bytes.\<close>

theorem header_roundtrip:
  assumes "header_ok h"
  shows "case serialize_into h buf of
      Some buf' \<Rightarrow> decode buf' = Some h \<and> length buf' = length buf \<and> drop 32 buf' = drop 32 buf
    | None \<Rightarrow> length buf < 32 \<and> decode buf = None"
  using decode_bytes [OF assms] by (auto simp: serialize_into_bytes decode_def HEADER_SIZE_def)

theorem header_roundtrip_witness:
  "case serialize_into (header_new 5 4096 8192) (replicate 33 7) of
      Some buf' \<Rightarrow> decode buf' = Some (header_new 5 4096 8192) \<and> length buf' = 33 \<and> drop 32 buf' = [7]
    | None \<Rightarrow> False"
  using header_roundtrip [of "header_new 5 4096 8192" "replicate 33 7"]
  by (simp add: header_ok_def header_new_def serialize_into_bytes)

end
