(* ===== verification/Format_Body.thy ===== *)
theory Format_Body
  imports Message
begin

text \<open>
  The backend's entry points of \<open>src/arg/schema.rs\<close>: cutting a call site's schemas apart (with the
  global cache of the cuts), decoding the arguments of a payload, and interpolating them into the
  call site's format string.
\<close>

section \<open>The schemas of a call site\<close>

text \<open>The result lists start and length of each argument's schema.\<close>

fun offsets_loop :: "bytes \<Rightarrow> nat \<Rightarrow> nat \<Rightarrow> (nat \<times> nat) list \<Rightarrow> (nat \<times> nat) list option" where
  "offsets_loop raw pos 0 offsets = Some offsets"
| "offsets_loop raw pos (Suc n) offsets =
     (if length raw \<le> pos then Some offsets
      else do {
        s \<leftarrow> slice_from raw pos;
        schema_len \<leftarrow> measure_schema s;
        offsets_loop raw (pos + schema_len) n (offsets @ [(pos, schema_len)])
      })"

definition parse_schema_offsets :: "bytes \<Rightarrow> nat \<Rightarrow> bool \<Rightarrow> (nat \<times> nat) list option" where
  "parse_schema_offsets raw arg_count skip_count_byte =
     offsets_loop raw (if skip_count_byte then 1 else 0) arg_count []"

record SchemaInfo =
  raw :: bytes
  offsets :: "(nat \<times> nat) list"

type_synonym offset_cache = "nat \<rightharpoonup> (nat \<times> nat) list"

text \<open>
  \<open>get_schemas\<close>, with the cache \<open>OFFSETS\<close> as explicit state; the outer option is the panic.
\<close>

definition get_schemas :: "Metadata \<Rightarrow> offset_cache \<Rightarrow> (SchemaInfo option \<times> offset_cache) option" where
  "get_schemas md cache =
     (let (ptr, rw) = schema_provider md
      in if rw = [] then Some (None, cache)
         else
           let arg_count = unat (hd rw)
           in if arg_count = 0 then Some (None, cache)
              else (case cache ptr of
                  Some offs \<Rightarrow> Some (Some \<lparr>raw = rw, offsets = offs\<rparr>, cache)
                | None \<Rightarrow> do {
                    offs \<leftarrow> parse_schema_offsets rw arg_count True;
                    Some (Some \<lparr>raw = rw, offsets = offs\<rparr>, cache(ptr \<mapsto> offs))
                  }))"

section \<open>Decoding and interpolation\<close>

text \<open>How floats are printed is the part of the environment the library does not choose.\<close>

record float_printer =
  print_f32 :: "32 word \<Rightarrow> bytes"
  print_f64 :: "64 word \<Rightarrow> bytes"

text \<open>The environment for argument \<open>i\<close>: only its own string table.\<close>

definition arg_env :: "float_printer \<Rightarrow> Metadata \<Rightarrow> nat \<Rightarrow> fmt_env" where
  "arg_env fp md i =
     \<lparr>tables = (if i < length (string_tables_provider md) then [string_tables_provider md ! i] else []),
      users = user_formatters_provider md, show_f32 = print_f32 fp, show_f64 = print_f64 fp\<rparr>"

fun decode_loop ::
    "float_printer \<Rightarrow> Metadata \<Rightarrow> bytes \<Rightarrow> bytes \<Rightarrow> nat \<Rightarrow> nat \<Rightarrow> (nat \<times> nat) list \<Rightarrow> bytes list option" where
  "decode_loop fp md rw payload i payload_pos [] = Some []"
| "decode_loop fp md rw payload i payload_pos ((start, len) # offs) =
     do {
       sch \<leftarrow> slice rw start (start + len);
       p \<leftarrow> slice_from payload payload_pos;
       (s, used) \<leftarrow> format_payload (arg_env fp md i) sch p;
       rest \<leftarrow> decode_loop fp md rw payload (Suc i) (payload_pos + used) offs;
       Some (s # rest)
     }"

definition decode_args ::
    "float_printer \<Rightarrow> Metadata \<Rightarrow> bytes \<Rightarrow> offset_cache \<Rightarrow> (bytes list \<times> offset_cache) option" where
  "decode_args fp md payload cache =
     do {
       (info, cache') \<leftarrow> get_schemas md cache;
       (case info of
          None \<Rightarrow> Some ([], cache')
        | Some sinfo \<Rightarrow> do {
            results \<leftarrow> decode_loop fp md (raw sinfo) payload 0 0 (offsets sinfo);
            Some (results, cache')
          })
     }"

text \<open>\<open>str::find(c)\<close> for an ASCII character.\<close>

fun find_byte :: "byte \<Rightarrow> bytes \<Rightarrow> nat option" where
  "find_byte c [] = None"
| "find_byte c (b # bs) = (if b = c then Some 0 else map_option Suc (find_byte c bs))"

lemma find_byte_bound: "find_byte c bs = Some i \<Longrightarrow> i < length bs"
  by (induction bs arbitrary: i) (auto split: if_splits)

text \<open>
  The loop over the placeholders: \<open>remaining\<close> is what is left of the format string, and the result
  the output and what is left when the loop ends. The bytes 123 and 125 are the braces.
\<close>

function body_loop ::
    "float_printer \<Rightarrow> Metadata \<Rightarrow> SchemaInfo \<Rightarrow> bytes \<Rightarrow> bytes \<Rightarrow> bytes \<Rightarrow> nat \<Rightarrow> nat \<Rightarrow>
     (bytes \<times> bytes) option" where
  "body_loop fp md info payload output remaining schema_idx payload_pos =
     (case find_byte 123 remaining of
        None \<Rightarrow> Some (output, remaining)
      | Some brace \<Rightarrow>
          let output' = output @ take brace remaining;
              after_brace = drop (brace + 1) remaining
          in case find_byte 125 after_brace of
               None \<Rightarrow> Some (output' @ remaining, [])
             | Some close \<Rightarrow>
                 let remaining' = drop (close + 1) after_brace
                 in if schema_idx < length (offsets info) then
                      (let (start, len) = offsets info ! schema_idx
                       in do {
                         sch \<leftarrow> slice (raw info) start (start + len);
                         p \<leftarrow> slice_from payload payload_pos;
                         (s, used) \<leftarrow> format_payload (arg_env fp md schema_idx) sch p;
                         body_loop fp md info payload (output' @ s) remaining' (schema_idx + 1)
                           (payload_pos + used)
                       })
                    else body_loop fp md info payload output' remaining' schema_idx payload_pos)"
  by pat_completeness auto
termination
  by (relation "measure (\<lambda>(fp, md, info, payload, output, remaining, i, pos). length remaining)")
    (auto dest!: find_byte_bound)

declare body_loop.simps [simp del]

definition format_body ::
    "float_printer \<Rightarrow> Metadata \<Rightarrow> bytes \<Rightarrow> offset_cache \<Rightarrow> (bytes \<times> offset_cache) option" where
  "format_body fp md payload cache =
     do {
       (info, cache') \<leftarrow> get_schemas md cache;
       (output, remaining) \<leftarrow>
         (case info of
            None \<Rightarrow> Some ([], format_str md)
          | Some sinfo \<Rightarrow> body_loop fp md sinfo payload [] (format_str md) 0 0);
       Some (output @ remaining, cache')
     }"

section \<open>The contract of Encode\<close>

text \<open>
  What the backend relies on of the types of the arguments, the trait \<open>Encode\<close> as a locale: a schema
  tells its own length, and \<open>format_payload\<close> with the schema of a type reads back exactly the data of a
  value and prints the value's text. The library's and the derived implementations keep it (below);
  a user may write others.
\<close>

locale encode =
  fixes sch :: "'t \<Rightarrow> bytes"
    and tbl :: "'t \<Rightarrow> bytes"
    and wft :: "'t \<Rightarrow> bool"
    and typed :: "'v \<Rightarrow> 't \<Rightarrow> bool"
    and data :: "'v \<Rightarrow> bytes"
    and text_of :: "'v \<Rightarrow> fmt_env \<Rightarrow> 't \<Rightarrow> bytes"
  assumes sch_measured: "wft t \<Longrightarrow> measured (sch t)"
    and sch_nonempty: "wft t \<Longrightarrow> sch t \<noteq> []"
    and data_formats: "typed v t \<Longrightarrow> wft t \<Longrightarrow> formats env (sch t) (data v) (text_of v env t)"

text \<open>
  The schema bytes of a call site whose arguments have the types \<open>ts\<close>, the metadata that the logging
  macro builds for it, where the schemas are cut, and the arguments' texts.
\<close>

definition schema_bytes_of :: "('t \<Rightarrow> bytes) \<Rightarrow> 't list \<Rightarrow> bytes" where
  "schema_bytes_of sch ts = word_of_nat (length ts) # concat (map sch ts)"

definition site_of :: "('t \<Rightarrow> bytes) \<Rightarrow> ('t \<Rightarrow> bytes) \<Rightarrow> ('t \<Rightarrow> bool) \<Rightarrow> Metadata \<Rightarrow> 't list \<Rightarrow> bool" where
  "site_of sch tbl wft md ts \<longleftrightarrow> snd (schema_provider md) = schema_bytes_of sch ts \<and>
     string_tables_provider md = map tbl ts \<and> length ts < 256 \<and> (\<forall>t \<in> set ts. wft t)"

fun cuts :: "('t \<Rightarrow> bytes) \<Rightarrow> nat \<Rightarrow> 't list \<Rightarrow> (nat \<times> nat) list" where
  "cuts sch pos [] = []"
| "cuts sch pos (t # ts) = (pos, length (sch t)) # cuts sch (pos + length (sch t)) ts"

definition texts_of ::
    "('v \<Rightarrow> fmt_env \<Rightarrow> 't \<Rightarrow> bytes) \<Rightarrow> float_printer \<Rightarrow> Metadata \<Rightarrow> 't list \<Rightarrow> 'v list \<Rightarrow> bytes list" where
  "texts_of txt fp md ts vs = map (\<lambda>i. txt (vs ! i) (arg_env fp md i) (ts ! i)) [0..<length ts]"

abbreviation schema_bytes :: "rty list \<Rightarrow> bytes" where
  "schema_bytes \<equiv> schema_bytes_of schema"

abbreviation site_ok :: "Metadata \<Rightarrow> rty list \<Rightarrow> bool" where
  "site_ok \<equiv> site_of schema string_table wf_ty"

abbreviation arg_texts :: "float_printer \<Rightarrow> Metadata \<Rightarrow> rty list \<Rightarrow> rval list \<Rightarrow> bytes list" where
  "arg_texts \<equiv> texts_of render"

lemma length_cuts [simp]: "length (cuts sch pos ts) = length ts"
  by (induction pos ts rule: cuts.induct) auto

lemma cuts_nth:
  "i < length ts \<Longrightarrow> cuts sch pos ts ! i = (pos + length (concat (map sch (take i ts))), length (sch (ts ! i)))"
  by (induction sch pos ts arbitrary: i rule: cuts.induct) (auto simp: nth_Cons add.assoc split: nat.splits)

lemma cut_slice:
  "i < length ts \<Longrightarrow>
   slice (schema_bytes_of sch ts) (fst (cuts sch 1 ts ! i)) (fst (cuts sch 1 ts ! i) + snd (cuts sch 1 ts ! i)) =
     Some (sch (ts ! i))"
proof -
  assume i: "i < length ts"
  then have "concat (map sch ts) = concat (map sch (take i ts)) @ sch (ts ! i) @
      concat (map sch (drop (Suc i) ts))"
    by (subst id_take_nth_drop [OF i]) simp
  then show ?thesis
    using slice_mid [of "word_of_nat (length ts) # concat (map sch (take i ts))" "sch (ts ! i)"
      "concat (map sch (drop (Suc i) ts))"] i
    by (simp add: cuts_nth schema_bytes_of_def)
qed

lemma length_texts [simp]: "length (texts_of txt fp md ts vs) = length ts"
  by (simp add: texts_of_def)

text \<open>
  The cache is keyed by the address of the schema bytes. It is sound for a memory \<open>mem\<close> that says
  which bytes, once written, are at each address: the bytes of a call site are never freed.
\<close>

definition cache_ok :: "(nat \<rightharpoonup> bytes) \<Rightarrow> offset_cache \<Rightarrow> bool" where
  "cache_ok mem cache \<longleftrightarrow> (\<forall>p offs. cache p = Some offs \<longrightarrow>
     (\<exists>rw. mem p = Some rw \<and> rw \<noteq> [] \<and> parse_schema_offsets rw (unat (hd rw)) True = Some offs))"

section \<open>Templates\<close>

text \<open>
  A format string as a list of literal segments, each followed by a placeholder with some text
  between its braces, and a last segment; and the same with texts in place of the placeholders,
  where placeholders in excess vanish.
\<close>

fun template :: "(bytes \<times> bytes) list \<Rightarrow> bytes \<Rightarrow> bytes" where
  "template [] tail = tail"
| "template ((seg, ph) # ps) tail = seg @ 123 # ph @ 125 # template ps tail"

fun fill :: "(bytes \<times> bytes) list \<Rightarrow> bytes list \<Rightarrow> bytes" where
  "fill [] ss = []"
| "fill ((seg, ph) # ps) ss = seg @ (case ss of [] \<Rightarrow> fill ps [] | s # ss' \<Rightarrow> s @ fill ps ss')"

definition template_ok :: "(bytes \<times> bytes) list \<Rightarrow> bytes \<Rightarrow> bool" where
  "template_ok ps tail \<longleftrightarrow> (\<forall>(seg, ph) \<in> set ps. 123 \<notin> set seg \<and> 125 \<notin> set ph) \<and> 123 \<notin> set tail"

lemma find_byte_first: "c \<notin> set xs \<Longrightarrow> find_byte c (xs @ c # ys) = Some (length xs)"
  by (induction xs) auto

lemma find_byte_none: "c \<notin> set xs \<Longrightarrow> find_byte c xs = None"
  by (induction xs) auto

text \<open>The text of a call: the arguments' texts in the template, or the format string itself.\<close>

definition call_text_of ::
    "('v \<Rightarrow> fmt_env \<Rightarrow> 't \<Rightarrow> bytes) \<Rightarrow> float_printer \<Rightarrow> Metadata \<Rightarrow> 't list \<Rightarrow> 'v list \<Rightarrow>
     (bytes \<times> bytes) list \<Rightarrow> bytes \<Rightarrow> bytes" where
  "call_text_of txt fp md ts vs ps tail =
     (if ts = [] then template ps tail else fill ps (texts_of txt fp md ts vs) @ tail)"

abbreviation call_text ::
    "float_printer \<Rightarrow> Metadata \<Rightarrow> rty list \<Rightarrow> rval list \<Rightarrow> (bytes \<times> bytes) list \<Rightarrow> bytes \<Rightarrow> bytes" where
  "call_text \<equiv> call_text_of render"

section \<open>Bodies of well-typed calls\<close>

context encode
begin

lemma offsets_loop_cuts:
  "\<forall>t \<in> set ts. wft t \<Longrightarrow>
   offsets_loop (pre @ concat (map sch ts)) (length pre) (length ts) acc = Some (acc @ cuts sch (length pre) ts)"
proof (induction ts arbitrary: pre acc)
  case (Cons t ts)
  have "measure_schema (sch t @ concat (map sch ts)) = Some (length (sch t))"
    using sch_measured [of t] Cons.prems by (simp add: measured_def)
  moreover have "sch t \<noteq> []" using sch_nonempty Cons.prems by simp
  ultimately show ?case
    using Cons.IH [of "pre @ sch t" "acc @ [(length pre, length (sch t))]"] Cons.prems by simp
qed simp

lemma parse_cuts:
  "\<forall>t \<in> set ts. wft t \<Longrightarrow> parse_schema_offsets (schema_bytes_of sch ts) (length ts) True = Some (cuts sch 1 ts)"
  using offsets_loop_cuts [of ts "[word_of_nat (length ts)]" "[]"]
  by (simp add: parse_schema_offsets_def schema_bytes_of_def)

lemma get_schemas_site:
  assumes "site_of sch tbl wft md ts" and "cache_ok mem cache" and "mem (fst (schema_provider md)) = Some (schema_bytes_of sch ts)"
  shows "\<exists>cache'. get_schemas md cache =
      Some (if ts = [] then None else Some \<lparr>raw = schema_bytes_of sch ts, offsets = cuts sch 1 ts\<rparr>, cache') \<and>
    cache_ok mem cache'"
proof (cases "ts = []")
  case True
  then show ?thesis
    using assms by (intro exI [of _ cache]) (auto simp: get_schemas_def site_of_def schema_bytes_of_def split_beta)
next
  case False
  obtain ptr rw where sp: "schema_provider md = (ptr, rw)" by (cases "schema_provider md")
  have rw: "rw = schema_bytes_of sch ts" using assms(1) sp by (simp add: site_of_def)
  have n: "unat (hd rw) = length ts" using assms(1) by (simp add: rw schema_bytes_of_def site_of_def)
  have p: "parse_schema_offsets rw (length ts) True = Some (cuts sch 1 ts)"
    using assms(1) by (simp add: rw parse_cuts site_of_def)
  have hit: "cache ptr = Some offs \<Longrightarrow> offs = cuts sch 1 ts" for offs
    using assms(2,3) p n unfolding cache_ok_def sp rw by fastforce
  have "cache_ok mem (cache(ptr \<mapsto> cuts sch 1 ts))"
    using assms(2,3) p n by (auto simp: cache_ok_def sp rw schema_bytes_of_def)
  then show ?thesis
    using hit p n False assms(2) rw
    by (cases "cache ptr") (auto simp: get_schemas_def sp schema_bytes_of_def Let_def)
qed

text \<open>One argument, at its place in schemas and payload.\<close>

lemma format_arg:
  assumes ty: "list_all2 typed vs ts" "\<forall>t \<in> set ts. wft t" and i: "i < length ts"
    and pos: "pos = length (concat (map data (take i vs)))"
  shows "\<exists>p. slice_from (concat (map data vs) @ rest) pos = Some p \<and>
    format_payload (arg_env fp md i) (sch (ts ! i)) p =
      Some (texts_of text_of fp md ts vs ! i, length (data (vs ! i)))"
    and "pos + length (data (vs ! i)) = length (concat (map data (take (Suc i) vs)))"
proof -
  have l: "i < length vs" using ty(1) i by (auto dest: list_all2_lengthD)
  have c: "concat (map data vs) = concat (map data (take i vs)) @ data (vs ! i) @ concat (map data (drop (Suc i) vs))"
    by (subst id_take_nth_drop [OF l]) simp
  have "formats (arg_env fp md i) (sch (ts ! i)) (data (vs ! i)) (text_of (vs ! i) (arg_env fp md i) (ts ! i))"
    using ty i by (intro data_formats) (auto simp: list_all2_conv_all_nth)
  then have "format_payload (arg_env fp md i) (sch (ts ! i))
      (data (vs ! i) @ concat (map data (drop (Suc i) vs)) @ rest) =
    Some (texts_of text_of fp md ts vs ! i, length (data (vs ! i)))"
    using i by (simp add: formats_def texts_of_def)
  then show "\<exists>p. slice_from (concat (map data vs) @ rest) pos = Some p \<and>
    format_payload (arg_env fp md i) (sch (ts ! i)) p =
      Some (texts_of text_of fp md ts vs ! i, length (data (vs ! i)))"
    using pos c by simp
  show "pos + length (data (vs ! i)) = length (concat (map data (take (Suc i) vs)))"
    using pos l by (simp add: take_Suc_conv_app_nth)
qed

lemma decode_loop_texts:
  assumes ty: "list_all2 typed vs ts" "\<forall>t \<in> set ts. wft t"
  shows "i \<le> length ts \<Longrightarrow> pos = length (concat (map data (take i vs))) \<Longrightarrow>
    decode_loop fp md (schema_bytes_of sch ts) (concat (map data vs) @ rest) i pos (drop i (cuts sch 1 ts)) =
      Some (drop i (texts_of text_of fp md ts vs))"
proof (induction "length ts - i" arbitrary: i pos)
  case (Suc n)
  then have i: "i < length ts" by simp
  have d: "drop i (cuts sch 1 ts) = cuts sch 1 ts ! i # drop (Suc i) (cuts sch 1 ts)"
    "drop i (texts_of text_of fp md ts vs) = texts_of text_of fp md ts vs ! i # drop (Suc i) (texts_of text_of fp md ts vs)"
    using i by (simp_all add: Cons_nth_drop_Suc)
  obtain a b where ab: "cuts sch 1 ts ! i = (a, b)" by (cases "cuts sch 1 ts ! i")
  have "slice (schema_bytes_of sch ts) a (a + b) = Some (sch (ts ! i))" using cut_slice [OF i, of sch] ab by simp
  moreover note format_arg(1) [OF ty i Suc.prems(2), where rest = rest and fp = fp and md = md]
  moreover have "decode_loop fp md (schema_bytes_of sch ts) (concat (map data vs) @ rest) (Suc i)
      (pos + length (data (vs ! i))) (drop (Suc i) (cuts sch 1 ts)) = Some (drop (Suc i) (texts_of text_of fp md ts vs))"
    using Suc.hyps format_arg(2) [OF ty i Suc.prems(2)] i by (intro Suc.hyps(1)) auto
  ultimately show ?case by (auto simp: d ab simp del: One_nat_def)
qed simp

lemma body_loop_fill:
  assumes ty: "list_all2 typed vs ts" "\<forall>t \<in> set ts. wft t" and C: "C = cuts sch 1 ts"
  shows "template_ok ps tail \<Longrightarrow> i \<le> length ts \<Longrightarrow> pos = length (concat (map data (take i vs))) \<Longrightarrow>
    body_loop fp md \<lparr>raw = schema_bytes_of sch ts, offsets = C\<rparr> (concat (map data vs) @ rest) out
      (template ps tail) i pos = Some (out @ fill ps (drop i (texts_of text_of fp md ts vs)), tail)"
proof (induction ps arbitrary: out i pos)
  case Nil
  then show ?case
    by (subst body_loop.simps) (simp add: find_byte_none template_ok_def)
next
  case (Cons a ps)
  obtain seg ph where a: "a = (seg, ph)" by (cases a)
  have ok: "123 \<notin> set seg" "125 \<notin> set ph" "template_ok ps tail"
    using Cons.prems(1) by (auto simp: template_ok_def a)
  have f: "find_byte 123 (template (a # ps) tail) = Some (length seg)"
    "find_byte 125 (ph @ 125 # template ps tail) = Some (length ph)"
    using ok by (simp_all add: a find_byte_first)
  note step = body_loop.simps [of fp md "\<lparr>raw = schema_bytes_of sch ts, offsets = C\<rparr>"
    "concat (map data vs) @ rest" out "template (a # ps) tail" i pos]
  show ?case
  proof (cases "i < length ts")
    case True
    obtain x y where xy: "C ! i = (x, y)" by (cases "C ! i")
    have sl: "slice (schema_bytes_of sch ts) x (x + y) = Some (sch (ts ! i))" using cut_slice [OF True, of sch] xy by (simp only: C fst_conv snd_conv)
    obtain p where p: "slice_from (concat (map data vs) @ rest) pos = Some p"
      "format_payload (arg_env fp md i) (sch (ts ! i)) p =
         Some (texts_of text_of fp md ts vs ! i, length (data (vs ! i)))"
      using format_arg(1) [OF ty True Cons.prems(3)] by blast
    have d: "drop i (texts_of text_of fp md ts vs) = texts_of text_of fp md ts vs ! i # drop (Suc i) (texts_of text_of fp md ts vs)"
      using True by (simp add: Cons_nth_drop_Suc)
    have "body_loop fp md \<lparr>raw = schema_bytes_of sch ts, offsets = C\<rparr> (concat (map data vs) @ rest)
        (out @ seg @ texts_of text_of fp md ts vs ! i) (template ps tail) (Suc i) (pos + length (data (vs ! i))) =
      Some ((out @ seg @ texts_of text_of fp md ts vs ! i) @ fill ps (drop (Suc i) (texts_of text_of fp md ts vs)), tail)"
      using format_arg(2) [OF ty True Cons.prems(3)] True by (intro Cons.IH ok) auto
    then show ?thesis
      unfolding step f using f(2) True xy sl p d C by (simp add: a Let_def)
  next
    case False
    have "body_loop fp md \<lparr>raw = schema_bytes_of sch ts, offsets = C\<rparr> (concat (map data vs) @ rest)
        (out @ seg) (template ps tail) i pos = Some ((out @ seg) @ fill ps (drop i (texts_of text_of fp md ts vs)), tail)"
      using Cons.prems by (intro Cons.IH ok) auto
    then show ?thesis
      unfolding step f using f(2) False C by (simp add: a Let_def)
  qed
qed

lemma body_text:
  assumes site: "site_of sch tbl wft md ts" "cache_ok mem cache" "mem (fst (schema_provider md)) = Some (schema_bytes_of sch ts)"
    and ty: "list_all2 typed vs ts" and tm: "format_str md = template ps tail" "template_ok ps tail"
  shows "\<exists>cache'. format_body fp md (concat (map data vs) @ rest) cache = Some (call_text_of text_of fp md ts vs ps tail, cache') \<and>
    cache_ok mem cache'"
proof -
  obtain cache' where g: "get_schemas md cache =
      Some (if ts = [] then None else Some \<lparr>raw = schema_bytes_of sch ts, offsets = cuts sch 1 ts\<rparr>, cache')"
    "cache_ok mem cache'"
    using get_schemas_site [OF site] by blast
  have w: "\<forall>t \<in> set ts. wft t" using site(1) by (simp add: site_of_def)
  have "format_body fp md (concat (map data vs) @ rest) cache = Some (call_text_of text_of fp md ts vs ps tail, cache')"
    using g(1) body_loop_fill [OF ty w refl tm(2), of 0 0 fp md rest "[]"] tm(1)
    by (simp add: format_body_def call_text_of_def)
  then show ?thesis using g(2) by blast
qed

lemma args_texts:
  assumes site: "site_of sch tbl wft md ts" "cache_ok mem cache" "mem (fst (schema_provider md)) = Some (schema_bytes_of sch ts)"
    and ty: "list_all2 typed vs ts"
  shows "\<exists>cache'. decode_args fp md (concat (map data vs) @ rest) cache = Some (texts_of text_of fp md ts vs, cache') \<and>
    cache_ok mem cache'"
proof -
  obtain cache' where g: "get_schemas md cache =
      Some (if ts = [] then None else Some \<lparr>raw = schema_bytes_of sch ts, offsets = cuts sch 1 ts\<rparr>, cache')"
    "cache_ok mem cache'"
    using get_schemas_site [OF site] by blast
  have w: "\<forall>t \<in> set ts. wft t" using site(1) by (simp add: site_of_def)
  have "decode_args fp md (concat (map data vs) @ rest) cache = Some (texts_of text_of fp md ts vs, cache')"
    using g(1) decode_loop_texts [OF ty w, of 0 0 fp md rest]
    by (simp add: decode_args_def texts_of_def)
  then show ?thesis using g(2) by blast
qed

end

text \<open>The types of the model keep the contract.\<close>

interpretation types: encode schema string_table wf_ty has_type enc render
proof (unfold_locales, goal_cases)
  case (1 t)
  then show ?case by (rule schema_measured)
next
  case (2 t)
  then show ?case by (rule schema_not_Nil)
next
  case (3 v t env)
  then show ?case using value_prints by (simp add: prints_def)
qed

lemmas schema_bytes_def = schema_bytes_of_def [of schema]

lemmas site_ok_def = site_of_def [of schema string_table wf_ty] schema_bytes_def

lemmas arg_texts_def = texts_of_def [of render]

lemmas call_text_def = call_text_of_def [of render]

lemma body_loop_unclosed:
  assumes "123 \<notin> set seg" "125 \<notin> set ph"
  shows "body_loop fp md info payload out (seg @ 123 # ph) i pos = Some (out @ seg @ seg @ 123 # ph, [])"
  using assms by (subst body_loop.simps) (simp add: find_byte_first find_byte_none Let_def)

section \<open>Properties\<close>

text \<open>The metadata of a call \<open>log_info!(logger, "n = {}, {:?}.", 5u8, true)\<close>.\<close>

definition sample_site :: Metadata where
  "sample_site = metadata_new Info (str ''n = {}, {:?}.'') (str ''a.rs'') 7 (str ''m'')
     (4096, schema_bytes [UnsignedT 1, BoolT]) [[], []] []"

definition no_floats :: float_printer where
  "no_floats = \<lparr>print_f32 = (\<lambda>_. []), print_f64 = (\<lambda>_. [])\<rparr>"

definition sample_cache :: "nat \<rightharpoonup> bytes" where
  "sample_cache = [4096 \<mapsto> schema_bytes [UnsignedT 1, BoolT]]"

lemma sample_site_ok:
  "site_ok sample_site [UnsignedT 1, BoolT]" "cache_ok sample_cache Map.empty"
  "sample_cache (fst (schema_provider sample_site)) = Some (schema_bytes [UnsignedT 1, BoolT])"
  "list_all2 has_type [UnsignedV 1 5, BoolV True] [UnsignedT 1, BoolT]"
  "format_str sample_site = template [(str ''n = '', []), (str '', '', str '':?'')] (str ''.'')"
  "template_ok [(str ''n = '', []), (str '', '', str '':?'')] (str ''.'')"
  by (simp_all add: site_ok_def sample_site_def metadata_new_def cache_ok_def sample_cache_def
      template_ok_def has_type_simps size_for_k_def has_type.intros)

text \<open>C9: For a call with well-typed arguments the body is the format string with the placeholders
  replaced, in order, by the arguments' texts: each argument is formatted with its own schema and
  string table from its own bytes, whatever is between the braces, placeholders in excess vanish,
  arguments in excess are dropped, bytes after the arguments do not matter, and a call without
  arguments prints its format string as it is. The cache of schema offsets stays sound.\<close>

theorem body_interpolates:
  assumes "site_ok md ts" and "cache_ok mem cache" and "mem (fst (schema_provider md)) = Some (schema_bytes ts)"
    and "list_all2 has_type vs ts" and "format_str md = template ps tail" and "template_ok ps tail"
  shows "\<exists>cache'. format_body fp md (concat (map enc vs) @ rest) cache =
      Some (if ts = [] then format_str md
            else fill ps (map (\<lambda>i. render (vs ! i) (arg_env fp md i) (ts ! i)) [0..<length ts]) @ tail, cache') \<and>
    cache_ok mem cache'"
  using types.body_text [OF assms, of fp rest] unfolding call_text_def arg_texts_def assms(5) .

theorem body_interpolates_witness:
  "\<exists>cache'. format_body no_floats sample_site [5, 1, 99] Map.empty = Some (str ''n = 5, true.'', cache')"
proof -
  have "arg_env no_floats sample_site i = \<lparr>tables = (if i < 2 then [[]] else []), users = [],
      show_f32 = (\<lambda>_. []), show_f64 = (\<lambda>_. [])\<rparr>" for i
    by (auto simp: arg_env_def sample_site_def metadata_new_def no_floats_def less_2_cases_iff)
  then show ?thesis
    using body_interpolates [OF sample_site_ok, of no_floats "[99]"]
    by (auto simp: size_for_k_def upt_rec show_nat.simps digit_def show_bool_def)
qed

text \<open>C37: A placeholder that is not closed makes the body repeat the text before it: the loop has
  already written that text when it writes the rest of the format string, which still includes it.\<close>

theorem unclosed_brace_repeats:
  assumes "site_ok md ts" and "cache_ok mem cache" and "mem (fst (schema_provider md)) = Some (schema_bytes ts)"
    and "ts \<noteq> []" and "format_str md = seg @ 123 # ph" and "123 \<notin> set seg" and "125 \<notin> set ph"
  shows "\<exists>cache'. format_body fp md payload cache = Some (seg @ seg @ 123 # ph, cache')"
proof -
  obtain cache' where "get_schemas md cache = Some (Some \<lparr>raw = schema_bytes ts, offsets = cuts schema 1 ts\<rparr>, cache')"
    using types.get_schemas_site [OF assms(1-3)] assms(4) by auto
  then show ?thesis
    using body_loop_unclosed [OF assms(6,7), of fp md _ payload "[]" 0 0] assms(5)
    by (simp add: format_body_def)
qed

theorem unclosed_brace_repeats_witness:
  "\<exists>cache'. format_body no_floats (sample_site\<lparr>format_str := str ''abc {x''\<rparr>) [5, 1] Map.empty =
     Some (str ''abc abc {x'', cache')"
proof -
  have "site_ok (sample_site\<lparr>format_str := str ''abc {x''\<rparr>) [UnsignedT 1, BoolT]"
    using sample_site_ok(1) by (simp add: site_ok_def)
  then show ?thesis
    using unclosed_brace_repeats [OF _ sample_site_ok(2), of _ "[UnsignedT 1, BoolT]" "str ''abc ''" "str ''x''" no_floats "[5, 1]"]
      sample_site_ok(3) by simp
qed

end
