(* ===== verification/Logger.thy ===== *)
theory Logger
  imports Message
begin

text \<open>
  \<open>src/logger.rs\<close>, \<open>src/filter.rs\<close> and \<open>Frontend::create_or_get_logger\<close> of \<open>src/frontend.rs\<close>: the
  global registry of loggers by name, a logger's level, filters and sinks.

  An \<open>Arc<Logger>\<close> is the address of the logger in a heap; the macro puts that address into the
  header of a message and the backend follows it later. The allocator's choice of an address for
  a new logger is an argument, and no address is allocated twice. A filter is its \<open>accept\<close>; a
  sink is the address of an object that may be shared by several loggers.
\<close>

section \<open>Filters\<close>

type_synonym Filter = "Metadata \<Rightarrow> bytes \<Rightarrow> bool"

text \<open>\<open>LevelFilter::new(level)\<close>, as the filter it is.\<close>

definition LevelFilter :: "LogLevel \<Rightarrow> Filter" where
  "LevelFilter min_level metadata args_raw \<longleftrightarrow> min_level \<le> level metadata"

section \<open>Loggers and their registry\<close>

record Logger =
  logger_name :: bytes
  level_code :: byte
  sinks :: "nat list"
  filters :: "Filter list"

record logger_heap =
  logger_registry :: "bytes \<rightharpoonup> nat"
  loggers :: "nat \<rightharpoonup> Logger"

definition logger_new :: "nat \<Rightarrow> bytes \<Rightarrow> nat list \<Rightarrow> logger_heap \<Rightarrow> nat \<times> logger_heap" where
  "logger_new fresh nm snks h =
     (case logger_registry h nm of
        Some existing \<Rightarrow> (existing, h)
      | None \<Rightarrow>
          (fresh, \<lparr>logger_registry = (logger_registry h)(nm \<mapsto> fresh),
             loggers = (loggers h)(fresh \<mapsto>
               \<lparr>logger_name = nm, level_code = word_of_nat (as_usize Info), sinks = snks, filters = []\<rparr>)\<rparr>))"

definition create_or_get_logger :: "nat \<Rightarrow> bytes \<Rightarrow> nat list \<Rightarrow> logger_heap \<Rightarrow> nat \<times> logger_heap" where
  "create_or_get_logger fresh nm snks = logger_new fresh nm snks"

definition logger_get :: "bytes \<Rightarrow> logger_heap \<Rightarrow> nat option" where
  "logger_get nm h = logger_registry h nm"

definition set_log_level :: "LogLevel \<Rightarrow> Logger \<Rightarrow> Logger" where
  "set_log_level lv l = l\<lparr>level_code := word_of_nat (as_usize lv)\<rparr>"

definition log_level :: "Logger \<Rightarrow> LogLevel" where
  "log_level l = (case from_usize (unat (level_code l)) of None \<Rightarrow> Info | Some lv \<Rightarrow> lv)"

definition add_filter :: "Filter \<Rightarrow> Logger \<Rightarrow> Logger" where
  "add_filter f l = l\<lparr>filters := filters l @ [f]\<rparr>"

definition clear_filters :: "Logger \<Rightarrow> Logger" where
  "clear_filters l = l\<lparr>filters := []\<rparr>"

text \<open>The test of the backend over a logger's filters: \<open>filters.iter().all(..)\<close>.\<close>

definition filter_pass :: "Logger \<Rightarrow> Metadata \<Rightarrow> bytes \<Rightarrow> bool" where
  "filter_pass l md args_raw = list_all (\<lambda>f. f md args_raw) (filters l)"

section \<open>Sequences of calls\<close>

text \<open>
  The calls a program can make on loggers. An operation on a logger goes through an \<open>Arc\<close>, so at
  an address where there is one; on any other address the call cannot be made and the heap stays.
\<close>

datatype logger_call =
    NewLogger nat bytes "nat list"
  | SetLevel nat LogLevel
  | AddFilter nat Filter
  | ClearFilters nat

definition update_logger :: "nat \<Rightarrow> (Logger \<Rightarrow> Logger) \<Rightarrow> logger_heap \<Rightarrow> logger_heap" where
  "update_logger a f h = h\<lparr>loggers := (loggers h)(a := map_option f (loggers h a))\<rparr>"

fun do_call :: "logger_call \<Rightarrow> logger_heap \<Rightarrow> logger_heap" where
  "do_call (NewLogger fresh nm snks) h = snd (create_or_get_logger fresh nm snks h)"
| "do_call (SetLevel a lv) h = update_logger a (set_log_level lv) h"
| "do_call (AddFilter a f) h = update_logger a (add_filter f) h"
| "do_call (ClearFilters a) h = update_logger a clear_filters h"

text \<open>The allocator never hands out an address in use.\<close>

fun allocates_fresh :: "logger_call list \<Rightarrow> logger_heap \<Rightarrow> bool" where
  "allocates_fresh [] h \<longleftrightarrow> True"
| "allocates_fresh (c # cs) h \<longleftrightarrow>
     (case c of NewLogger fresh nm snks \<Rightarrow> loggers h fresh = None | _ \<Rightarrow> True) \<and>
     allocates_fresh cs (do_call c h)"

definition empty_heap :: logger_heap where
  "empty_heap = \<lparr>logger_registry = Map.empty, loggers = Map.empty\<rparr>"

section \<open>Invariant\<close>

text \<open>Every name leads to a logger of that name, and every logger has a level the code knows.\<close>

definition heap_ok :: "logger_heap \<Rightarrow> bool" where
  "heap_ok h \<longleftrightarrow>
     (\<forall>nm a. logger_registry h nm = Some a \<longrightarrow> (\<exists>l. loggers h a = Some l \<and> logger_name l = nm)) \<and>
     (\<forall>a l. loggers h a = Some l \<longrightarrow> logger_registry h (logger_name l) = Some a \<and>
        from_usize (unat (level_code l)) \<noteq> None)"

lemma as_usize_mod [simp]: "as_usize lv mod 256 = as_usize lv"
  by (cases lv) simp_all

lemma log_level_set [simp]: "log_level (set_log_level lv l) = lv"
  by (simp add: log_level_def set_log_level_def)

lemma heap_ok_empty: "heap_ok empty_heap"
  by (simp add: heap_ok_def empty_heap_def)

lemma heap_ok_new: "heap_ok h \<Longrightarrow> loggers h fresh = None \<Longrightarrow> heap_ok (snd (logger_new fresh nm snks h))"
  using from_as_usize [of Info]
  by (cases "logger_registry h nm") (fastforce simp: heap_ok_def logger_new_def)+

lemma heap_ok_update:
  assumes "heap_ok h" and "\<And>l. logger_name (f l) = logger_name l"
    and "\<And>l. from_usize (unat (level_code l)) \<noteq> None \<Longrightarrow> from_usize (unat (level_code (f l))) \<noteq> None"
  shows "heap_ok (update_logger a f h)"
proof (cases "loggers h a")
  case None
  then have "(loggers h)(a := None) = loggers h" by (simp add: fun_upd_idem_iff)
  then show ?thesis using assms(1) None by (simp add: update_logger_def heap_ok_def)
next
  case (Some l)
  then have "logger_registry h (logger_name l) = Some a" "from_usize (unat (level_code (f l))) \<noteq> None"
    using assms(1,3) unfolding heap_ok_def by blast+
  then show ?thesis
    using assms(1,2) Some unfolding heap_ok_def update_logger_def
    by (auto split: if_splits) (metis option.inject)+
qed

lemma heap_ok_call: "heap_ok h \<Longrightarrow> allocates_fresh [c] h \<Longrightarrow> heap_ok (do_call c h)"
  by (cases c)
    (auto simp: create_or_get_logger_def set_log_level_def add_filter_def clear_filters_def
      intro!: heap_ok_new heap_ok_update)

text \<open>What a call keeps: a name keeps its logger, and a logger its name and its sinks.\<close>

definition extends :: "logger_heap \<Rightarrow> logger_heap \<Rightarrow> bool" where
  "extends h h' \<longleftrightarrow>
     (\<forall>nm a. logger_registry h nm = Some a \<longrightarrow> logger_registry h' nm = Some a) \<and>
     (\<forall>a l. loggers h a = Some l \<longrightarrow>
        (\<exists>l'. loggers h' a = Some l' \<and> logger_name l' = logger_name l \<and> sinks l' = sinks l))"

lemma extends_refl: "extends h h"
  by (simp add: extends_def)

lemma extends_trans: "extends h h' \<Longrightarrow> extends h' h'' \<Longrightarrow> extends h h''"
  unfolding extends_def by metis

lemma extends_call: "allocates_fresh [c] h \<Longrightarrow> extends h (do_call c h)"
  by (cases c) (auto simp: extends_def create_or_get_logger_def logger_new_def update_logger_def
      set_log_level_def add_filter_def clear_filters_def split: option.splits)

lemma calls_keep:
  "heap_ok h \<Longrightarrow> allocates_fresh cs h \<Longrightarrow> heap_ok (fold do_call cs h) \<and> extends h (fold do_call cs h)"
proof (induction cs arbitrary: h)
  case Nil
  then show ?case by (simp add: extends_refl)
next
  case (Cons c cs)
  have c: "allocates_fresh [c] h" using Cons.prems(2) by simp
  have "heap_ok (fold do_call cs (do_call c h)) \<and>
      extends (do_call c h) (fold do_call cs (do_call c h))"
    using Cons.prems(2) by (intro Cons.IH heap_ok_call [OF Cons.prems(1) c]) simp
  then show ?case using extends_trans [OF extends_call [OF c]] by simp
qed

section \<open>Properties\<close>

text \<open>C31: Whatever is called on loggers and in whatever order, a logger once created stays at its
  address under its name with the sinks it was created with, so the pointer a message carries can
  be followed whenever the backend gets to it; every later call with its name returns it and
  ignores the sinks it is given. Every logger always has one of the eight levels.\<close>

theorem logger_pointer_stays_valid:
  assumes "heap_ok h" and "loggers h a = Some l" and "allocates_fresh cs h"
  defines "h' \<equiv> fold do_call cs h"
  shows "heap_ok h' \<and>
    (\<exists>l'. loggers h' a = Some l' \<and> logger_name l' = logger_name l \<and> sinks l' = sinks l \<and>
       from_usize (unat (level_code l')) = Some (log_level l')) \<and>
    create_or_get_logger fresh (logger_name l) snks h' = (a, h') \<and> logger_get (logger_name l) h' = Some a"
proof -
  have h': "heap_ok h'" "extends h h'" using calls_keep [OF assms(1,3)] by (simp_all add: h'_def)
  have r: "logger_registry h (logger_name l) = Some a" using assms(1,2) by (simp add: heap_ok_def)
  then have r': "logger_registry h' (logger_name l) = Some a" using h'(2) by (simp add: extends_def)
  obtain l' where l': "loggers h' a = Some l'" "logger_name l' = logger_name l" "sinks l' = sinks l"
    using h'(2) assms(2) unfolding extends_def by metis
  then have "from_usize (unat (level_code l')) = Some (log_level l')"
    using h'(1) by (fastforce simp: heap_ok_def log_level_def)
  then show ?thesis
    using h'(1) l' r' by (simp add: create_or_get_logger_def logger_new_def logger_get_def)
qed

theorem logger_pointer_stays_valid_witness:
  "logger_get (str ''app'')
     (fold do_call [SetLevel 8 Error, NewLogger 16 (str ''db'') [3], NewLogger 24 (str ''app'') [], AddFilter 8 (LevelFilter Info)]
       (snd (create_or_get_logger 8 (str ''app'') [1, 2] empty_heap))) = Some 8"
proof -
  let ?h = "snd (create_or_get_logger 8 (str ''app'') [1, 2] empty_heap)"
  have ok: "heap_ok ?h"
    using heap_ok_new [OF heap_ok_empty] by (simp add: create_or_get_logger_def empty_heap_def)
  have l: "loggers ?h 8 =
      Some \<lparr>logger_name = str ''app'', level_code = word_of_nat (as_usize Info), sinks = [1, 2], filters = []\<rparr>"
    by (simp add: create_or_get_logger_def logger_new_def empty_heap_def)
  have "allocates_fresh [SetLevel 8 Error, NewLogger 16 (str ''db'') [3], NewLogger 24 (str ''app'') [], AddFilter 8 (LevelFilter Info)] ?h"
    by (simp add: create_or_get_logger_def logger_new_def empty_heap_def update_logger_def str_def)
  from logger_pointer_stays_valid [OF ok l this] show ?thesis by simp
qed

end
