(* ===== verification/Log_Macro.thy ===== *)
theory Log_Macro
  imports Thread_Context Format_Body Logger
begin

text \<open>
  \<open>log_impl!\<close> of \<open>src/macros.rs\<close>, the body of the level macros: the test of the logger's level, the
  once-only initialisation of the call site's schema bytes and string tables, the computation of
  the message's size and the closure that writes header and arguments into the queue slot.

  An argument is an expression that the expansion evaluates more than once: a function from the
  number of the evaluation to the value. Evaluation 0 is the one whose size is taken, evaluation 1
  the one that is encoded; schema and string table depend on its type only. The \<open>OnceLock\<close>s of a
  call site are optional values; a panic is \<open>None\<close>.
\<close>

section \<open>Call sites\<close>

text \<open>What the compiler knows of a call: the address and the fields of its \<open>_META\<close>, and the types.\<close>

record CallSite =
  site_addr :: nat
  site_level :: LogLevel
  site_fmt :: bytes
  site_file :: bytes
  site_line :: nat
  site_module :: bytes
  site_schema_addr :: nat
  site_types :: "rty list"

record Statics =
  SCHEMA_BYTES :: "bytes option"
  STRING_TABLES :: "bytes list option"

text \<open>\<open>_META\<close>: its providers read the two cells and give an empty slice before they are set.\<close>

definition site_metadata :: "CallSite \<Rightarrow> Statics \<Rightarrow> Metadata" where
  "site_metadata cs st =
     metadata_new (site_level cs) (site_fmt cs) (site_file cs) (site_line cs) (site_module cs)
       (site_schema_addr cs, case SCHEMA_BYTES st of None \<Rightarrow> [] | Some v \<Rightarrow> v)
       (case STRING_TABLES st of None \<Rightarrow> [] | Some b \<Rightarrow> b) []"

text \<open>\<open>_c += 1\<close> once per argument on a \<open>u8\<close>, then the schemas of the arguments.\<close>

definition init_schema_bytes :: "rty list \<Rightarrow> bytes option \<Rightarrow> bytes option option" where
  "init_schema_bytes ts cell =
     (case cell of
        Some v \<Rightarrow> Some (Some v)
      | None \<Rightarrow>
          if 255 < length ts then None
          else Some (Some (word_of_nat (length ts) # concat (map schema ts))))"

definition init_string_tables :: "rty list \<Rightarrow> bytes list option \<Rightarrow> bytes list option" where
  "init_string_tables ts cell = (case cell of Some b \<Rightarrow> Some b | None \<Rightarrow> Some (map string_table ts))"

section \<open>The message\<close>

text \<open>The closure given to \<open>push_encoded\<close>.\<close>

definition write_message ::
    "ArchivedHeader \<Rightarrow> encoder list \<Rightarrow> bytes \<Rightarrow> (bytes \<times> unit) option" where
  "write_message h encs buf =
     do {
       slot \<leftarrow> slice buf 0 HEADER_SIZE;
       slot' \<leftarrow> serialize_into h slot;
       (buf', dp) \<leftarrow> encode_all encs HEADER_SIZE (slot' @ drop HEADER_SIZE buf);
       Some (buf', ())
     }"

definition total_msg :: "nat list \<Rightarrow> nat" where
  "total_msg sizes = HEADER_SIZE + sum_list sizes"

definition enabled :: "Logger \<Rightarrow> LogLevel \<Rightarrow> bool" where
  "enabled l lv \<longleftrightarrow> as_usize (log_level l) \<le> as_usize lv"

text \<open>
  \<open>log_impl!(level, logger, fmt, args...)\<close> in thread \<open>t\<close>, with the logger \<open>l\<close> at address \<open>a\<close> and the
  clock reading \<open>now\<close>. A full queue is ignored (\<open>.ok()\<close>).
\<close>

definition log_impl ::
    "'r rtrb \<Rightarrow> nat \<Rightarrow> CallSite \<Rightarrow> nat \<Rightarrow> Logger \<Rightarrow> nat \<Rightarrow> (nat \<Rightarrow> rval) list \<Rightarrow> Statics \<times> 'r world \<Rightarrow>
     (Statics \<times> 'r world) option" where
  "log_impl R t cs a l now args = (\<lambda>(st, w).
     if enabled l (site_level cs) then
       do {
         schema_cell \<leftarrow> init_schema_bytes (site_types cs) (SCHEMA_BYTES st);
         let tables_cell = init_string_tables (site_types cs) (STRING_TABLES st);
         let total = total_msg (map (\<lambda>e. encoded_size (e 0)) args);
         (res, w') \<leftarrow> ctx_push_encoded R t total
           (write_message (header_new now (site_addr cs) a) (map (\<lambda>e. encode_to (e 1)) args)) w;
         Some (\<lparr>SCHEMA_BYTES = schema_cell, STRING_TABLES = tables_cell\<rparr>, w')
       }
     else Some (st, w))"

section \<open>What a call writes\<close>

text \<open>The cells of a call site are empty or hold what the first enabled call put there.\<close>

definition statics_ok :: "CallSite \<Rightarrow> Statics \<Rightarrow> bool" where
  "statics_ok cs st \<longleftrightarrow>
     (SCHEMA_BYTES st = None \<or> SCHEMA_BYTES st = Some (schema_bytes (site_types cs))) \<and>
     (STRING_TABLES st = None \<or> STRING_TABLES st = Some (map string_table (site_types cs)))"

definition statics_set :: "CallSite \<Rightarrow> Statics" where
  "statics_set cs =
     \<lparr>SCHEMA_BYTES = Some (schema_bytes (site_types cs)), STRING_TABLES = Some (map string_table (site_types cs))\<rparr>"

text \<open>A message of a call: its header, the bytes of its arguments, and what was in the slot beyond.\<close>

definition message_of :: "ArchivedHeader \<Rightarrow> rval list \<Rightarrow> bytes \<Rightarrow> bytes" where
  "message_of h vs rest = header_bytes h @ concat (map enc vs) @ rest"

lemma statics_init:
  assumes "statics_ok cs st" "length (site_types cs) < 256"
  shows "init_schema_bytes (site_types cs) (SCHEMA_BYTES st) = Some (SCHEMA_BYTES (statics_set cs))"
    "init_string_tables (site_types cs) (STRING_TABLES st) = STRING_TABLES (statics_set cs)"
  using assms
  by (auto simp: statics_ok_def init_schema_bytes_def init_string_tables_def statics_set_def schema_bytes_def
      split: option.splits)

lemma site_metadata_ok:
  assumes "length (site_types cs) < 256" "\<forall>t \<in> set (site_types cs). wf_ty t"
  shows "site_ok (site_metadata cs (statics_set cs)) (site_types cs)"
    "snd (schema_provider (site_metadata cs (statics_set cs))) = schema_bytes (site_types cs)"
    "fst (schema_provider (site_metadata cs (statics_set cs))) = site_schema_addr cs"
  using assms by (simp_all add: site_ok_def site_metadata_def metadata_new_def statics_set_def)

text \<open>
  What the macro relies on beyond the contract of the backend: the encoder writes exactly the data of
  a value, or panics when the buffer is too short, and the size estimate covers the values that \<open>fits\<close>
  describes.
\<close>

locale encode_impl = encode +
  fixes wr :: "'v \<Rightarrow> encoder"
    and size_of :: "'v \<Rightarrow> nat"
    and fits :: "'v \<Rightarrow> bool"
  assumes wr_data: "writes (wr v) (data v)"
    and size_fits: "fits v \<Longrightarrow> length (data v) \<le> size_of v"
begin

lemma write_message:
  assumes "length buf = HEADER_SIZE + n"
  shows "write_message h (map wr vs) buf =
    (if length (concat (map data vs)) \<le> n
     then Some (header_bytes h @ concat (map data vs) @ drop (HEADER_SIZE + length (concat (map data vs))) buf, ()) else None)"
proof -
  have s: "slice buf 0 HEADER_SIZE = Some (take HEADER_SIZE buf)" using assms by (simp add: slice_def)
  have h: "serialize_into h (take HEADER_SIZE buf) = Some (header_bytes h)"
    using assms by (simp add: serialize_into_bytes HEADER_SIZE_def)
  have "list_all2 writes (map wr vs) (map data vs)"
    by (simp add: list_all2_conv_all_nth wr_data)
  from encode_all_writes [OF this, of "header_bytes h" "drop HEADER_SIZE buf"]
  have "encode_all (map wr vs) HEADER_SIZE (header_bytes h @ drop HEADER_SIZE buf) =
    (if length (concat (map data vs)) \<le> n
     then Some (header_bytes h @ concat (map data vs) @ drop (HEADER_SIZE + length (concat (map data vs))) buf,
       HEADER_SIZE + length (concat (map data vs))) else None)"
    using assms by (simp add: HEADER_SIZE_def add.commute)
  then show ?thesis by (simp add: write_message_def s h)
qed

lemma fits_total:
  assumes "\<forall>v \<in> set vs. fits v"
  shows "length (concat (map data vs)) \<le> sum_list (map size_of vs)"
  using length_concat_le_all [of vs data size_of] size_fits assms by auto

end

interpretation args: encode_impl schema string_table wf_ty has_type enc render encode_to encoded_size sized
  by unfold_locales (use encode_to_writes size_covers in auto)

lemmas write_message_exact = args.write_message [folded message_of_def]

context byte_ring
begin

text \<open>
  An enabled call with arguments the estimates cover: it returns, and adds its message to its
  thread's sequence or, in a full queue, nothing.
\<close>

lemma log_impl_holds:
  assumes H: "world_holds V w T" and st: "statics_ok cs st" and n: "length (site_types cs) < 256"
    and en: "enabled l (site_level cs)" and vs: "\<forall>v \<in> set vs. sized v"
    and total: "total_msg (map encoded_size vs) < 2 ^ 63" and g: "get_ctx R t w = (c, w1)"
  shows "\<exists>w'. log_impl R t cs a l now (map (\<lambda>v _. v) vs) (st, w) = Some (statics_set cs, w') \<and>
    (if frame_size (replicate (total_msg (map encoded_size vs)) 0) \<le> free_bytes V w1 c \<or>
        (mode c = UnboundedBlocking \<and> 0 < capacity c \<and> capacity c < MAX_BLOCK_CAPACITY \<and>
         frame_size (replicate (total_msg (map encoded_size vs)) 0) \<le> MAX_BLOCK_CAPACITY)
     then \<exists>rest. world_holds V w' (T(t := T t @ [message_of (header_new now (site_addr cs) a) vs rest]))
     else world_holds V w' T)"
proof -
  let ?n = "total_msg (map encoded_size vs)" and ?h = "header_new now (site_addr cs) a"
  let ?enc = "write_message ?h (map encode_to vs)"
  have w: "?enc p = Some (message_of ?h vs (drop (HEADER_SIZE + length (concat (map enc vs))) p), ())"
    if "length p = ?n" for p
    using write_message_exact [of p "sum_list (map encoded_size vs)" ?h vs] that args.fits_total [OF vs]
    by (simp add: total_msg_def)
  have "length (message_of ?h vs (drop (HEADER_SIZE + length (concat (map enc vs))) p)) = ?n"
    if "length p = ?n" for p
    using that args.fits_total [OF vs] by (simp add: message_of_def HEADER_SIZE_def total_msg_def)
  then have "delivers V (frame_size (replicate ?n 0)) (\<lambda>r. push_encoded R r ?n ?enc)
    (\<lambda>x m. length m = ?n \<and> (\<exists>p. length p = ?n \<and> ?enc p = Some (m, x)))"
    using w by (intro push_encoded_delivers total) blast
  from push_with_holds [OF H this g] obtain res w' where
    w': "ctx_push_encoded R t ?n ?enc w = Some (res, w')"
    "case res of Inl e \<Rightarrow> world_holds V w' T
     | Inr x \<Rightarrow> \<exists>d. (length d = ?n \<and> (\<exists>p. length p = ?n \<and> ?enc p = Some (d, x))) \<and>
         world_holds V w' (T(t := T t @ [d]))"
    "res \<noteq> Inl Full \<longleftrightarrow> frame_size (replicate ?n 0) \<le> free_bytes V w1 c \<or>
       (mode c = UnboundedBlocking \<and> 0 < capacity c \<and> capacity c < MAX_BLOCK_CAPACITY \<and>
        frame_size (replicate ?n 0) \<le> MAX_BLOCK_CAPACITY)"
    unfolding ctx_push_encoded_def by (elim exE conjE)
  have "log_impl R t cs a l now (map (\<lambda>v _. v) vs) (st, w) = Some (statics_set cs, w')"
    using en w'(1) by (simp add: log_impl_def statics_init [OF st n] comp_def)
  moreover have "if res \<noteq> Inl Full
      then \<exists>rest. world_holds V w' (T(t := T t @ [message_of ?h vs rest])) else world_holds V w' T"
  proof (cases res)
    case (Inl e)
    then show ?thesis using w'(2) by (cases e) simp
  next
    case (Inr x)
    then show ?thesis using w'(2) w by (auto dest!: w)
  qed
  ultimately show ?thesis using w'(3) by metis
qed

end

section \<open>Property\<close>

text \<open>C8: An enabled call whose arguments have correct size estimates returns without a panic. It sets
  the call site's schema bytes and string tables on its first run, and appends to its own thread's
  sequence one message with the time, the addresses of its metadata and of its logger, and then
  exactly the bytes of its arguments; it drops the message only where the queue mode allows. A
  call below the logger's level changes nothing, whatever its arguments are.\<close>

theorem log_call_delivers:
  assumes "byte_ring R V" and "world_holds V w T" and "statics_ok cs st" and "length (site_types cs) < 256"
    and "\<forall>v \<in> set vs. sized v" and "total_msg (map encoded_size vs) < 2 ^ 63" and "get_ctx R t w = (c, w1)"
  shows "if as_usize (log_level l) \<le> as_usize (site_level cs)
    then \<exists>w'. log_impl R t cs a l now (map (\<lambda>v _. v) vs) (st, w) = Some (statics_set cs, w') \<and>
      (if frame_size (replicate (total_msg (map encoded_size vs)) 0) \<le> free_bytes V w1 c \<or>
          (mode c = UnboundedBlocking \<and> 0 < capacity c \<and> capacity c < MAX_BLOCK_CAPACITY \<and>
           frame_size (replicate (total_msg (map encoded_size vs)) 0) \<le> MAX_BLOCK_CAPACITY)
       then \<exists>rest. world_holds V w' (T(t := T t @ [message_of (header_new now (site_addr cs) a) vs rest]))
       else world_holds V w' T)
    else log_impl R t cs a l now args (st, w) = Some (st, w)"
proof (cases "enabled l (site_level cs)")
  case True
  then show ?thesis
    using byte_ring.log_impl_holds [OF assms(1-4) True assms(5-7)] by (simp add: enabled_def)
next
  case False
  then show ?thesis by (simp add: log_impl_def enabled_def)
qed

text \<open>A call \<open>log_info!(logger, "n = {}, {:?}.", 5u8, true)\<close> in a thread with an empty ring.\<close>

definition sample_call :: CallSite where
  "sample_call = \<lparr>site_addr = 512, site_level = Info, site_fmt = str ''n = {}, {:?}.'', site_file = str ''a.rs'',
     site_line = 7, site_module = str ''m'', site_schema_addr = 4096, site_types = [UnsignedT 1, BoolT]\<rparr>"

definition sample_logger :: Logger where
  "sample_logger = \<lparr>logger_name = str ''app'', level_code = 4, sinks = [0], filters = []\<rparr>"

lemma sample_call_ok: "statics_ok sample_call \<lparr>SCHEMA_BYTES = None, STRING_TABLES = None\<rparr>"
  by (simp add: statics_ok_def)

theorem log_call_delivers_witness:
  "\<exists>w'. log_impl c_rtrb 0 sample_call 64 sample_logger 99 (map (\<lambda>v _. v) [UnsignedV 1 5, BoolV True])
      (\<lparr>SCHEMA_BYTES = None, STRING_TABLES = None\<rparr>, small_world BoundedDropping) = Some (statics_set sample_call, w') \<and>
    (\<exists>rest. world_holds c_view w' ((\<lambda>_. [])(0 :=
      [message_of (header_new 99 512 64) [UnsignedV 1 5, BoolV True] rest])))"
proof -
  have l: "as_usize (log_level sample_logger) \<le> as_usize (site_level sample_call)"
    by (simp add: log_level_def sample_logger_def sample_call_def from_usize_def)
  show ?thesis
    using log_call_delivers [OF cr.byte_ring_axioms small_world_holds sample_call_ok, of "[UnsignedV 1 5, BoolV True]"
        0 BoundedDropping _ _ sample_logger 64 99] l
    by (simp add: sample_call_def total_msg_def HEADER_SIZE_def size_for_k_def frame_size_def FRAME_HEADER_def)
qed

text \<open>With more than 255 arguments the first enabled call panics where arithmetic is checked.\<close>

lemma too_many_args_panic:
  "enabled l (site_level cs) \<Longrightarrow> SCHEMA_BYTES st = None \<Longrightarrow> 255 < length (site_types cs) \<Longrightarrow>
   log_impl R t cs a l now args (st, w) = None"
  by (simp add: log_impl_def init_schema_bytes_def)

end
