(* ===== verification/Formatter.thy ===== *)
theory Formatter
  imports Level Rust_Text
begin

text \<open>
  \<open>src/formatter.rs\<close>: the pattern formatter. A pattern is its list of \<open>char\<close>s (code points), the
  parsed pattern a list of segments, the result the bytes of a \<open>String\<close>. The calendar of the crate
  \<open>time\<close> (\<open>OffsetDateTime::from_unix_timestamp\<close>) is a parameter: a function from seconds since the
  epoch to the fields of a date, or none for a time it does not represent.
\<close>

section \<open>Parsing a pattern\<close>

datatype Segment =
    Literal "nat list"
  | Year | Month | Day | Hour | Minute | Second | WholeSecs | FracSec
  | LevelS | FileS | LineS | Body

definition percent :: nat where
  "percent = of_char (CHR ''%'')"

text \<open>The match on the character after a percent sign.\<close>

definition specifier :: "nat \<Rightarrow> Segment option" where
  "specifier c =
     (if c = of_char (CHR ''Y'') then Some Year
      else if c = of_char (CHR ''m'') then Some Month
      else if c = of_char (CHR ''d'') then Some Day
      else if c = of_char (CHR ''H'') then Some Hour
      else if c = of_char (CHR ''M'') then Some Minute
      else if c = of_char (CHR ''S'') then Some Second
      else if c = of_char (CHR ''s'') then Some WholeSecs
      else if c = of_char (CHR ''f'') then Some FracSec
      else if c = of_char (CHR ''l'') then Some LevelS
      else if c = of_char (CHR ''F'') then Some FileS
      else if c = of_char (CHR ''L'') then Some LineS
      else if c = of_char (CHR ''v'') then Some Body
      else None)"

text \<open>\<open>if !literal.is_empty() { segments.push(Literal(take(&mut literal))) }\<close>\<close>

definition flush_literal :: "nat list \<Rightarrow> Segment list" where
  "flush_literal literal = (if literal = [] then [] else [Literal literal])"

text \<open>The loop of \<open>PatternFormatter::new\<close>: the characters from position \<open>i\<close> on and the literal so far.\<close>

fun pattern_loop :: "nat list \<Rightarrow> nat list \<Rightarrow> Segment list" where
  "pattern_loop [] literal = flush_literal literal"
| "pattern_loop [c] literal = flush_literal (literal @ [c])"
| "pattern_loop (c # d # cs) literal =
     (if c = percent then
        flush_literal literal @
        (case specifier d of
           Some seg \<Rightarrow> seg # pattern_loop cs []
         | None \<Rightarrow> pattern_loop cs [percent, d])
      else pattern_loop (d # cs) (literal @ [c]))"

definition pattern_new :: "nat list \<Rightarrow> Segment list" where
  "pattern_new pattern = pattern_loop pattern []"

section \<open>Formatting a record\<close>

record FormattedRecord =
  timestamp_secs :: nat
  timestamp_nanos :: nat
  record_level :: LogLevel
  record_file :: bytes
  record_line :: nat
  record_body :: bytes

record date_time =
  year :: int
  month :: nat
  day :: nat
  hour :: nat
  minute :: nat
  second :: nat

type_synonym calendar = "int \<Rightarrow> date_time option"

text \<open>\<open>{:0w}\<close> of a signed number: the sign counts and comes before the zeros.\<close>

definition show_int_pad :: "nat \<Rightarrow> int \<Rightarrow> bytes" where
  "show_int_pad w i = (if i < 0 then str ''-'' @ show_pad (w - 1) (nat (- i)) else show_pad w (nat i))"

definition segment_text :: "date_time option \<Rightarrow> FormattedRecord \<Rightarrow> Segment \<Rightarrow> bytes" where
  "segment_text odt r seg =
     (case seg of
        Literal s \<Rightarrow> concat (map utf8_char s)
      | Year \<Rightarrow> (case odt of Some t \<Rightarrow> show_int_pad 4 (year t) | None \<Rightarrow> str ''????'')
      | Month \<Rightarrow> (case odt of Some t \<Rightarrow> show_pad 2 (month t) | None \<Rightarrow> str ''??'')
      | Day \<Rightarrow> (case odt of Some t \<Rightarrow> show_pad 2 (day t) | None \<Rightarrow> str ''??'')
      | Hour \<Rightarrow> (case odt of Some t \<Rightarrow> show_pad 2 (hour t) | None \<Rightarrow> str ''??'')
      | Minute \<Rightarrow> (case odt of Some t \<Rightarrow> show_pad 2 (minute t) | None \<Rightarrow> str ''??'')
      | Second \<Rightarrow> (case odt of Some t \<Rightarrow> show_pad 2 (second t) | None \<Rightarrow> str ''??'')
      | WholeSecs \<Rightarrow> show_nat (timestamp_secs r)
      | FracSec \<Rightarrow> show_pad 9 (timestamp_nanos r)
      | LevelS \<Rightarrow> level_name (record_level r)
      | FileS \<Rightarrow> record_file r
      | LineS \<Rightarrow> show_nat (record_line r)
      | Body \<Rightarrow> record_body r)"

definition pattern_format :: "calendar \<Rightarrow> Segment list \<Rightarrow> FormattedRecord \<Rightarrow> bytes" where
  "pattern_format cal segments r =
     (let odt = cal (as_i64 (timestamp_secs r)) in concat (map (segment_text odt r) segments))"

section \<open>What a pattern means\<close>

text \<open>
  The documented meaning, read off the pattern from left to right: a percent sign and one of the
  letters of the table stand for a field; everything else, also a percent sign at the end or
  before another character, stands for itself.
\<close>

fun expand :: "(Segment \<Rightarrow> bytes) \<Rightarrow> nat list \<Rightarrow> bytes" where
  "expand field [] = []"
| "expand field [c] = utf8_char c"
| "expand field (c # d # cs) =
     (if c = percent then
        (case specifier d of Some seg \<Rightarrow> field seg | None \<Rightarrow> utf8_char c @ utf8_char d) @ expand field cs
      else utf8_char c @ expand field (d # cs))"

lemma flush_literal_text: "concat (map (segment_text odt r) (flush_literal l)) = concat (map utf8_char l)"
  by (simp add: flush_literal_def segment_text_def)

lemma pattern_loop_text:
  "concat (map (segment_text odt r) (pattern_loop p l)) = concat (map utf8_char l) @ expand (segment_text odt r) p"
  by (induction p l rule: pattern_loop.induct) (auto simp: flush_literal_text split: option.split)

text \<open>The pattern that a list of segments comes from.\<close>

fun segment_source :: "Segment \<Rightarrow> nat list" where
  "segment_source (Literal s) = s"
| "segment_source Year = [percent, of_char (CHR ''Y'')]"
| "segment_source Month = [percent, of_char (CHR ''m'')]"
| "segment_source Day = [percent, of_char (CHR ''d'')]"
| "segment_source Hour = [percent, of_char (CHR ''H'')]"
| "segment_source Minute = [percent, of_char (CHR ''M'')]"
| "segment_source Second = [percent, of_char (CHR ''S'')]"
| "segment_source WholeSecs = [percent, of_char (CHR ''s'')]"
| "segment_source FracSec = [percent, of_char (CHR ''f'')]"
| "segment_source LevelS = [percent, of_char (CHR ''l'')]"
| "segment_source FileS = [percent, of_char (CHR ''F'')]"
| "segment_source LineS = [percent, of_char (CHR ''L'')]"
| "segment_source Body = [percent, of_char (CHR ''v'')]"

text \<open>Segments in the form the parser makes of literals without percent signs.\<close>

fun canonical :: "Segment list \<Rightarrow> bool" where
  "canonical [] \<longleftrightarrow> True"
| "canonical (Literal s # segs) \<longleftrightarrow>
     s \<noteq> [] \<and> percent \<notin> set s \<and> (case segs of Literal _ # _ \<Rightarrow> False | _ \<Rightarrow> True) \<and> canonical segs"
| "canonical (seg # segs) \<longleftrightarrow> canonical segs"

lemma pattern_loop_literal:
  "percent \<notin> set s \<Longrightarrow> pattern_loop (s @ p) l = pattern_loop p (l @ s)"
proof (induction s arbitrary: l)
  case (Cons c s)
  then have "pattern_loop (s @ p) (l @ [c]) = pattern_loop p (l @ c # s)" by simp
  then show ?case
    using Cons.prems by (cases "s @ p") (auto simp: flush_literal_def)
qed simp

lemma segment_source_specifier:
  "\<nexists>s. seg = Literal s \<Longrightarrow> \<exists>d. segment_source seg = [percent, d] \<and> specifier d = Some seg"
  by (cases seg) (auto simp: specifier_def)

lemma pattern_loop_field:
  "\<nexists>s. seg = Literal s \<Longrightarrow>
   pattern_loop (segment_source seg @ p) l = flush_literal l @ seg # pattern_loop p []"
  using segment_source_specifier [of seg] by auto

lemma pattern_loop_source:
  "canonical segs \<Longrightarrow> pattern_loop (concat (map segment_source segs)) [] = segs"
proof (induction segs rule: canonical.induct)
  case (2 s segs)
  then have ih: "pattern_loop (concat (map segment_source segs)) [] = segs" "s \<noteq> []" "percent \<notin> set s"
    by auto
  show ?case
  proof (cases segs)
    case Nil
    then show ?thesis using pattern_loop_literal [of s "[]" "[]"] ih by (simp add: flush_literal_def)
  next
    case (Cons seg segs')
    then have "\<nexists>s. seg = Literal s" using "2.prems" by (auto split: Segment.splits)
    then show ?thesis
      using pattern_loop_literal [OF ih(3), of "concat (map segment_source segs)" "[]"] ih(1,2) Cons
        pattern_loop_field [of seg "concat (map segment_source segs')"]
      by (simp add: flush_literal_def)
  qed
qed (simp_all add: percent_def specifier_def flush_literal_def)

section \<open>Properties\<close>

text \<open>C32: Parsing a pattern and formatting a record with the segments gives what the pattern says
  when it is read from left to right: each known specifier is replaced by its field, everything
  else stays as it is.\<close>

theorem pattern_expands:
  "pattern_format cal (pattern_new p) r =
     expand (segment_text (cal (as_i64 (timestamp_secs r))) r) p"
  by (simp add: pattern_format_def pattern_new_def pattern_loop_text Let_def)

text \<open>C33: The parser gives back the segments a pattern was written from: literals are kept in one
  piece, no specifier is lost or split.\<close>

theorem pattern_roundtrip:
  assumes "canonical segs"
  shows "pattern_new (concat (map segment_source segs)) = segs"
  using pattern_loop_source [OF assms] by (simp add: pattern_new_def)

theorem pattern_roundtrip_witness:
  "pattern_new (map of_char ''[%H:%M] %v'') =
     [Literal [91], Hour, Literal [58], Minute, Literal [93, 32], Body]"
  using pattern_roundtrip [of "[Literal [91], Hour, Literal [58], Minute, Literal [93, 32], Body]"]
  by (simp add: percent_def)

end
