(* ===== verification/Timestamp.thy ===== *)
theory Timestamp
  imports Complex_Main Rust_Text
begin

text \<open>
  \<open>src/timestamp.rs\<close>: the clock read by the logging thread and its conversion on the backend, in
  both configurations: the system clock, and the time stamp counter of \<open>x86_64\<close> (feature
  \<open>tsc_clock\<close>). Readings of the wall clock and of the counter are arguments; a wall clock reading
  is in nanoseconds since the epoch and may be negative. Signed 64-bit overflow is a panic.
\<close>

section \<open>System clock\<close>

text \<open>\<open>duration_since(UNIX_EPOCH).unwrap_or_default().as_nanos() as u64\<close>\<close>

definition system_time_ns :: "int \<Rightarrow> nat" where
  "system_time_ns wall = (if wall < 0 then 0 else nat wall mod 2 ^ 64)"

definition now_system :: "int \<Rightarrow> nat" where
  "now_system wall = system_time_ns wall"

definition to_display_nanos :: "nat \<Rightarrow> nat" where
  "to_display_nanos raw = raw"

section \<open>Time stamp counter\<close>

record TscCalibration =
  offset_ns :: int
  period_ps :: nat

definition checked_i64 :: "int \<Rightarrow> int option" where
  "checked_i64 i = (if - (2 ^ 63) \<le> i \<and> i < 2 ^ 63 then Some i else None)"

text \<open>
  \<open>calibrate_tsc\<close> from its two readings of the counter and of the wall clock. Division by a counter
  that did not move is a panic.
\<close>

definition calibrate_tsc :: "nat \<Rightarrow> nat \<Rightarrow> nat \<Rightarrow> nat \<Rightarrow> TscCalibration option" where
  "calibrate_tsc tsc1 wall1 tsc2 wall2 =
     (let tsc_delta = (tsc2 + 2 ^ 64 - tsc1) mod 2 ^ 64;
          wall_delta = max 1 (wall2 - wall1)
      in if tsc_delta = 0 then None
         else let period = (wall_delta * 1000 div tsc_delta) mod 2 ^ 64;
                  ns_correction = as_i64 (tsc1 * period div 1000)
           in map_option (\<lambda>off. \<lparr>offset_ns = off, period_ps = period\<rparr>)
                (checked_i64 (as_i64 wall1 - ns_correction)))"

definition now_tsc :: "nat \<Rightarrow> nat" where
  "now_tsc tsc = tsc"

text \<open>
  \<open>to_display_nanos\<close> with the counter: the state is the \<open>OnceLock\<close> with the calibration, made on the
  first call; \<open>wall\<close> is the reading of the fallback.
\<close>

definition to_display_nanos_tsc ::
    "(unit \<Rightarrow> TscCalibration option) \<Rightarrow> int \<Rightarrow> nat \<Rightarrow> TscCalibration option \<Rightarrow>
     (nat \<times> TscCalibration option) option" where
  "to_display_nanos_tsc calibrate wall raw state =
     do {
       cal \<leftarrow> (case state of Some c \<Rightarrow> Some c | None \<Rightarrow> calibrate ());
       if period_ps cal = 0 then Some (system_time_ns wall, Some cal)
       else do {
         let ns_since_cal = as_i64 (raw * period_ps cal div 1000);
         i \<leftarrow> checked_i64 (offset_ns cal + ns_since_cal);
         Some (nat (i mod 2 ^ 64), Some cal)
       }
     }"

section \<open>Accuracy of the counter\<close>

lemma checked_i64_nat: "n < 2 ^ 63 \<Longrightarrow> checked_i64 (int n) = Some (int n)"
  by (simp add: checked_i64_def)

lemma checked_i64_diff: "m < 2 ^ 62 \<Longrightarrow> n < 2 ^ 62 \<Longrightarrow> checked_i64 (int m - int n) = Some (int m - int n)"
  by (simp add: checked_i64_def)

lemma calibrate_tsc_moves:
  assumes "tsc1 < tsc2" "tsc2 < 2 ^ 64" "wall1 < wall2" "wall2 < 2 ^ 62"
    and p: "p = (wall2 - wall1) * 1000 div (tsc2 - tsc1)" "p < 2 ^ 64" "tsc1 * p div 1000 < 2 ^ 62"
  shows "calibrate_tsc tsc1 wall1 tsc2 wall2 =
    Some \<lparr>offset_ns = int wall1 - int (tsc1 * p div 1000), period_ps = p\<rparr>"
proof -
  have "(tsc2 + 2 ^ 64 - tsc1) mod 2 ^ 64 = (tsc2 - tsc1 + 2 ^ 64) mod 2 ^ 64"
    using assms(1) by (simp add: add.commute)
  also have "\<dots> = tsc2 - tsc1" using assms(1,2) by (simp only: mod_add_self2) simp
  finally have d: "(tsc2 + 2 ^ 64 - tsc1) mod 2 ^ 64 = tsc2 - tsc1" .
  have w: "max 1 (wall2 - wall1) = wall2 - wall1" using assms(3) by simp
  have c: "as_i64 (tsc1 * p div 1000) = int (tsc1 * p div 1000)" "as_i64 wall1 = int wall1"
    using p(3) assms(3,4) by (simp_all add: as_i64_small)
  have "checked_i64 (int wall1 - int (tsc1 * p div 1000)) = Some (int wall1 - int (tsc1 * p div 1000))"
    using p(3) assms(3,4) by (intro checked_i64_diff) simp_all
  then show ?thesis
    unfolding calibrate_tsc_def d w p(1) [symmetric] mod_less [OF p(2)] c Let_def
    using assms(1) by simp
qed

lemma div_1000_diff:
  fixes a b p :: nat
  assumes "a \<le> b"
  shows "(b - a) * p div 1000 \<le> b * p div 1000 - a * p div 1000"
    "b * p div 1000 - a * p div 1000 \<le> (b - a) * p div 1000 + 1"
proof -
  have "b * p = a * p + (b - a) * p" using assms by (metis add_mult_distrib le_add_diff_inverse)
  then show "(b - a) * p div 1000 \<le> b * p div 1000 - a * p div 1000"
    "b * p div 1000 - a * p div 1000 \<le> (b - a) * p div 1000 + 1"
    by linarith+
qed

lemma real_div_bounds:
  fixes n m :: nat
  shows "real (n div m) \<le> real n / real m" "real n / real m \<le> real (n div m) + 1"
  using real_of_int_div4 [of "int n" "int m"] real_of_int_div3 [of "int n" "int m"]
  by (simp_all add: zdiv_int [symmetric])

lemma truncated_period:
  fixes t T W :: nat
  assumes "p = W * 1000 div T"
  shows "real t * real p / 1000 \<le> real t * real W / real T"
    "real t * real W / real T \<le> real t * (real p + 1) / 1000"
proof -
  define r where "r = real W / real T"
  have "real p \<le> 1000 * r" "1000 * r \<le> real p + 1"
    using real_div_bounds [of "W * 1000" T] by (simp_all add: assms r_def mult.commute)
  then have "real t * real p \<le> real t * (1000 * r)" "real t * (1000 * r) \<le> real t * (real p + 1)"
    by (intro mult_left_mono; simp)+
  then show "real t * real p / 1000 \<le> real t * real W / real T"
    "real t * real W / real T \<le> real t * (real p + 1) / 1000"
    by (simp_all add: r_def mult_ac)
qed

lemma display_tsc:
  assumes "tsc1 \<le> raw" "wall1 < 2 ^ 62" "0 < p" "raw * p div 1000 < 2 ^ 62"
  shows "to_display_nanos_tsc calib wall raw
      (Some \<lparr>offset_ns = int wall1 - int (tsc1 * p div 1000), period_ps = p\<rparr>) =
    Some (wall1 + (raw * p div 1000 - tsc1 * p div 1000),
      Some \<lparr>offset_ns = int wall1 - int (tsc1 * p div 1000), period_ps = p\<rparr>)"
proof -
  have le: "tsc1 * p div 1000 \<le> raw * p div 1000" using assms(1) by (intro div_le_mono mult_le_mono1)
  define d where "d = raw * p div 1000 - tsc1 * p div 1000"
  have d: "int wall1 - int (tsc1 * p div 1000) + int (raw * p div 1000) = int (wall1 + d)"
    using le by (simp add: d_def)
  have "d < 2 ^ 62" using assms(4) by (simp add: d_def)
  then have b: "wall1 + d < 2 ^ 63" using assms(2) by simp
  then have "checked_i64 (int (wall1 + d)) = Some (int (wall1 + d))"
    by (rule checked_i64_nat)
  moreover have "nat (int (wall1 + d) mod 2 ^ 64) = wall1 + d"
    using b by (simp add: nat_mod_distrib nat_power_eq)
  moreover have "as_i64 (raw * p div 1000) = int (raw * p div 1000)"
    using assms(4) by (intro as_i64_small) simp
  ultimately show ?thesis
    unfolding to_display_nanos_tsc_def d_def [symmetric] Let_def
    using assms(3) by (simp add: d del: of_nat_add)
qed

text \<open>A counter at 3 GHz, calibrated over a millisecond: a day later the display is 86 seconds behind.\<close>

lemma tsc_drifts_over_a_minute_a_day:
  "calibrate_tsc (3 * 10 ^ 12) (17 * 10 ^ 17) (3 * 10 ^ 12 + 3 * 10 ^ 6) (17 * 10 ^ 17 + 10 ^ 6) =
     Some \<lparr>offset_ns = 1699999001000000000, period_ps = 333\<rparr>"
  "to_display_nanos_tsc calib wall (3 * 10 ^ 12 + 86400 * (3 * 10 ^ 9))
     (Some \<lparr>offset_ns = 1699999001000000000, period_ps = 333\<rparr>) =
     Some (17 * 10 ^ 17 + 86313600000000, Some \<lparr>offset_ns = 1699999001000000000, period_ps = 333\<rparr>)"
  by (simp_all add: calibrate_tsc_def to_display_nanos_tsc_def as_i64_def checked_i64_def)

section \<open>Property\<close>

text \<open>C34: With the counter as clock, calibrated by two readings over which neither clock stands still
  and within the first \<open>2 ^ 62\<close> nanoseconds, the time displayed for a later reading of the counter
  is never more than a nanosecond ahead of the time that the measured frequency gives, and behind
  it by at most one nanosecond and one for every thousand ticks since the calibration (the period
  is cut to whole picoseconds); a later reading is never displayed as an earlier time.\<close>

theorem tsc_display_bounds:
  assumes "tsc1 < tsc2" "tsc2 < 2 ^ 64" "wall1 < wall2" "wall2 < 2 ^ 62"
    and "p = (wall2 - wall1) * 1000 div (tsc2 - tsc1)" "0 < p" "p < 2 ^ 64"
    and "tsc1 \<le> raw" "raw \<le> raw'" "raw' * p div 1000 < 2 ^ 62"
  defines "elapsed \<equiv> real (raw - tsc1) * real (wall2 - wall1) / real (tsc2 - tsc1)"
  shows "\<exists>cal shown shown'. calibrate_tsc tsc1 wall1 tsc2 wall2 = Some cal \<and>
    to_display_nanos_tsc calib wall raw (Some cal) = Some (shown, Some cal) \<and>
    to_display_nanos_tsc calib wall raw' (Some cal) = Some (shown', Some cal) \<and> shown \<le> shown' \<and>
    real shown \<le> real wall1 + elapsed + 1 \<and>
    real wall1 + elapsed - real (raw - tsc1) / 1000 - 1 \<le> real shown"
proof -
  have w: "wall1 < 2 ^ 62" using assms(3,4) by simp
  have mono: "raw * p div 1000 \<le> raw' * p div 1000" "tsc1 * p div 1000 \<le> raw * p div 1000"
    using assms(8,9) by (intro div_le_mono mult_le_mono1; simp)+
  have r: "raw * p div 1000 < 2 ^ 62" "tsc1 * p div 1000 < 2 ^ 62" using mono assms(10) by linarith+
  let ?T = "tsc2 - tsc1" and ?W = "wall2 - wall1" and ?t = "raw - tsc1"
  define s where "s = raw * p div 1000 - tsc1 * p div 1000"
  have s: "?t * p div 1000 \<le> s" "s \<le> ?t * p div 1000 + 1"
    using div_1000_diff [OF assms(8), of p] by (simp_all add: s_def)
  have up: "real ?t * real p / 1000 \<le> elapsed" and lo: "elapsed \<le> real ?t * (real p + 1) / 1000"
    using truncated_period [OF assms(5), of ?t] by (simp_all only: elapsed_def)
  have fl: "real (?t * p div 1000) \<le> real ?t * real p / 1000" "real ?t * real p / 1000 \<le> real (?t * p div 1000) + 1"
    using real_div_bounds [of "?t * p" 1000] by simp_all
  have "real s \<le> elapsed + 1"
    using s(2) fl(1) up by linarith
  moreover have "elapsed - real ?t / 1000 - 1 \<le> real s"
  proof -
    have "real ?t * (real p + 1) / 1000 = real ?t * real p / 1000 + real ?t / 1000"
      by (simp add: distrib_left add_divide_distrib)
    then show ?thesis using s(1) fl(2) lo by linarith
  qed
  moreover note calibrate_tsc_moves [OF assms(1-5,7) r(2)]
    display_tsc [OF assms(8) w assms(6) r(1), of calib wall, folded s_def]
    display_tsc [OF order_trans [OF assms(8,9)] w assms(6,10), of calib wall]
  moreover have "s \<le> raw' * p div 1000 - tsc1 * p div 1000" unfolding s_def by (rule diff_le_mono [OF mono(1)])
  ultimately show ?thesis by fastforce
qed

text \<open>At 3 GHz, a millisecond of calibration, and a reading one second later.\<close>

theorem tsc_display_bounds_witness:
  "\<exists>cal shown shown'. calibrate_tsc 3000000 5000 6000000 1005000 = Some cal \<and>
    to_display_nanos_tsc (\<lambda>_. None) 0 3003000000 (Some cal) = Some (shown, Some cal) \<and>
    to_display_nanos_tsc (\<lambda>_. None) 0 3003000003 (Some cal) = Some (shown', Some cal) \<and> shown \<le> shown' \<and>
    real shown \<le> 5000 + 10 ^ 9 + 1 \<and> 5000 + 10 ^ 9 - 3000000 - 1 \<le> real shown"
  using tsc_display_bounds [of 3000000 6000000 5000 1005000 333 3003000000 3003000003 "\<lambda>_. None" 0]
  by simp

end
