(* ===== verification/Backend.thy ===== *)
theory Backend
  imports Log_Macro Formatter Timestamp "HOL-Library.Multiset"
begin

text \<open>
  \<open>src/backend.rs\<close>: the worker that polls the queues, orders a batch by time, checks levels and
  filters, formats and hands the text to the sinks.

  The model returns the calls of \<open>Sink::write\<close> in order, each with the address of the sink. What the
  worker reads of its surroundings is a \<open>host\<close>: the conversion of time stamps, the calendar, the
  printing of floats, and what is behind the two pointers of a header (no value: a dangling
  pointer, on which the model stops). Levels and filters of loggers may change while the worker runs: it
  meets one host at each message it handles. The results of the loads of the stop flag and of the polls
  are a list of \<open>tick\<close>s.
\<close>

section \<open>Options and handle\<close>

record BackendOptions =
  sleep_duration_ms :: nat
  min_batch_size :: nat
  pattern_formatter :: "Segment list option"

definition DEFAULT_MIN_BATCH_SIZE :: nat where
  "DEFAULT_MIN_BATCH_SIZE = 256"

definition default_options :: BackendOptions where
  "default_options =
     \<lparr>sleep_duration_ms = 1, min_batch_size = DEFAULT_MIN_BATCH_SIZE, pattern_formatter = None\<rparr>"

record host =
  to_display :: "nat \<Rightarrow> nat"
  host_calendar :: calendar
  floats :: float_printer
  metadata_at :: "nat \<rightharpoonup> Metadata"
  logger_at :: "nat \<rightharpoonup> Logger"

section \<open>Formatting\<close>

definition default_text :: "nat \<Rightarrow> nat \<Rightarrow> Metadata \<Rightarrow> bytes \<Rightarrow> bytes" where
  "default_text secs nanos md body =
     str ''['' @ show_nat secs @ str ''.'' @ show_pad 9 nanos @ str ''] ['' @ level_name (level md) @ str ''] '' @
     source_file md @ str '':'' @ show_nat (line md) @ str '' '' @ body"

text \<open>The end of \<open>format_message\<close>: the body in the pattern or in the default form.\<close>

definition finish_message ::
    "host \<Rightarrow> Segment list option \<Rightarrow> nat \<Rightarrow> Metadata \<Rightarrow> bytes \<Rightarrow> bytes" where
  "finish_message host formatter raw_time md body =
     (let display_ns = to_display host raw_time;
          secs = display_ns div 10 ^ 9;
          nanos = display_ns mod 10 ^ 9
      in case formatter of
           Some fmtr \<Rightarrow> pattern_format (host_calendar host) fmtr
             \<lparr>timestamp_secs = secs, timestamp_nanos = nanos, record_level = level md,
              record_file = source_file md, record_line = line md, record_body = body\<rparr>
         | None \<Rightarrow> default_text secs nanos md body)"

definition format_message ::
    "host \<Rightarrow> Segment list option \<Rightarrow> ArchivedHeader \<Rightarrow> bytes \<Rightarrow> offset_cache \<Rightarrow> (bytes \<times> offset_cache) option" where
  "format_message host formatter archived payload cache =
     do {
       md \<leftarrow> metadata_at host (metadata_ptr archived);
       (body, cache') \<leftarrow> format_body (floats host) md payload cache;
       Some (finish_message host formatter (timestamp_ns archived) md body, cache')
     }"

section \<open>A batch\<close>

type_synonym sink_calls = "(nat \<times> bytes) list"

text \<open>One turn of the loop over the ordered batch.\<close>

definition deliver ::
    "host \<Rightarrow> Segment list option \<Rightarrow> ArchivedHeader \<times> bytes \<Rightarrow> sink_calls \<times> offset_cache \<Rightarrow>
     (sink_calls \<times> offset_cache) option" where
  "deliver host formatter = (\<lambda>(archived, data) (calls, cache).
     do {
       md \<leftarrow> metadata_at host (metadata_ptr archived);
       l \<leftarrow> logger_at host (logger_ptr archived);
       if as_usize (level md) < as_usize (log_level l) then Some (calls, cache)
       else do {
         payload \<leftarrow> slice_from data HEADER_SIZE;
         if \<not> filter_pass l md payload then Some (calls, cache)
         else do {
           (text, cache') \<leftarrow> format_message host formatter archived payload cache;
           Some (calls @ map (\<lambda>s. (s, text)) (sinks l), cache')
         }
       }
     })"

text \<open>
  The loop over a batch. The state is the number of messages handled so far, the calls made and the
  offset cache; message \<open>n\<close> is handled in the surroundings \<open>hosts n\<close>.
\<close>

type_synonym run = "nat \<times> sink_calls \<times> offset_cache"

fun deliver_all ::
    "(nat \<Rightarrow> host) \<Rightarrow> Segment list option \<Rightarrow> (ArchivedHeader \<times> bytes) list \<Rightarrow> run \<Rightarrow> run option" where
  "deliver_all hosts formatter [] st = Some st"
| "deliver_all hosts formatter (m # ms) (n, out) =
     do { out' \<leftarrow> deliver (hosts n) formatter m out; deliver_all hosts formatter ms (Suc n, out') }"

text \<open>
  \<open>sort_unstable_by_key\<close> is documented to sort by the key and to be free in the order of equal
  keys: any function that permutes its argument into an order by time may stand for it.
\<close>

type_synonym batch_sort = "(ArchivedHeader \<times> bytes) list \<Rightarrow> (ArchivedHeader \<times> bytes) list"

definition sorts_by_time :: "batch_sort \<Rightarrow> bool" where
  "sorts_by_time srt \<longleftrightarrow>
     (\<forall>xs. mset (srt xs) = mset xs \<and> sorted (map (\<lambda>(m, _). timestamp_ns m) (srt xs)))"

text \<open>Messages too short for a header are dropped.\<close>

definition decode_raws :: "bytes list \<Rightarrow> (ArchivedHeader \<times> bytes) list" where
  "decode_raws raws = List.map_filter (\<lambda>raw. map_option (\<lambda>header. (header, raw)) (decode raw)) raws"

definition process_batch ::
    "(nat \<Rightarrow> host) \<Rightarrow> batch_sort \<Rightarrow> Segment list option \<Rightarrow> bytes list \<Rightarrow> run \<Rightarrow> run option" where
  "process_batch hosts srt formatter raws = deliver_all hosts formatter (srt (decode_raws raws))"

section \<open>The worker\<close>

text \<open>One load of the stop flag and, when it is not set, the result of the poll after it.\<close>

record tick =
  stop_loaded :: bool
  polled :: "bytes list"

text \<open>The inner loop: poll on until the batch is large enough, a poll is empty or the flag is set.\<close>

fun gather :: "nat \<Rightarrow> bytes list \<Rightarrow> tick list \<Rightarrow> bytes list \<times> tick list" where
  "gather min_batch raws [] = (raws, [])"
| "gather min_batch raws (t # ts) =
     (if length raws < min_batch then
        if stop_loaded t then (raws, ts)
        else if polled t = [] then (raws, ts)
        else gather min_batch (raws @ polled t) ts
      else (raws, t # ts))"

lemma length_gather: "length (snd (gather n raws ts)) \<le> length ts"
  by (induction n raws ts rule: gather.induct) auto

text \<open>The worker stops when the flag is set, or where the given ticks end.\<close>

function worker_loop ::
    "(nat \<Rightarrow> host) \<Rightarrow> batch_sort \<Rightarrow> BackendOptions \<Rightarrow> tick list \<Rightarrow> run \<Rightarrow> run option" where
  "worker_loop hosts srt opts [] st = Some st"
| "worker_loop hosts srt opts (t # ts) st =
     (if stop_loaded t then Some st
      else if polled t = [] then worker_loop hosts srt opts ts st
      else let (raws, ts') = gather (min_batch_size opts) (polled t) ts
           in do {
             st' \<leftarrow> process_batch hosts srt (pattern_formatter opts) raws st;
             worker_loop hosts srt opts ts' st'
           })"
  by pat_completeness auto
termination
  by (relation "measure (\<lambda>(h, s, opts, ts, st). length ts)")
    (use length_gather in \<open>fastforce simp: less_Suc_eq_le dest: arg_cong [where f = snd]\<close>)+

section \<open>Handle\<close>

text \<open>The handle: whether the thread is still to be joined, and the stop flag it shares.\<close>

record BackendHandle =
  joinable :: bool
  stop_signal :: bool

definition backend_start :: BackendHandle where
  "backend_start = \<lparr>joinable = True, stop_signal = False\<rparr>"

definition handle_stop :: "BackendHandle \<Rightarrow> BackendHandle" where
  "handle_stop h = h\<lparr>stop_signal := True\<rparr>"

text \<open>\<open>join\<close> waits for the worker and passes its panic on (\<open>unwrap\<close>); a second call does nothing.\<close>

definition handle_join :: "'w option \<Rightarrow> BackendHandle \<Rightarrow> BackendHandle option" where
  "handle_join worker_result h =
     (if joinable h then (case worker_result of None \<Rightarrow> None | Some _ \<Rightarrow> Some (h\<lparr>joinable := False\<rparr>))
      else Some h)"

definition handle_drop :: "'w option \<Rightarrow> BackendHandle \<Rightarrow> BackendHandle option" where
  "handle_drop worker_result h = handle_join worker_result (handle_stop h)"

end
