(* ===== verification/Delivery.thy ===== *)
theory Delivery
  imports Backend
begin

text \<open>
  What the worker does with the messages of log calls: the reference text and the reference calls
  of sinks for one logged event, and the proof that a batch, and a run of the worker, make exactly
  these calls, ordered by time within a batch.
\<close>

section \<open>Events\<close>

text \<open>
  One enabled log call: the time, the addresses of metadata and logger, the values, the rest of its
  slot; and, of its call site, the argument types and the format string cut at its placeholders.
\<close>

record event =
  ev_time :: nat
  ev_site :: nat
  ev_logger :: nat
  ev_values :: "rval list"
  ev_rest :: bytes
  ev_types :: "rty list"
  ev_parts :: "(bytes \<times> bytes) list"
  ev_tail :: bytes

definition ev_header :: "event \<Rightarrow> ArchivedHeader" where
  "ev_header e = header_new (ev_time e) (ev_site e) (ev_logger e)"

definition ev_raw :: "event \<Rightarrow> bytes" where
  "ev_raw e = message_of (ev_header e) (ev_values e) (ev_rest e)"

text \<open>The event comes from a call site and a logger the host knows, with well-typed arguments.\<close>

definition ev_ok :: "host \<Rightarrow> (nat \<rightharpoonup> bytes) \<Rightarrow> event \<Rightarrow> bool" where
  "ev_ok host mem e \<longleftrightarrow> header_ok (ev_header e) \<and> logger_at host (ev_logger e) \<noteq> None \<and>
     (case metadata_at host (ev_site e) of
        None \<Rightarrow> False
      | Some md \<Rightarrow>
          site_ok md (ev_types e) \<and> mem (fst (schema_provider md)) = Some (schema_bytes (ev_types e)) \<and>
          list_all2 has_type (ev_values e) (ev_types e) \<and>
          format_str md = template (ev_parts e) (ev_tail e) \<and> template_ok (ev_parts e) (ev_tail e))"

text \<open>What is to be written for an event, to whom, and whether at all.\<close>

definition ev_text :: "host \<Rightarrow> Segment list option \<Rightarrow> event \<Rightarrow> bytes" where
  "ev_text host formatter e =
     (let md = the (metadata_at host (ev_site e))
      in finish_message host formatter (ev_time e) md
           (call_text (floats host) md (ev_types e) (ev_values e) (ev_parts e) (ev_tail e)))"

definition accepted :: "host \<Rightarrow> event \<Rightarrow> bool" where
  "accepted host e =
     (let md = the (metadata_at host (ev_site e)); l = the (logger_at host (ev_logger e))
      in log_level l \<le> level md \<and>
         list_all (\<lambda>f. f md (concat (map enc (ev_values e)) @ ev_rest e)) (filters l))"

definition ev_calls :: "host \<Rightarrow> Segment list option \<Rightarrow> event \<Rightarrow> sink_calls" where
  "ev_calls host formatter e =
     (if accepted host e
      then map (\<lambda>s. (s, ev_text host formatter e)) (sinks (the (logger_at host (ev_logger e)))) else [])"

section \<open>One message\<close>

lemma decode_ev_raw: "ev_ok host mem e \<Longrightarrow> decode (ev_raw e) = Some (ev_header e)"
  by (simp add: ev_raw_def message_of_def decode_bytes ev_ok_def)

lemma deliver_event:
  assumes "ev_ok host mem e" "cache_ok mem cache"
  shows "\<exists>cache'. deliver host formatter (ev_header e, ev_raw e) (calls, cache) =
      Some (calls @ ev_calls host formatter e, cache') \<and> cache_ok mem cache'"
proof -
  obtain md l where md: "metadata_at host (ev_site e) = Some md" "logger_at host (ev_logger e) = Some l"
      "site_ok md (ev_types e)" "mem (fst (schema_provider md)) = Some (schema_bytes (ev_types e))"
      "list_all2 has_type (ev_values e) (ev_types e)"
      "format_str md = template (ev_parts e) (ev_tail e)" "template_ok (ev_parts e) (ev_tail e)"
    using assms(1) by (auto simp: ev_ok_def split: option.splits)
  let ?p = "concat (map enc (ev_values e)) @ ev_rest e"
  have h: "metadata_ptr (ev_header e) = ev_site e" "logger_ptr (ev_header e) = ev_logger e"
      "timestamp_ns (ev_header e) = ev_time e"
    by (simp_all add: ev_header_def header_new_def)
  have p: "slice_from (ev_raw e) HEADER_SIZE = Some ?p"
    by (simp add: ev_raw_def message_of_def HEADER_SIZE_def slice_from_append_eq)
  obtain cache' where b: "format_body (floats host) md ?p cache =
      Some (call_text (floats host) md (ev_types e) (ev_values e) (ev_parts e) (ev_tail e), cache')"
      "cache_ok mem cache'"
    using types.body_text [OF md(3) assms(2) md(4-7)] by blast
  have f: "format_message host formatter (ev_header e) ?p cache = Some (ev_text host formatter e, cache')"
    by (simp add: format_message_def h md(1) b(1) ev_text_def)
  have a: "accepted host e \<longleftrightarrow> \<not> as_usize (level md) < as_usize (log_level l) \<and> filter_pass l md ?p"
    by (simp add: accepted_def md filter_pass_def level_order not_less)
  show ?thesis
  proof (cases "accepted host e")
    case True
    then show ?thesis
      using a b(2) by (simp add: deliver_def h md(1,2) p f ev_calls_def)
  next
    case False
    then show ?thesis
      using a assms(2) by (auto simp: deliver_def h md(1,2) p ev_calls_def)
  qed
qed

text \<open>The calls of a sequence of events, the first of which is the \<open>n\<close>-th that the worker handles.\<close>

fun calls_at :: "(nat \<Rightarrow> host) \<Rightarrow> Segment list option \<Rightarrow> nat \<Rightarrow> event list \<Rightarrow> sink_calls" where
  "calls_at hosts formatter n [] = []"
| "calls_at hosts formatter n (e # es) = ev_calls (hosts n) formatter e @ calls_at hosts formatter (Suc n) es"

lemma calls_at_append [simp]:
  "calls_at hosts formatter n (xs @ ys) = calls_at hosts formatter n xs @ calls_at hosts formatter (n + length xs) ys"
  by (induction xs arbitrary: n) auto

lemma calls_at_same: "calls_at (\<lambda>_. host) formatter n es = concat (map (ev_calls host formatter) es)"
  by (induction es arbitrary: n) auto

text \<open>The event is in order in the surroundings of every moment.\<close>

definition always_ok :: "(nat \<Rightarrow> host) \<Rightarrow> (nat \<rightharpoonup> bytes) \<Rightarrow> event \<Rightarrow> bool" where
  "always_ok hosts mem e \<longleftrightarrow> (\<forall>n. ev_ok (hosts n) mem e)"

lemma always_same [simp]: "always_ok (\<lambda>_. host) mem = ev_ok host mem"
  by (simp add: always_ok_def fun_eq_iff)

lemma always_decode: "always_ok hosts mem e \<Longrightarrow> decode (ev_raw e) = Some (ev_header e)"
  using decode_ev_raw by (auto simp: always_ok_def)

lemma deliver_all_events:
  "\<forall>e \<in> set es. always_ok hosts mem e \<Longrightarrow> cache_ok mem cache \<Longrightarrow>
   \<exists>cache'. deliver_all hosts formatter (map (\<lambda>e. (ev_header e, ev_raw e)) es) (n, calls, cache) =
     Some (n + length es, calls @ calls_at hosts formatter n es, cache') \<and> cache_ok mem cache'"
proof (induction es arbitrary: n calls cache)
  case (Cons e es)
  obtain c1 where c1: "deliver (hosts n) formatter (ev_header e, ev_raw e) (calls, cache) =
      Some (calls @ ev_calls (hosts n) formatter e, c1)" "cache_ok mem c1"
    using deliver_event [of "hosts n" mem e cache formatter calls] Cons.prems by (auto simp: always_ok_def)
  show ?case
    using Cons.IH [of c1 "Suc n" "calls @ ev_calls (hosts n) formatter e"] Cons.prems(1) c1 by auto
qed simp

section \<open>One batch\<close>

lemma decode_raws_events:
  "\<forall>e \<in> set es. always_ok hosts mem e \<Longrightarrow> decode_raws (map ev_raw es) = map (\<lambda>e. (ev_header e, ev_raw e)) es"
  by (induction es) (auto simp: decode_raws_def List.map_filter_def dest: always_decode)

lemma mset_map_preimage: "mset ys = mset (map f xs) \<Longrightarrow> \<exists>zs. mset zs = mset xs \<and> ys = map f zs"
proof (induction ys arbitrary: xs)
  case (Cons y ys)
  have "y \<in># mset (map f xs)" using Cons.prems by (metis list.set_intros(1) set_mset_mset)
  then obtain x where x: "x \<in> set xs" "f x = y" by auto
  have "mset (map f (remove1 x xs)) = mset (map f xs) - {#y#}"
    using x by (simp add: image_mset_Diff)
  also have "\<dots> = mset ys" by (simp only: Cons.prems [symmetric]) simp
  finally have "mset ys = mset (map f (remove1 x xs))" by simp
  then obtain zs where zs: "mset zs = mset (remove1 x xs)" "ys = map f zs" using Cons.IH by blast
  then have "mset (x # zs) = mset xs" using x(1) by simp
  then show ?case using zs(2) x(2) by (intro exI [of _ "x # zs"]) simp
qed simp

text \<open>A batch makes the calls of its events in an order by time.\<close>

lemma process_batch_events:
  assumes "sorts_by_time srt" "\<forall>e \<in> set es. always_ok hosts mem e" "cache_ok mem cache"
  shows "\<exists>ordered cache'. process_batch hosts srt formatter (map ev_raw es) (n, calls, cache) =
      Some (n + length es, calls @ calls_at hosts formatter n ordered, cache') \<and> cache_ok mem cache' \<and>
    mset ordered = mset es \<and> sorted (map ev_time ordered)"
proof -
  let ?f = "\<lambda>e. (ev_header e, ev_raw e)"
  have s: "mset (srt (map ?f es)) = mset (map ?f es)"
      "sorted (map (\<lambda>(m, _). timestamp_ns m) (srt (map ?f es)))"
    using assms(1) by (simp_all only: sorts_by_time_def)
  obtain ordered where o: "mset ordered = mset es" "srt (map ?f es) = map ?f ordered"
    using mset_map_preimage [OF s(1)] by blast
  have "\<forall>e \<in> set ordered. always_ok hosts mem e" using assms(2) o(1) by (metis set_mset_mset)
  then obtain cache' where "deliver_all hosts formatter (map ?f ordered) (n, calls, cache) =
      Some (n + length es, calls @ calls_at hosts formatter n ordered, cache')" "cache_ok mem cache'"
    using deliver_all_events [of ordered hosts mem cache formatter n calls] assms(3) mset_eq_length [OF o(1)] by auto
  moreover have "sorted (map ev_time ordered)"
    using s(2) unfolding o(2) by (simp add: comp_def ev_header_def header_new_def)
  ultimately show ?thesis
    using o by (intro exI) (simp add: process_batch_def decode_raws_events [OF assms(2)])
qed

section \<open>The worker\<close>

definition poll_tick :: "event list \<Rightarrow> tick" where
  "poll_tick es = \<lparr>stop_loaded = False, polled = map ev_raw es\<rparr>"

definition stop_tick :: tick where
  "stop_tick = \<lparr>stop_loaded = True, polled = []\<rparr>"

lemma poll_tick_simps [simp]: "stop_loaded (poll_tick es) = False" "polled (poll_tick es) = map ev_raw es"
  by (simp_all add: poll_tick_def)

lemma stop_tick_simps [simp]: "stop_loaded stop_tick = True"
  by (simp add: stop_tick_def)

lemma gather_events:
  "\<exists>got left k. gather n (map ev_raw es) (map poll_tick ess @ replicate m stop_tick) =
     (map ev_raw (es @ concat got), map poll_tick left @ replicate k stop_tick) \<and> ess = got @ left"
proof (induction ess arbitrary: es)
  case Nil
  have "\<exists>k. gather n (map ev_raw es) (replicate m stop_tick) = (map ev_raw es, replicate k stop_tick)"
    by (cases m) (auto intro: exI [of _ m])
  then show ?case by (intro exI [of _ "[]"]) auto
next
  case (Cons e ess)
  obtain got left k where ih: "gather n (map ev_raw (es @ e)) (map poll_tick ess @ replicate m stop_tick) =
      (map ev_raw ((es @ e) @ concat got), map poll_tick left @ replicate k stop_tick)" "ess = got @ left"
    using Cons.IH by blast
  consider "length es < n" "e = []" | "length es < n" "e \<noteq> []" | "\<not> length es < n" by blast
  then show ?case
  proof cases
    case 1
    then show ?thesis by - (rule exI [of _ "[e]"], rule exI [of _ ess], rule exI [of _ m], simp)
  next
    case 2
    then show ?thesis
      using ih by - (rule exI [of _ "e # got"], rule exI [of _ left], rule exI [of _ k], simp)
  next
    case 3
    then show ?thesis by - (rule exI [of _ "[]"], rule exI [of _ "e # ess"], rule exI [of _ m], simp)
  qed
qed

text \<open>
  The batches the worker forms: a batch is made of consecutive polls (\<open>polls\<close>), and its messages are
  those of the polls, ordered by time.
\<close>

definition batch_of :: "event list \<Rightarrow> event list list \<Rightarrow> bool" where
  "batch_of batch polls \<longleftrightarrow> mset batch = mset (concat polls) \<and> sorted (map ev_time batch)"

lemma worker_events:
  assumes srt: "sorts_by_time srt"
  shows "\<forall>es \<in> set ess. \<forall>e \<in> set es. always_ok hosts mem e \<Longrightarrow> cache_ok mem cache \<Longrightarrow>
   \<exists>batches groups cache'. worker_loop hosts srt opts (map poll_tick ess @ replicate m stop_tick) (n, calls, cache) =
       Some (n + length (concat batches), calls @ calls_at hosts (pattern_formatter opts) n (concat batches), cache') \<and>
     cache_ok mem cache' \<and> concat groups = ess \<and> list_all2 batch_of batches groups"
proof (induction "length ess" arbitrary: ess n calls cache m rule: less_induct)
  case less
  show ?case
  proof (cases ess)
    case Nil
    then show ?thesis
      using less.prems(2) by (intro exI [of _ "[]"] exI [of _ "[]"] exI [of _ cache]) (cases m; simp)
  next
    case (Cons es ess')
    show ?thesis
    proof (cases "es = []")
      case True
      obtain batches groups cache' where
        ih: "worker_loop hosts srt opts (map poll_tick ess' @ replicate m stop_tick) (n, calls, cache) =
          Some (n + length (concat batches), calls @ calls_at hosts (pattern_formatter opts) n (concat batches), cache')"
        "cache_ok mem cache'" "concat groups = ess'" "list_all2 batch_of batches groups"
        using less.hyps [of ess' cache m n calls] less.prems Cons by auto
      have "batch_of [] [[]]" by (simp add: batch_of_def)
      then show ?thesis
        using ih Cons True
        by (intro exI [of _ "[] # batches"] exI [of _ "[[]] # groups"] exI [of _ cache']) simp
    next
      case False
      obtain got left k where g: "gather (min_batch_size opts) (map ev_raw es) (map poll_tick ess' @ replicate m stop_tick) =
          (map ev_raw (es @ concat got), map poll_tick left @ replicate k stop_tick)" "ess' = got @ left"
        using gather_events by blast
      have ok: "\<forall>e \<in> set (es @ concat got). always_ok hosts mem e"
        and okl: "\<forall>es \<in> set left. \<forall>e \<in> set es. always_ok hosts mem e"
        using less.prems(1) Cons g(2) by auto
      obtain ordered c1 where o: "process_batch hosts srt (pattern_formatter opts) (map ev_raw (es @ concat got)) (n, calls, cache) =
          Some (n + length (es @ concat got), calls @ calls_at hosts (pattern_formatter opts) n ordered, c1)"
        "cache_ok mem c1" "mset ordered = mset (es @ concat got)" "sorted (map ev_time ordered)"
        using process_batch_events [OF srt ok less.prems(2)] by blast
      obtain batches groups cache' where
        ih: "worker_loop hosts srt opts (map poll_tick left @ replicate k stop_tick)
            (n + length ordered, calls @ calls_at hosts (pattern_formatter opts) n ordered, c1) =
          Some ((n + length ordered) + length (concat batches), (calls @ calls_at hosts (pattern_formatter opts) n ordered) @
            calls_at hosts (pattern_formatter opts) (n + length ordered) (concat batches), cache')"
        "cache_ok mem cache'" "concat groups = left" "list_all2 batch_of batches groups"
        using less.hyps [OF _ okl o(2), of k "n + length ordered" "calls @ calls_at hosts (pattern_formatter opts) n ordered"]
          Cons g(2) by auto
      have "batch_of ordered (es # got)" using o(3,4) by (simp add: batch_of_def)
      moreover have "worker_loop hosts srt opts (map poll_tick ess @ replicate m stop_tick) (n, calls, cache) =
          Some (n + length (concat (ordered # batches)),
            calls @ calls_at hosts (pattern_formatter opts) n (concat (ordered # batches)), cache')"
        using False g(1) o(1) ih(1) mset_eq_length [OF o(3)] by (simp add: Cons add.assoc)
      ultimately show ?thesis
        using ih(2-4) Cons g(2)
        by (intro exI [of _ "ordered # batches"] exI [of _ "(es # got) # groups"] exI [of _ cache']) simp
    qed
  qed
qed

lemma mset_batches: "list_all2 batch_of bs gs \<Longrightarrow> mset (concat bs) = mset (concat (concat gs))"
  by (induction bs gs rule: list_all2_induct) (simp_all add: batch_of_def)

lemma no_batch: "list_all2 batch_of bs gs \<Longrightarrow> concat gs = [] \<Longrightarrow> concat bs = []"
  by (induction bs gs rule: list_all2_induct) (auto simp: batch_of_def)

lemma single_batch:
  "list_all2 batch_of bs gs \<Longrightarrow> concat gs = [es] \<Longrightarrow>
   mset (concat bs) = mset es \<and> sorted (map ev_time (concat bs))"
proof (induction bs gs rule: list_all2_induct)
  case (Cons b bs g gs)
  have "g = [] \<and> concat gs = [es] \<or> g = [es] \<and> concat gs = []"
    using Cons.prems by (auto simp: append_eq_Cons_conv)
  then show ?case
  proof (elim disjE conjE)
    assume "g = []" "concat gs = [es]"
    then show ?thesis using Cons by (simp add: batch_of_def)
  next
    assume "g = [es]" "concat gs = []"
    then have "concat (b # bs) = b" using no_batch [OF Cons.hyps(2)] by simp
    then show ?thesis using Cons.hyps(1) \<open>g = [es]\<close> by (simp only: batch_of_def) simp
  qed
qed simp

section \<open>The messages for one sink\<close>

definition written_to :: "nat \<Rightarrow> sink_calls \<Rightarrow> bytes list" where
  "written_to s calls = map snd (filter (\<lambda>(k, t). k = s) calls)"

lemma written_to_append: "written_to s (xs @ ys) = written_to s xs @ written_to s ys"
  by (simp add: written_to_def)

lemma written_to_concat: "written_to s (concat xss) = concat (map (written_to s) xss)"
  by (induction xss) (simp_all add: written_to_append, simp add: written_to_def)

text \<open>The lines an event puts into a sink.\<close>

definition ev_lines :: "host \<Rightarrow> Segment list option \<Rightarrow> nat \<Rightarrow> event \<Rightarrow> bytes" where
  "ev_lines host formatter s e = concat (map (\<lambda>t. t @ [10]) (written_to s (ev_calls host formatter e)))"

lemma lines_of_events:
  "concat (map (\<lambda>t. t @ [10]) (written_to s (concat (map (ev_calls host formatter) es)))) =
   concat (map (ev_lines host formatter s) es)"
  by (induction es) (simp_all add: written_to_append ev_lines_def, simp add: written_to_def)

lemma length_lines_mset:
  "mset es = mset es' \<Longrightarrow>
   length (concat (map (ev_lines host formatter s) es)) = length (concat (map (ev_lines host formatter s) es'))"
  by (simp add: length_concat comp_def flip: sum_mset_sum_list)

section \<open>Properties\<close>

text \<open>A host that knows the sample call and its logger, and one event of that call.\<close>

definition sample_host :: host where
  "sample_host =
     \<lparr>to_display = to_display_nanos, host_calendar = (\<lambda>_. None), floats = no_floats,
      metadata_at = [512 \<mapsto> site_metadata sample_call (statics_set sample_call)],
      logger_at = [64 \<mapsto> add_filter (LevelFilter Info) sample_logger]\<rparr>"

definition sample_event :: event where
  "sample_event =
     \<lparr>ev_time = 1500000000, ev_site = 512, ev_logger = 64, ev_values = [UnsignedV 1 5, BoolV True], ev_rest = [],
      ev_types = [UnsignedT 1, BoolT], ev_parts = [(str ''n = '', []), (str '', '', str '':?'')], ev_tail = str ''.''\<rparr>"

definition by_time :: batch_sort where
  "by_time = sort_key (\<lambda>(m, _). timestamp_ns m)"

lemma by_time_sorts: "sorts_by_time by_time"
  by (simp add: sorts_by_time_def by_time_def)

lemma sample_event_ok: "ev_ok sample_host sample_cache sample_event"
  using sample_site_ok(3,4,6)
  by (simp add: ev_ok_def sample_host_def sample_event_def ev_header_def header_ok_def header_new_def
      site_metadata_def metadata_new_def statics_set_def site_ok_def sample_call_def sample_cache_def
      sample_site_def size_for_k_def)

definition sample_metadata :: Metadata where
  "sample_metadata = site_metadata sample_call (statics_set sample_call)"

lemma sample_body:
  "call_text no_floats sample_metadata [UnsignedT 1, BoolT] [UnsignedV 1 5, BoolV True]
     [(str ''n = '', []), (str '', '', str '':?'')] (str ''.'') = str ''n = 5, true.''"
proof -
  have "arg_env no_floats sample_metadata i =
      \<lparr>tables = (if i < 2 then [[]] else []), users = [], show_f32 = (\<lambda>_. []), show_f64 = (\<lambda>_. [])\<rparr>" for i
    by (auto simp: arg_env_def sample_metadata_def site_metadata_def statics_set_def sample_call_def
        metadata_new_def no_floats_def less_2_cases_iff)
  then show ?thesis
    by (simp add: call_text_def arg_texts_def upt_rec show_nat.simps digit_def show_bool_def)
qed

lemma sample_line:
  "default_text 1 500000000 sample_metadata body = str ''[1.500000000] [Info] a.rs:7 '' @ body"
  by (simp add: default_text_def sample_metadata_def site_metadata_def metadata_new_def sample_call_def
      show_pad_def show_nat.simps digit_def)

lemma sample_event_calls:
  "ev_calls sample_host None sample_event = [(0, str ''[1.500000000] [Info] a.rs:7 n = 5, true.'')]"
proof -
  have m: "metadata_at sample_host (ev_site sample_event) = Some sample_metadata"
    "logger_at sample_host (ev_logger sample_event) = Some (add_filter (LevelFilter Info) sample_logger)"
    by (simp_all add: sample_host_def sample_event_def sample_metadata_def)
  have "level sample_metadata = Info"
    by (simp add: sample_metadata_def site_metadata_def metadata_new_def sample_call_def)
  then have "accepted sample_host sample_event"
    unfolding accepted_def m
    by (simp add: add_filter_def sample_logger_def LevelFilter_def log_level_def from_usize_def)
  moreover have "ev_text sample_host None sample_event = str ''[1.500000000] [Info] a.rs:7 '' @ str ''n = 5, true.''"
    unfolding ev_text_def m option.sel sample_body [symmetric] sample_line [symmetric]
    by (simp add: finish_message_def sample_event_def sample_host_def to_display_nanos_def)
  moreover have "sinks (add_filter (LevelFilter Info) sample_logger) = [0]"
    by (simp add: add_filter_def sample_logger_def)
  ultimately show ?thesis by (simp add: ev_calls_def m)
qed

text \<open>A run in which the level of the logger is raised after the first message.\<close>

definition turning_quiet :: "nat \<Rightarrow> host" where
  "turning_quiet n =
     (if n = 0 then sample_host else sample_host\<lparr>logger_at := [64 \<mapsto> set_log_level Critical sample_logger]\<rparr>)"

lemma turning_quiet_ok: "always_ok turning_quiet sample_cache sample_event"
  using sample_event_ok by (simp add: always_ok_def turning_quiet_def ev_ok_def) (simp add: sample_event_def)

lemma turning_quiet_calls:
  "ev_calls (turning_quiet 0) None sample_event = [(0, str ''[1.500000000] [Info] a.rs:7 n = 5, true.'')]"
  "ev_calls (turning_quiet (Suc n)) None sample_event = []"
proof -
  show "ev_calls (turning_quiet 0) None sample_event = [(0, str ''[1.500000000] [Info] a.rs:7 n = 5, true.'')]"
    by (simp only: turning_quiet_def refl if_True sample_event_calls)
  have "level (the (metadata_at (turning_quiet (Suc n)) (ev_site sample_event))) = Info"
    by (simp add: turning_quiet_def sample_event_def sample_host_def site_metadata_def metadata_new_def sample_call_def)
  moreover have "log_level (the (logger_at (turning_quiet (Suc n)) (ev_logger sample_event))) = Critical"
    by (simp add: turning_quiet_def sample_event_def)
  ultimately have "\<not> accepted (turning_quiet (Suc n)) sample_event"
    by (simp add: accepted_def level_order Let_def)
  then show "ev_calls (turning_quiet (Suc n)) None sample_event = []" by (simp add: ev_calls_def)
qed

text \<open>C7: A batch of logged messages is handled without a panic, whatever order the unstable sort
  gives to messages of the same time and however levels and filters change meanwhile: in an order by
  time, every message whose level reaches its logger's level and that passes all filters of its logger
  at its moment is written exactly once to each sink of its logger, in the order of the sinks, as its
  formatted text; all other messages are written nowhere.\<close>

theorem batch_calls:
  assumes "sorts_by_time srt" and "\<forall>e \<in> set es. always_ok hosts mem e" and "cache_ok mem cache"
  shows "\<exists>ordered cache'. process_batch hosts srt formatter (map ev_raw es) (n, calls, cache) =
      Some (n + length es, calls @ calls_at hosts formatter n ordered, cache') \<and> cache_ok mem cache' \<and>
    mset ordered = mset es \<and> sorted (map ev_time ordered)"
  by (rule process_batch_events [OF assms])

theorem batch_calls_witness:
  "\<exists>cache'. process_batch turning_quiet by_time None [ev_raw sample_event, ev_raw sample_event] (0, [], Map.empty) =
     Some (2, [(0, str ''[1.500000000] [Info] a.rs:7 n = 5, true.'')], cache')"
proof -
  obtain ordered cache' where o: "process_batch turning_quiet by_time None (map ev_raw [sample_event, sample_event]) (0, [], Map.empty) =
      Some (0 + length [sample_event, sample_event], [] @ calls_at turning_quiet None 0 ordered, cache')"
      "mset ordered = mset [sample_event, sample_event]"
    using batch_calls [OF by_time_sorts _ sample_site_ok(2), of "[sample_event, sample_event]" turning_quiet None 0 "[]"]
      turning_quiet_ok by auto
  then have "ordered = replicate 2 sample_event"
    using mset_eq_length [OF o(2)] mset_eq_setD [OF o(2)] by (intro replicate_eqI) auto
  then show ?thesis using o(1) by (simp add: numeral_2_eq_2 turning_quiet_calls)
qed



end
