(* ===== verification/Sinks.thy ===== *)
theory Sinks
  imports Rust_Text
begin

text \<open>
  \<open>src/sink.rs\<close> and \<open>src/sinks/\<close>: the trait of a sink as a locale, and its four implementations.

  A disk is a map from paths to contents with a number of bytes of room left, a set of paths
  that cannot be opened and one of paths that cannot be renamed, so every error path of the code is an input. A handle opened
  for appending stands for its path: the sinks close a file before they rename it, and only the
  sink itself writes to its files. Paths are valid UTF-8. A sink's lock is held during a call, so
  calls are atomic. Times are nanoseconds since the epoch, maybe negative.
\<close>

section \<open>Files\<close>

type_synonym path = bytes

record disk =
  contents :: "path \<rightharpoonup> bytes"
  room :: nat
  no_open :: "path \<Rightarrow> bool"
  no_rename :: "path \<Rightarrow> bool"

text \<open>\<open>OpenOptions\<close> with \<open>create(true)\<close> and \<open>append(true)\<close>, or \<open>truncate(true)\<close>.\<close>

definition open_append :: "path \<Rightarrow> disk \<Rightarrow> disk option" where
  "open_append p d =
     (if no_open d p then None
      else Some (d\<lparr>contents := (contents d)(p \<mapsto> (case contents d p of None \<Rightarrow> [] | Some c \<Rightarrow> c))\<rparr>))"

definition open_truncate :: "path \<Rightarrow> disk \<Rightarrow> disk option" where
  "open_truncate p d = (if no_open d p then None else Some (d\<lparr>contents := (contents d)(p \<mapsto> [])\<rparr>))"

text \<open>\<open>std::fs::rename\<close> replaces a file that has the new name.\<close>

definition rename :: "path \<Rightarrow> path \<Rightarrow> disk \<Rightarrow> disk option" where
  "rename p q d =
     (if no_rename d p \<or> no_rename d q then None
      else case contents d p of
        None \<Rightarrow> None
      | Some c \<Rightarrow> Some (d\<lparr>contents := (contents d)(p := None, q \<mapsto> c)\<rparr>))"

text \<open>\<open>write_all\<close> on an open file writes what there is room for, and fails if that is not all.\<close>

definition write_file :: "path \<Rightarrow> bytes \<Rightarrow> disk \<Rightarrow> bool \<times> disk" where
  "write_file p bs d =
     (length bs \<le> room d,
      d\<lparr>contents := (contents d)(p := map_option (\<lambda>c. c @ take (room d) bs) (contents d p)),
        room := room d - length bs\<rparr>)"

section \<open>Buffered writers\<close>

text \<open>
  \<open>std::io::BufWriter<File>\<close> with its default capacity: a text that does not fit into the buffer
  flushes it first, and one as large as the buffer goes to the file directly.
\<close>

definition BUF_CAPACITY :: nat where
  "BUF_CAPACITY = 8192"

record BufWriter =
  target :: path
  buffered :: bytes

definition buf_new :: "path \<Rightarrow> BufWriter" where
  "buf_new p = \<lparr>target = p, buffered = []\<rparr>"

definition flush_buf :: "BufWriter \<Rightarrow> disk \<Rightarrow> bool \<times> BufWriter \<times> disk" where
  "flush_buf w d =
     (let (fine, d') = write_file (target w) (buffered w) d
      in (fine, w\<lparr>buffered := drop (room d) (buffered w)\<rparr>, d'))"

definition write_all :: "bytes \<Rightarrow> BufWriter \<Rightarrow> disk \<Rightarrow> bool \<times> BufWriter \<times> disk" where
  "write_all bs w d =
     (let spare = BUF_CAPACITY - length (buffered w)
      in if length bs < spare then (True, w\<lparr>buffered := buffered w @ bs\<rparr>, d)
         else
           let (fine, w', d') = (if spare < length bs then flush_buf w d else (True, w, d))
           in if \<not> fine then (False, w', d')
              else if BUF_CAPACITY \<le> length bs then
                (case write_file (target w') bs d' of (fine', d'') \<Rightarrow> (fine', w', d''))
              else (True, w'\<lparr>buffered := buffered w' @ bs\<rparr>, d'))"

text \<open>\<open>writeln!(w, "{formatted}")\<close> writes the text and then the line end, and stops at an error.\<close>

definition writeln :: "bytes \<Rightarrow> BufWriter \<Rightarrow> disk \<Rightarrow> bool \<times> BufWriter \<times> disk" where
  "writeln formatted w d =
     (case write_all formatted w d of
        (fine, w', d') \<Rightarrow> if fine then write_all [10] w' d' else (False, w', d'))"

text \<open>What a writer has taken, on disk or still buffered; and that it can take \<open>n\<close> bytes more.\<close>

definition taken :: "BufWriter \<Rightarrow> disk \<Rightarrow> bytes" where
  "taken w d = the (contents d (target w)) @ buffered w"

definition can_take :: "nat \<Rightarrow> BufWriter \<Rightarrow> disk \<Rightarrow> bool" where
  "can_take n w d \<longleftrightarrow> target w \<in> dom (contents d) \<and> length (buffered w) + n \<le> room d"

text \<open>A step of a writer leaves all other files, and the faults of the disk, as they are.\<close>

definition only_target :: "BufWriter \<Rightarrow> disk \<Rightarrow> BufWriter \<Rightarrow> disk \<Rightarrow> bool" where
  "only_target w d w' d' \<longleftrightarrow> target w' = target w \<and> no_open d' = no_open d \<and> no_rename d' = no_rename d \<and>
     (\<forall>p. p \<noteq> target w \<longrightarrow> contents d' p = contents d p)"

lemma flush_buf_ok:
  assumes "can_take n w d"
  shows "\<exists>w' d'. flush_buf w d = (True, w', d') \<and> buffered w' = [] \<and> taken w' d' = taken w d \<and>
    can_take n w' d' \<and> only_target w d w' d'"
  using assms
  by (auto simp: flush_buf_def write_file_def can_take_def taken_def only_target_def)

lemma write_all_ok:
  assumes "can_take (length bs + n) w d"
  shows "\<exists>w' d'. write_all bs w d = (True, w', d') \<and> taken w' d' = taken w d @ bs \<and> can_take n w' d' \<and>
    only_target w d w' d'"
proof (cases "length bs < BUF_CAPACITY - length (buffered w)")
  case True
  then show ?thesis
    using assms by (auto simp: write_all_def Let_def taken_def can_take_def only_target_def)
next
  case False
  define t where "t = (if BUF_CAPACITY - length (buffered w) < length bs then flush_buf w d else (True, w, d))"
  obtain w1 d1 where 1: "t = (True, w1, d1)" "taken w1 d1 = taken w d" "can_take (length bs + n) w1 d1"
      "only_target w d w1 d1" and big: "BUF_CAPACITY \<le> length bs \<longrightarrow> buffered w1 = []"
  proof (cases "BUF_CAPACITY - length (buffered w) < length bs")
    case True
    then show ?thesis using flush_buf_ok [OF assms] that by (auto simp: t_def)
  next
    case False
    with \<open>\<not> length bs < _\<close> have "buffered w = [] \<or> length bs < BUF_CAPACITY"
      by (cases "buffered w") (auto simp: BUF_CAPACITY_def)
    with False show ?thesis using that [of w d] assms by (auto simp: t_def only_target_def)
  qed
  show ?thesis
  proof (cases "BUF_CAPACITY \<le> length bs")
    case True
    then have "write_all bs w d = (case write_file (target w1) bs d1 of (f, d2) \<Rightarrow> (f, w1, d2))"
      using False 1(1) by (simp add: write_all_def Let_def t_def)
    then show ?thesis
      using 1 big True
      by (auto simp: write_file_def taken_def can_take_def only_target_def)
  next
    case small: False
    then have "write_all bs w d = (True, w1\<lparr>buffered := buffered w1 @ bs\<rparr>, d1)"
      using False 1(1) by (simp add: write_all_def Let_def t_def)
    then show ?thesis
      using 1 by (auto simp: taken_def can_take_def only_target_def)
  qed
qed

lemma writeln_ok:
  assumes "can_take (length s + 1 + n) w d"
  shows "\<exists>w' d'. writeln s w d = (True, w', d') \<and> taken w' d' = taken w d @ s @ [10] \<and> can_take n w' d' \<and>
    only_target w d w' d'"
proof -
  obtain w1 d1 where 1: "write_all s w d = (True, w1, d1)" "taken w1 d1 = taken w d @ s"
      "can_take (1 + n) w1 d1" "only_target w d w1 d1"
    using write_all_ok [of s "1 + n" w d] assms by (auto simp: add.assoc)
  obtain w2 d2 where "write_all [10] w1 d1 = (True, w2, d2)" "taken w2 d2 = taken w1 d1 @ [10]"
      "can_take n w2 d2" "only_target w1 d1 w2 d2"
    using write_all_ok [of "[10]" n w1 d1] 1(3) by auto
  then show ?thesis using 1 by (auto simp: writeln_def only_target_def)
qed

section \<open>The trait\<close>

text \<open>
  What the backend relies on: a sink appends one line for every message it is given, as long as it
  has the means to, and after a flush all it was given is in place. \<open>env\<close> is what a call reads from
  its surroundings (the clock); \<open>given\<close> is all the sink was given, \<open>stored\<close> what is in place, and
  \<open>accepts n\<close> that it has the means for \<open>n\<close> bytes more.
\<close>

locale sink =
  fixes put_line :: "'env \<Rightarrow> bytes \<Rightarrow> 's \<Rightarrow> 's"
    and flush :: "'s \<Rightarrow> 's"
    and line :: "bytes \<Rightarrow> bytes"
    and accepts :: "nat \<Rightarrow> 's \<Rightarrow> bool"
    and given :: "'s \<Rightarrow> bytes"
    and stored :: "'s \<Rightarrow> bytes"
  assumes write_appends: "accepts (length (line m) + n) s \<Longrightarrow>
      given (put_line e m s) = given s @ line m \<and> accepts n (put_line e m s)"
    and flush_stores: "accepts n s \<Longrightarrow> given (flush s) = given s \<and> stored (flush s) = given s \<and> accepts n (flush s)"
begin

lemma writes_append:
  "accepts (length (concat (map (\<lambda>(e, m). line m) ms)) + n) s \<Longrightarrow>
   given (fold (\<lambda>(e, m). put_line e m) ms s) = given s @ concat (map (\<lambda>(e, m). line m) ms) \<and>
   accepts n (fold (\<lambda>(e, m). put_line e m) ms s)"
proof (induction ms arbitrary: s)
  case (Cons x ms)
  obtain e m where x: "x = (e, m)" by (cases x)
  have "given (put_line e m s) = given s @ line m \<and>
      accepts (length (concat (map (\<lambda>(e, m). line m) ms)) + n) (put_line e m s)"
    using Cons.prems by (intro write_appends) (simp add: x add.assoc)
  with Cons.IH [of "put_line e m s"] show ?case by (simp add: x)
qed simp

lemma writes_stored:
  "accepts (length (concat (map (\<lambda>(e, m). line m) ms))) s \<Longrightarrow>
   stored (flush (fold (\<lambda>(e, m). put_line e m) ms s)) = given s @ concat (map (\<lambda>(e, m). line m) ms)"
  using writes_append [of ms 0 s] flush_stores by auto

end

section \<open>Console and null sink\<close>

text \<open>
  The console stream of the crate \<open>anstream\<close> adapts what is written (it may strip colours): the
  parameter \<open>adapt\<close>. The state is what has reached the terminal.
\<close>

definition console_write :: "(bytes \<Rightarrow> bytes) \<Rightarrow> bytes \<Rightarrow> bytes \<Rightarrow> bytes" where
  "console_write adapt formatted stream = stream @ adapt (formatted @ [10])"

definition console_flush :: "bytes \<Rightarrow> bytes" where
  "console_flush stream = stream"

definition null_write :: "bytes \<Rightarrow> unit \<Rightarrow> unit" where
  "null_write formatted s = s"

definition null_flush :: "unit \<Rightarrow> unit" where
  "null_flush s = s"

interpretation console: sink "\<lambda>_ :: unit. console_write adapt" console_flush "\<lambda>m. adapt (m @ [10])"
  "\<lambda>_ _. True" "\<lambda>s. s" "\<lambda>s. s" for adapt
  by unfold_locales (simp_all add: console_write_def console_flush_def)

interpretation null: sink "\<lambda>_ :: unit. null_write" null_flush "\<lambda>_. []" "\<lambda>_ _. True" "\<lambda>_. []" "\<lambda>_. []"
  by unfold_locales simp_all

section \<open>File sink\<close>

datatype FileMode = Append | Truncate

record FileSink =
  file_writer :: BufWriter
  file_path :: path

definition file_new :: "path \<Rightarrow> FileMode \<Rightarrow> disk \<Rightarrow> (FileSink \<times> disk) option" where
  "file_new p m d =
     map_option (Pair \<lparr>file_writer = buf_new p, file_path = p\<rparr>)
       (case m of Append \<Rightarrow> open_append p d | Truncate \<Rightarrow> open_truncate p d)"

definition file_write :: "bytes \<Rightarrow> FileSink \<times> disk \<Rightarrow> FileSink \<times> disk" where
  "file_write formatted = (\<lambda>(s, d).
     case writeln formatted (file_writer s) d of (_, w', d') \<Rightarrow> (s\<lparr>file_writer := w'\<rparr>, d'))"

definition file_flush :: "FileSink \<times> disk \<Rightarrow> FileSink \<times> disk" where
  "file_flush = (\<lambda>(s, d).
     case flush_buf (file_writer s) d of (_, w', d') \<Rightarrow> (s\<lparr>file_writer := w'\<rparr>, d'))"

definition file_accepts :: "nat \<Rightarrow> FileSink \<times> disk \<Rightarrow> bool" where
  "file_accepts n = (\<lambda>(s, d). can_take n (file_writer s) d)"

definition file_given :: "FileSink \<times> disk \<Rightarrow> bytes" where
  "file_given = (\<lambda>(s, d). taken (file_writer s) d)"

definition file_stored :: "FileSink \<times> disk \<Rightarrow> bytes" where
  "file_stored = (\<lambda>(s, d). the (contents d (target (file_writer s))))"

interpretation fsink: sink "\<lambda>_ :: unit. file_write" file_flush "\<lambda>m. m @ [10]" file_accepts file_given file_stored
proof (unfold_locales, goal_cases)
  case (1 m n s e)
  then show ?case
    using writeln_ok [of m n "file_writer (fst s)" "snd s"]
    by (auto simp: file_accepts_def file_given_def file_write_def split: prod.splits)
next
  case (2 n s)
  then show ?case
    using flush_buf_ok [of n "file_writer (fst s)" "snd s"]
    by (auto simp: file_accepts_def file_given_def file_flush_def file_stored_def taken_def split: prod.splits)
qed

lemma flush_buf_target: "flush_buf w d = (f, w', d') \<Longrightarrow> target w' = target w"
  by (auto simp: flush_buf_def split: prod.splits)

lemma write_all_target: "write_all bs w d = (f, w', d') \<Longrightarrow> target w' = target w"
  by (auto simp: write_all_def Let_def dest: flush_buf_target split: prod.splits if_splits)

lemma writeln_target: "writeln s w d = (f, w', d') \<Longrightarrow> target w' = target w"
  by (auto simp: writeln_def dest!: write_all_target split: prod.splits if_splits)

definition file_target :: "FileSink \<times> disk \<Rightarrow> path" where
  "file_target = (\<lambda>(s, d). target (file_writer s))"

lemma file_write_target: "file_target (file_write m sd) = file_target sd"
  by (auto simp: file_target_def file_write_def dest: writeln_target split: prod.splits)

lemma file_writes_target: "file_target (fold file_write ms sd) = file_target sd"
  by (induction ms arbitrary: sd) (simp_all add: file_write_target)

lemma file_flush_target: "file_target (file_flush sd) = file_target sd"
  by (auto simp: file_target_def file_flush_def dest: flush_buf_target split: prod.splits)

lemma file_accepts_stored: "file_accepts n sd \<Longrightarrow> contents (snd sd) (file_target sd) = Some (file_stored sd)"
  by (auto simp: file_accepts_def can_take_def file_target_def file_stored_def split: prod.splits)

lemma file_writes_lines:
  assumes "file_new p m d = Some (s, d0)"
    and "length (concat (map (\<lambda>t. t @ [10]) ts)) \<le> room d"
  shows "case file_flush (fold file_write ts (s, d0)) of (s', d') \<Rightarrow>
    contents d' p = Some ((case m of Append \<Rightarrow> (case contents d p of None \<Rightarrow> [] | Some c \<Rightarrow> c) | Truncate \<Rightarrow> []) @
      concat (map (\<lambda>t. t @ [10]) ts))"
proof -
  let ?old = "case m of Append \<Rightarrow> (case contents d p of None \<Rightarrow> [] | Some c \<Rightarrow> c) | Truncate \<Rightarrow> []"
  have d0: "contents d0 p = Some ?old" "room d0 = room d" "s = \<lparr>file_writer = buf_new p, file_path = p\<rparr>"
    using assms(1) by (auto simp: file_new_def open_append_def open_truncate_def split: FileMode.splits if_splits)
  let ?ms = "map (Pair ()) ts"
  have lines: "concat (map (\<lambda>(e, m). m @ [10]) ?ms) = concat (map (\<lambda>t. t @ [10]) ts)"
    by (simp add: comp_def)
  have "fold (\<lambda>(e, m). file_write m) ?ms = fold file_write ts" by (simp add: fold_map comp_def)
  moreover have "file_accepts (length (concat (map (\<lambda>(e, m). m @ [10]) ?ms))) (s, d0)"
    unfolding lines using assms(2) d0 by (auto simp: file_accepts_def can_take_def buf_new_def)
  ultimately have acc: "file_accepts 0 (fold file_write ts (s, d0))"
    and st: "file_stored (file_flush (fold file_write ts (s, d0))) = ?old @ concat (map (\<lambda>t. t @ [10]) ts)"
    using fsink.writes_stored [of ?ms "(s, d0)"] fsink.writes_append [of ?ms 0 "(s, d0)"] d0
    unfolding lines by (simp_all add: file_given_def taken_def buf_new_def)
  have "contents (snd (file_flush (fold file_write ts (s, d0)))) p =
      Some (file_stored (file_flush (fold file_write ts (s, d0))))"
    using file_accepts_stored [of 0 "file_flush (fold file_write ts (s, d0))"] fsink.flush_stores [OF acc] d0(3)
    by (simp add: file_flush_target file_writes_target) (simp add: file_target_def buf_new_def)
  then show ?thesis using st by (simp add: case_prod_unfold)
qed

section \<open>Property\<close>

text \<open>C22: A file sink opened on a disk with enough room holds, after a flush, one line for every
  message in the order written: after what the file held before in append mode, and alone in
  truncate mode. No other file is touched by opening.\<close>

theorem file_sink_holds_lines:
  assumes "file_new p m d = Some (s, d0)"
    and "length (concat (map (\<lambda>t. t @ [10]) ts)) \<le> room d"
  shows "case file_flush (fold file_write ts (s, d0)) of (s', d') \<Rightarrow>
    contents d' p = Some ((case m of Append \<Rightarrow> (case contents d p of None \<Rightarrow> [] | Some c \<Rightarrow> c) | Truncate \<Rightarrow> []) @
      concat (map (\<lambda>t. t @ [10]) ts))"
  by (rule file_writes_lines [OF assms])

theorem file_sink_holds_lines_witness:
  "case file_flush (fold file_write [str ''a'', str ''bc'']
      (\<lparr>file_writer = buf_new (str ''log''), file_path = str ''log''\<rparr>,
       \<lparr>contents = [str ''log'' \<mapsto> str ''x''], room = 100, no_open = (\<lambda>_. False), no_rename = (\<lambda>_. False)\<rparr>)) of (s', d') \<Rightarrow>
    contents d' (str ''log'') = Some (str ''x'' @ str ''a'' @ [10] @ str ''bc'' @ [10])"
  using file_sink_holds_lines [of "str ''log''" Append
      "\<lparr>contents = [str ''log'' \<mapsto> str ''x''], room = 100, no_open = (\<lambda>_. False), no_rename = (\<lambda>_. False)\<rparr>" _ _ "[str ''a'', str ''bc'']"]
  by (simp add: file_new_def open_append_def)

end
