(* ===== verification/Rotating.thy ===== *)
theory Rotating
  imports Sinks
begin

text \<open>
  \<open>src/sinks/rotating.rs\<close>: the file sink that renames its file to \<open>{path}.1\<close>, \<open>{path}.2\<close> and so on
  when it grows too large or a time has come, and starts a new one. A call reads the clock once
  to decide and, when it rotates, once more to set the next time; the two readings are arguments.
  Byte counts and rotation numbers are natural numbers: \<open>u64\<close> does not overflow before the disk does.
\<close>

section \<open>State and operations\<close>

datatype TimeInterval = Hourly | Daily

datatype RotationPolicy = SizeBased nat | TimeBased TimeInterval

record RotatingState =
  writer :: "BufWriter option"
  current_path :: path
  bytes_written :: nat
  next_rotation_at :: int
  rotation_index :: nat

record RotatingFileSink =
  inner :: RotatingState
  base_path :: path
  policy :: RotationPolicy

definition open_writer :: "path \<Rightarrow> disk \<Rightarrow> (BufWriter \<times> disk) option" where
  "open_writer p d = map_option (Pair (buf_new p)) (open_append p d)"

definition compute_next_rotation :: "RotationPolicy \<Rightarrow> int \<Rightarrow> int" where
  "compute_next_rotation pol now =
     (case pol of
        SizeBased max_bytes \<Rightarrow> now + 86400 * 365 * 100 * 10 ^ 9
      | TimeBased interval \<Rightarrow>
          let secs = (if now < 0 then 0 else now div 10 ^ 9);
              after = (case interval of
                Hourly \<Rightarrow> (secs div 3600 + 1) * 3600
              | Daily \<Rightarrow> (secs div 86400 + 1) * 86400)
          in after * 10 ^ 9)"

definition rotating_new :: "path \<Rightarrow> RotationPolicy \<Rightarrow> int \<Rightarrow> disk \<Rightarrow> (RotatingFileSink \<times> disk) option" where
  "rotating_new base pol now d =
     do {
       (w, d') \<leftarrow> open_writer base d;
       Some (\<lparr>inner = \<lparr>writer = Some w, current_path = base, bytes_written = 0,
                next_rotation_at = compute_next_rotation pol now, rotation_index = 0\<rparr>,
              base_path = base, policy = pol\<rparr>, d')
     }"

definition rotated_name :: "path \<Rightarrow> nat \<Rightarrow> path" where
  "rotated_name base i = base @ str ''.'' @ show_nat i"

text \<open>
  The old writer is flushed and closed; closing after a failed flush tries to write the rest once
  more. The result tells whether the \<open>?\<close> operators let the function reach its end.
\<close>

definition close_writer :: "BufWriter \<Rightarrow> disk \<Rightarrow> disk" where
  "close_writer w d =
     (case flush_buf w d of
        (fine, w', d') \<Rightarrow> if fine then d' else snd (snd (flush_buf w' d')))"

definition rotate_inner ::
    "RotationPolicy \<Rightarrow> path \<Rightarrow> int \<Rightarrow> RotatingState \<Rightarrow> disk \<Rightarrow> bool \<times> RotatingState \<times> disk" where
  "rotate_inner pol base now st d =
     (let d1 = (case writer st of None \<Rightarrow> d | Some w \<Rightarrow> close_writer w d);
          st1 = st\<lparr>writer := None, rotation_index := rotation_index st + 1\<rparr>
      in case rename (current_path st1) (rotated_name base (rotation_index st1)) d1 of
        None \<Rightarrow> (False, st1, d1)
      | Some d2 \<Rightarrow>
          (case open_writer base d2 of
             None \<Rightarrow> (False, st1, d2)
           | Some (w, d3) \<Rightarrow>
               (True, st1\<lparr>writer := Some w, bytes_written := 0,
                  next_rotation_at := compute_next_rotation pol now\<rparr>, d3)))"

definition would_exceed :: "RotatingFileSink \<Rightarrow> int \<Rightarrow> bytes \<Rightarrow> bool" where
  "would_exceed k now formatted =
     (case policy k of
        SizeBased max_bytes \<Rightarrow> max_bytes < bytes_written (inner k) + (length formatted + 1)
      | TimeBased _ \<Rightarrow> next_rotation_at (inner k) \<le> now)"

text \<open>\<open>Sink::write\<close>; \<open>now\<close> and \<open>now2\<close> are the two readings of the clock.\<close>

definition rotating_write ::
    "int \<times> int \<Rightarrow> bytes \<Rightarrow> RotatingFileSink \<times> disk \<Rightarrow> RotatingFileSink \<times> disk" where
  "rotating_write = (\<lambda>(now, now2) formatted (k, d).
     let add_bytes = length formatted + 1;
         (st1, d1) = (if would_exceed k now formatted
           then snd (rotate_inner (policy k) (base_path k) now2 (inner k) d) else (inner k, d))
     in case writer st1 of
          None \<Rightarrow> (k\<lparr>inner := st1\<rparr>, d1)
        | Some w \<Rightarrow>
            (case writeln formatted w d1 of
               (fine, w', d2) \<Rightarrow>
                 (k\<lparr>inner := st1\<lparr>writer := Some w',
                    bytes_written := (if fine then bytes_written st1 + add_bytes else bytes_written st1)\<rparr>\<rparr>, d2)))"

definition rotating_flush :: "RotatingFileSink \<times> disk \<Rightarrow> RotatingFileSink \<times> disk" where
  "rotating_flush = (\<lambda>(k, d).
     case writer (inner k) of
       None \<Rightarrow> (k, d)
     | Some w \<Rightarrow> (case flush_buf w d of
         (_, w', d') \<Rightarrow> (k\<lparr>inner := (inner k)\<lparr>writer := Some w'\<rparr>\<rparr>, d')))"

section \<open>Names of rotated files\<close>

lemma rotated_name_inj [simp]: "rotated_name b i = rotated_name b j \<longleftrightarrow> i = j"
  by (simp add: rotated_name_def show_nat_inj)

lemma rotated_name_base [simp]: "rotated_name b i \<noteq> b" "b \<noteq> rotated_name b i"
  by (simp_all add: rotated_name_def)

section \<open>Nothing is lost\<close>

text \<open>
  \<open>rotated_files\<close>: the contents of the rotated files, oldest first. \<open>rotating_ok n\<close>: the sink has an
  open file, no path is blocked and there is room for \<open>n\<close> bytes more.
\<close>

definition rotated_files :: "RotatingFileSink \<times> disk \<Rightarrow> bytes list" where
  "rotated_files = (\<lambda>(k, d).
     map (\<lambda>i. the (contents d (rotated_name (base_path k) i))) [1..<Suc (rotation_index (inner k))])"

definition current_file :: "RotatingFileSink \<times> disk \<Rightarrow> bytes" where
  "current_file = (\<lambda>(k, d). case writer (inner k) of None \<Rightarrow> [] | Some w \<Rightarrow> taken w d)"

definition rotating_given :: "RotatingFileSink \<times> disk \<Rightarrow> bytes" where
  "rotating_given s = concat (rotated_files s) @ current_file s"

definition rotating_stored :: "RotatingFileSink \<times> disk \<Rightarrow> bytes" where
  "rotating_stored s = concat (rotated_files s) @ the (contents (snd s) (base_path (fst s)))"

definition rotating_ok :: "nat \<Rightarrow> RotatingFileSink \<times> disk \<Rightarrow> bool" where
  "rotating_ok n = (\<lambda>(k, d).
     (\<exists>w. writer (inner k) = Some w \<and> target w = base_path k \<and> can_take n w d) \<and>
     current_path (inner k) = base_path k \<and> (\<forall>p. \<not> no_open d p \<and> \<not> no_rename d p))"

lemma rotate_inner_ok:
  assumes "rotating_ok n (k, d)" "writer (inner k) = Some w"
  shows "\<exists>st' d'. rotate_inner (policy k) (base_path k) now (inner k) d = (True, st', d') \<and>
    rotating_ok n (k\<lparr>inner := st'\<rparr>, d') \<and>
    rotated_files (k\<lparr>inner := st'\<rparr>, d') = rotated_files (k, d) @ [taken w d] \<and>
    current_file (k\<lparr>inner := st'\<rparr>, d') = [] \<and> bytes_written st' = 0"
proof -
  let ?b = "base_path k" and ?i = "rotation_index (inner k)"
  have w: "target w = ?b" "can_take n w d" "current_path (inner k) = ?b" "\<And>p. \<not> no_open d p \<and> \<not> no_rename d p"
    using assms by (auto simp: rotating_ok_def)
  obtain w1 d1 where f: "flush_buf w d = (True, w1, d1)" "buffered w1 = []" "taken w1 d1 = taken w d"
      "can_take n w1 d1" "only_target w d w1 d1"
    using flush_buf_ok [OF w(2)] by blast
  have d1: "contents d1 ?b = Some (taken w d)" "\<And>p. \<not> no_open d1 p \<and> \<not> no_rename d1 p" "n \<le> room d1"
      "\<And>p. p \<noteq> ?b \<Longrightarrow> contents d1 p = contents d p"
    using f w by (auto simp: taken_def can_take_def only_target_def)
  let ?c = "(contents d1)(?b := None, rotated_name ?b (Suc ?i) \<mapsto> taken w d)"
  let ?d3 = "d1\<lparr>contents := ?c(?b \<mapsto> [])\<rparr>"
  let ?st = "inner k\<lparr>writer := Some (buf_new ?b), rotation_index := Suc ?i, bytes_written := 0,
      next_rotation_at := compute_next_rotation (policy k) now\<rparr>"
  have "rotate_inner (policy k) ?b now (inner k) d = (True, ?st, ?d3)"
    using assms(2) w(3) f(1) d1(1,2)
    by (simp add: rotate_inner_def close_writer_def rename_def open_writer_def open_append_def)
  moreover have "rotating_ok n (k\<lparr>inner := ?st\<rparr>, ?d3)"
    using w(3) d1(2,3) by (simp add: rotating_ok_def buf_new_def can_take_def)
  moreover have "map (\<lambda>i. the (contents ?d3 (rotated_name ?b i))) [1..<Suc ?i] =
      map (\<lambda>i. the (contents d (rotated_name ?b i))) [1..<Suc ?i]"
    using d1(4) by (intro map_cong) auto
  then have "rotated_files (k\<lparr>inner := ?st\<rparr>, ?d3) = rotated_files (k, d) @ [taken w d]"
    by (simp add: rotated_files_def)
  moreover have "current_file (k\<lparr>inner := ?st\<rparr>, ?d3) = []"
    by (simp add: current_file_def taken_def buf_new_def)
  ultimately show ?thesis by fastforce
qed

lemma rotated_files_cong:
  assumes "only_target w d w' d'" "target w = base_path k" "rotation_index st = rotation_index (inner k)"
  shows "rotated_files (k\<lparr>inner := st\<rparr>, d') = rotated_files (k, d)"
  using assms by (auto simp: rotated_files_def only_target_def)

text \<open>One write: it rotates or not, and then appends its line to the current file.\<close>

lemma rotating_write_ok:
  assumes ok: "rotating_ok (length m + 1 + n) (k, d)"
  shows "\<exists>k' d'. rotating_write e m (k, d) = (k', d') \<and> rotating_ok n (k', d') \<and>
    base_path k' = base_path k \<and> policy k' = policy k \<and>
    (if would_exceed k (fst e) m
        then rotated_files (k', d') = rotated_files (k, d) @ [current_file (k, d)] \<and>
          current_file (k', d') = m @ [10] \<and> bytes_written (inner k') = length m + 1
        else rotated_files (k', d') = rotated_files (k, d) \<and>
          current_file (k', d') = current_file (k, d) @ m @ [10] \<and>
          bytes_written (inner k') = bytes_written (inner k) + (length m + 1))"
proof -
  obtain w where w: "writer (inner k) = Some w" "target w = base_path k" "can_take (length m + 1 + n) w d"
    using ok by (auto simp: rotating_ok_def)
  obtain st1 d1 where eq: "(if would_exceed k (fst e) m
      then snd (rotate_inner (policy k) (base_path k) (snd e) (inner k) d) else (inner k, d)) = (st1, d1)"
    by fastforce
  have r: "rotating_ok (length m + 1 + n) (k\<lparr>inner := st1\<rparr>, d1) \<and>
    (if would_exceed k (fst e) m
     then rotated_files (k\<lparr>inner := st1\<rparr>, d1) = rotated_files (k, d) @ [taken w d] \<and>
        current_file (k\<lparr>inner := st1\<rparr>, d1) = [] \<and> bytes_written st1 = 0
     else st1 = inner k \<and> d1 = d)"
    using rotate_inner_ok [OF ok w(1), of "snd e"] ok eq by (auto split: if_splits)
  then obtain w1 where w1: "writer st1 = Some w1" "target w1 = base_path k" "can_take (length m + 1 + n) w1 d1"
      "current_path st1 = base_path k" "\<And>p. \<not> no_open d1 p \<and> \<not> no_rename d1 p"
    by (auto simp: rotating_ok_def)
  obtain w2 d2 where w2: "writeln m w1 d1 = (True, w2, d2)" "taken w2 d2 = taken w1 d1 @ m @ [10]"
      "can_take n w2 d2" "only_target w1 d1 w2 d2"
    using writeln_ok [OF w1(3)] by blast
  let ?st = "st1\<lparr>writer := Some w2, bytes_written := bytes_written st1 + (length m + 1)\<rparr>"
  have "rotating_write e m (k, d) = (k\<lparr>inner := ?st\<rparr>, d2)"
    using w1(1) w2(1) eq by (cases e; cases "would_exceed k (fst e) m") (simp_all add: rotating_write_def)
  moreover have "rotating_ok n (k\<lparr>inner := ?st\<rparr>, d2)"
    using w1 w2(3,4) by (auto simp: rotating_ok_def only_target_def)
  moreover have "rotated_files (k\<lparr>inner := ?st\<rparr>, d2) = rotated_files (k\<lparr>inner := st1\<rparr>, d1)"
    using rotated_files_cong [OF w2(4), of "k\<lparr>inner := st1\<rparr>" ?st] w1(2) by simp
  moreover have "current_file (k\<lparr>inner := ?st\<rparr>, d2) = current_file (k\<lparr>inner := st1\<rparr>, d1) @ m @ [10]"
    using w2(2) w1(1) by (simp add: current_file_def)
  moreover have "current_file (k, d) = taken w d" using w(1) by (simp add: current_file_def)
  ultimately show ?thesis
    using r by (cases "would_exceed k (fst e) m") simp_all
qed

lemma rotating_flush_ok:
  assumes "rotating_ok n (k, d)"
  shows "rotating_given (rotating_flush (k, d)) = rotating_given (k, d) \<and>
    rotating_stored (rotating_flush (k, d)) = rotating_given (k, d) \<and> rotating_ok n (rotating_flush (k, d))"
proof -
  obtain w where w: "writer (inner k) = Some w" "target w = base_path k" "can_take n w d"
      "current_path (inner k) = base_path k" "\<And>p. \<not> no_open d p \<and> \<not> no_rename d p"
    using assms by (auto simp: rotating_ok_def)
  obtain w1 d1 where f: "flush_buf w d = (True, w1, d1)" "buffered w1 = []" "taken w1 d1 = taken w d"
      "can_take n w1 d1" "only_target w d w1 d1"
    using flush_buf_ok [OF w(3)] by blast
  let ?k = "k\<lparr>inner := (inner k)\<lparr>writer := Some w1\<rparr>\<rparr>"
  have "rotating_flush (k, d) = (?k, d1)" using w(1) f(1) by (simp add: rotating_flush_def)
  moreover have "rotated_files (?k, d1) = rotated_files (k, d)"
    by (rule rotated_files_cong [OF f(5) w(2)]) simp
  moreover have "the (contents d1 (base_path k)) = taken w d" "current_file (?k, d1) = taken w d"
    using f w(2) by (auto simp: taken_def current_file_def only_target_def)
  moreover have "current_file (k, d) = taken w d" using w(1) by (simp add: current_file_def)
  moreover have "rotating_ok n (?k, d1)" using f w by (auto simp: rotating_ok_def only_target_def)
  ultimately show ?thesis by (simp add: rotating_given_def rotating_stored_def)
qed

interpretation rotating: sink rotating_write rotating_flush "\<lambda>m. m @ [10]" rotating_ok rotating_given rotating_stored
proof (unfold_locales, goal_cases)
  case (1 m n s e)
  obtain k d where s: "s = (k, d)" by (cases s)
  show ?case
    using rotating_write_ok [of m n k d e] 1
    by (auto simp: s rotating_given_def split: if_splits)
next
  case (2 n s)
  then show ?case using rotating_flush_ok by (cases s) simp
qed

section \<open>The size of the files\<close>

text \<open>
  \<open>small b ts c\<close>: the file content \<open>c\<close> has at most \<open>b\<close> bytes, or is the line of one message of \<open>ts\<close>
  that is longer on its own.
\<close>

definition small :: "nat \<Rightarrow> bytes list \<Rightarrow> bytes \<Rightarrow> bool" where
  "small b ts c \<longleftrightarrow> length c \<le> b \<or> (\<exists>t \<in> set ts. c = t @ [10])"

definition sizes_ok :: "nat \<Rightarrow> bytes list \<Rightarrow> RotatingFileSink \<times> disk \<Rightarrow> bool" where
  "sizes_ok b ts s \<longleftrightarrow> policy (fst s) = SizeBased b \<and>
     bytes_written (inner (fst s)) = length (current_file s) \<and>
     list_all (small b ts) (rotated_files s) \<and> small b ts (current_file s)"

lemma small_mono: "small b ts c \<Longrightarrow> set ts \<subseteq> set us \<Longrightarrow> small b us c"
  by (auto simp: small_def)

lemma rotating_write_sizes:
  assumes "rotating_ok (length m + 1 + n) s" "sizes_ok b ts s"
  shows "sizes_ok b (ts @ [m]) (rotating_write e m s)"
proof -
  obtain k d where s: "s = (k, d)" by (cases s)
  have old: "list_all (small b (ts @ [m])) (rotated_files s)" "small b (ts @ [m]) (current_file s)"
    using assms(2) small_mono [of b ts _ "ts @ [m]"] by (auto simp: sizes_ok_def list_all_iff)
  have new: "small b (ts @ [m]) (m @ [10])" by (simp add: small_def)
  have "\<not> would_exceed k (fst e) m \<Longrightarrow> small b (ts @ [m]) (current_file s @ m @ [10])"
    using assms(2) by (simp add: sizes_ok_def s would_exceed_def small_def)
  then show ?thesis
    using rotating_write_ok [of m n k d e] assms old new
    by (cases "would_exceed k (fst e) m") (auto simp: sizes_ok_def s)
qed

lemma rotating_writes_sizes:
  "rotating_ok (length (concat (map (\<lambda>(e, m). m @ [10]) ms)) + n) s \<Longrightarrow> sizes_ok b ts s \<Longrightarrow>
   sizes_ok b (ts @ map snd ms) (fold (\<lambda>(e, m). rotating_write e m) ms s)"
proof (induction ms arbitrary: s ts)
  case (Cons x ms)
  obtain e m where x: "x = (e, m)" by (cases x)
  let ?n = "length (concat (map (\<lambda>(e, m). m @ [10]) ms)) + n"
  have ok: "rotating_ok (length m + 1 + ?n) s" using Cons.prems(1) by (simp add: x add.assoc)
  then have "rotating_ok ?n (rotating_write e m s)"
    using rotating.write_appends [of m ?n s e] by simp
  from Cons.IH [OF this rotating_write_sizes [OF ok Cons.prems(2)]] show ?case by (simp add: x)
qed simp

lemma rotating_flush_files:
  assumes "rotating_ok n s"
  shows "rotated_files (rotating_flush s) = rotated_files s"
    "the (contents (snd (rotating_flush s)) (base_path (fst (rotating_flush s)))) = current_file s"
proof -
  obtain k d where s: "s = (k, d)" by (cases s)
  obtain w where w: "writer (inner k) = Some w" "target w = base_path k" "can_take n w d"
    using assms by (auto simp: rotating_ok_def s)
  obtain w1 d1 where f: "flush_buf w d = (True, w1, d1)" "buffered w1 = []" "taken w1 d1 = taken w d"
      "only_target w d w1 d1"
    using flush_buf_ok [OF w(3)] by blast
  have e: "rotating_flush (k, d) = (k\<lparr>inner := (inner k)\<lparr>writer := Some w1\<rparr>\<rparr>, d1)"
    using w(1) f(1) by (simp add: rotating_flush_def)
  show "rotated_files (rotating_flush s) = rotated_files s"
    unfolding s e by (rule rotated_files_cong [OF f(4) w(2)]) simp
  show "the (contents (snd (rotating_flush s)) (base_path (fst (rotating_flush s)))) = current_file s"
    using f w by (auto simp: e s current_file_def taken_def only_target_def)
qed

section \<open>A new sink\<close>

lemma rotating_new_ok:
  assumes "rotating_new base pol now d = Some (k, d0)" "\<forall>p. \<not> no_open d p \<and> \<not> no_rename d p" "n \<le> room d"
  shows "rotating_ok n (k, d0)" "rotated_files (k, d0) = []" "base_path k = base" "policy k = pol"
    "current_file (k, d0) = (case contents d base of None \<Rightarrow> [] | Some c \<Rightarrow> c)"
    "bytes_written (inner k) = 0"
  using assms
  by (auto simp: rotating_new_def open_writer_def open_append_def rotating_ok_def can_take_def buf_new_def
      rotated_files_def current_file_def taken_def)

lemma rotating_write_base: "base_path (fst (rotating_write e m s)) = base_path (fst s)"
  by (cases s; cases e) (auto simp: rotating_write_def Let_def split: prod.splits option.splits if_splits)

lemma rotating_writes_base: "base_path (fst (fold (\<lambda>(e, m). rotating_write e m) ms s)) = base_path (fst s)"
  by (induction ms arbitrary: s) (auto simp: rotating_write_base)

lemma rotating_flush_base: "base_path (fst (rotating_flush s)) = base_path (fst s)"
  by (cases s) (auto simp: rotating_flush_def split: prod.splits option.splits)

text \<open>
  The numbers of rotated files start again with every sink: the first rotation after a restart
  replaces the file that the first rotation of an earlier run made.
\<close>

lemma restart_overwrites:
  assumes "rotating_new base pol now d = Some (k, d0)" "\<forall>p. \<not> no_open d p \<and> \<not> no_rename d p"
  shows "\<exists>st' d'. rotate_inner pol base now' (inner k) d0 = (True, st', d') \<and>
    the (contents d' (rotated_name base 1)) = (case contents d base of None \<Rightarrow> [] | Some c \<Rightarrow> c)"
proof -
  note n = rotating_new_ok [OF assms, of 0]
  obtain w where w: "writer (inner k) = Some w" using n(1) by (auto simp: rotating_ok_def)
  obtain st' d' where r: "rotate_inner pol base now' (inner k) d0 = (True, st', d')"
      "rotated_files (k\<lparr>inner := st'\<rparr>, d') = [taken w d0]"
    using rotate_inner_ok [OF n(1) w, of now'] n(2-4) by auto
  have "rotation_index st' = 1"
    using r(2) by (cases "rotation_index st'") (auto simp: rotated_files_def split: if_splits)
  then have "the (contents d' (rotated_name base 1)) = taken w d0"
    using r(2) n(3) by (simp add: rotated_files_def)
  then show ?thesis using r(1) n(5) w by (simp add: current_file_def)
qed

text \<open>The next rotation of a time policy is at the next full hour or day, strictly later.\<close>

definition interval_ns :: "TimeInterval \<Rightarrow> int" where
  "interval_ns i = (case i of Hourly \<Rightarrow> 3600 | Daily \<Rightarrow> 86400) * 10 ^ 9"

lemma next_rotation_boundary:
  fixes i :: TimeInterval and now :: int
  assumes "0 \<le> now"
  defines "t \<equiv> compute_next_rotation (TimeBased i) now"
  shows "now < t" "t \<le> now + interval_ns i" "interval_ns i dvd t"
proof -
  define secs where "secs = now div 10 ^ 9"
  have now: "10 ^ 9 * secs \<le> now" "now < 10 ^ 9 * secs + 10 ^ 9"
    by (simp_all add: secs_def)
  define n :: int where "n = (case i of Hourly \<Rightarrow> 3600 | Daily \<Rightarrow> 86400)"
  have n: "0 < n" "interval_ns i = n * 10 ^ 9" by (cases i; simp add: n_def interval_ns_def)+
  have t: "t = (secs div n + 1) * n * 10 ^ 9"
    using assms(1) by (cases i) (simp_all add: t_def compute_next_rotation_def secs_def n_def Let_def)
  have d: "secs div n * n \<le> secs" "secs < secs div n * n + n"
    using pos_mod_bound [OF n(1), of secs] pos_mod_sign [OF n(1), of secs] div_mult_mod_eq [of secs n] by linarith+
  show "now < t" "t \<le> now + interval_ns i"
    using now d by (simp_all add: t n(2) distrib_right)
  show "interval_ns i dvd t" by (simp add: t n(2) mult.assoc)
qed

section \<open>A sink without a file\<close>

text \<open>
  A rotation whose rename works and whose open fails leaves no writer and no file at the path: the
  next rename has nothing to rename, so no rotation ever reaches its open again.
\<close>

definition stuck :: "RotatingFileSink \<times> disk \<Rightarrow> bool" where
  "stuck = (\<lambda>(k, d). writer (inner k) = None \<and> contents d (current_path (inner k)) = None)"

lemma stuck_write: "stuck s \<Longrightarrow> stuck (rotating_write e m s) \<and> snd (rotating_write e m s) = snd s"
  by (cases s; cases e) (auto simp: stuck_def rotating_write_def rotate_inner_def rename_def Let_def)

lemma stuck_writes: "stuck s \<Longrightarrow> snd (fold (\<lambda>(e, m). rotating_write e m) ms s) = snd s"
proof (induction ms arbitrary: s)
  case (Cons x ms)
  obtain e m where x: "x = (e, m)" by (cases x)
  show ?case using Cons.IH [of "rotating_write e m s"] stuck_write [OF Cons.prems, of e m] by (simp add: x)
qed simp

lemma open_failure_stuck:
  assumes "writer (inner k) = Some w" "target w = base_path k" "current_path (inner k) = base_path k"
    and "contents d (base_path k) \<noteq> None" "would_exceed k (fst e) m"
    and "no_open d (base_path k)" "\<forall>p. \<not> no_rename d p"
  shows "stuck (rotating_write e m (k, d))"
proof -
  have f: "contents (close_writer w d) (base_path k) \<noteq> None" "no_open (close_writer w d) = no_open d"
      "no_rename (close_writer w d) = no_rename d"
    using assms(2,4) by (auto simp: close_writer_def flush_buf_def write_file_def split: prod.splits)
  then show ?thesis
    using assms
    by (cases e) (auto simp: stuck_def rotating_write_def rotate_inner_def rename_def open_writer_def
        open_append_def Let_def)
qed

section \<open>Properties\<close>

text \<open>A disk with one kilobyte of room, and a sink on it that rotates after five bytes.\<close>

definition small_disk :: disk where
  "small_disk = \<lparr>contents = Map.empty, room = 1024, no_open = (\<lambda>_. False), no_rename = (\<lambda>_. False)\<rparr>"

definition small_rotating :: RotatingFileSink where
  "small_rotating = \<lparr>inner = \<lparr>writer = Some (buf_new (str ''log'')), current_path = str ''log'', bytes_written = 0,
     next_rotation_at = 3153600000000000000, rotation_index = 0\<rparr>, base_path = str ''log'', policy = SizeBased 5\<rparr>"

lemma small_rotating_new:
  "rotating_new (str ''log'') (SizeBased 5) 0 small_disk =
     Some (small_rotating, small_disk\<lparr>contents := [str ''log'' \<mapsto> []]\<rparr>)"
  by (simp add: rotating_new_def open_writer_def open_append_def small_disk_def small_rotating_def
      compute_next_rotation_def)

lemma small_disk_works: "\<forall>p. \<not> no_open small_disk p \<and> \<not> no_rename small_disk p"
  by (simp add: small_disk_def)

text \<open>C19: On a disk that does not fail, a new rotating sink loses nothing: after any writes under
  either policy, at any times, and a flush, the rotated files in the order of their numbers and
  then the current file hold what the file held before and one line for every message in order.\<close>

theorem rotation_keeps_all:
  assumes "rotating_new base pol now d = Some (k, d0)" and "\<forall>p. \<not> no_open d p \<and> \<not> no_rename d p"
    and "length (concat (map (\<lambda>(e, m). m @ [10]) ms)) \<le> room d"
  defines "s \<equiv> rotating_flush (fold (\<lambda>(e, m). rotating_write e m) ms (k, d0))"
  shows "concat (rotated_files s) @ the (contents (snd s) base) =
    (case contents d base of None \<Rightarrow> [] | Some c \<Rightarrow> c) @ concat (map (\<lambda>(e, m). m @ [10]) ms)"
proof -
  note n = rotating_new_ok [OF assms(1,2)]
  have "base_path (fst s) = base" by (simp add: s_def rotating_flush_base rotating_writes_base n(3) [OF assms(3)])
  then show ?thesis
    using rotating.writes_stored [OF n(1) [OF assms(3)]] n(2,5) [OF assms(3)]
    by (simp add: s_def rotating_stored_def rotating_given_def)
qed

theorem rotation_keeps_all_witness:
  "let s = rotating_flush (fold (\<lambda>(e, m). rotating_write e m) [((0, 0), str ''abcd''), ((1, 1), str ''ef'')]
      (small_rotating, small_disk\<lparr>contents := [str ''log'' \<mapsto> []]\<rparr>))
   in concat (rotated_files s) @ the (contents (snd s) (str ''log'')) = str ''abcd'' @ [10] @ str ''ef'' @ [10]"
  using rotation_keeps_all [OF small_rotating_new small_disk_works, of "[((0, 0), str ''abcd''), ((1, 1), str ''ef'')]"]
  by (simp add: small_disk_def)

text \<open>C20: With a size limit and no file to begin with, no file grows beyond the limit, except one that
  holds the single line of a message that is longer by itself.\<close>

theorem rotated_files_bounded:
  assumes "rotating_new base (SizeBased b) now d = Some (k, d0)" and "\<forall>p. \<not> no_open d p \<and> \<not> no_rename d p"
    and "length (concat (map (\<lambda>(e, m). m @ [10]) ms)) \<le> room d" and "contents d base = None"
  defines "s \<equiv> rotating_flush (fold (\<lambda>(e, m). rotating_write e m) ms (k, d0))"
  shows "list_all (small b (map snd ms)) (the (contents (snd s) base) # rotated_files s)"
proof -
  note n = rotating_new_ok [OF assms(1-3)]
  let ?s = "fold (\<lambda>(e, m). rotating_write e m) ms (k, d0)"
  have "sizes_ok b [] (k, d0)" using n(2-6) assms(4) by (simp add: sizes_ok_def small_def)
  then have "sizes_ok b (map snd ms) ?s"
    using rotating_writes_sizes [of ms 0 "(k, d0)" b "[]"] n(1) by simp
  moreover have "rotating_ok 0 ?s" using rotating.writes_append [of ms 0 "(k, d0)"] n(1) by simp
  note f = rotating_flush_files [OF this]
  moreover have "base_path (fst s) = base"
    by (simp add: s_def rotating_flush_base rotating_writes_base n(3))
  ultimately show ?thesis by (simp add: s_def sizes_ok_def)
qed

theorem rotated_files_bounded_witness:
  "let s = rotating_flush (fold (\<lambda>(e, m). rotating_write e m) [((0, 0), str ''abcd''), ((1, 1), str ''ef'')]
      (small_rotating, small_disk\<lparr>contents := [str ''log'' \<mapsto> []]\<rparr>))
   in list_all (small 5 [str ''abcd'', str ''ef'']) (the (contents (snd s) (str ''log'')) # rotated_files s)"
  using rotated_files_bounded [OF small_rotating_new small_disk_works, of "[((0, 0), str ''abcd''), ((1, 1), str ''ef'')]"]
  by (simp add: small_disk_def)

text \<open>C21: If in a rotation the new file cannot be opened once, the sink never writes again: also on a
  disk on which everything works again, no later message reaches it.\<close>

theorem rotation_never_recovers:
  assumes "writer (inner k) = Some w" "target w = base_path k" "current_path (inner k) = base_path k"
    and "contents d (base_path k) \<noteq> None" "would_exceed k (fst e) m"
    and "no_open d (base_path k)" "\<forall>p. \<not> no_rename d p"
    and "rotating_write e m (k, d) = (k1, d1)"
    and "d2 = d1\<lparr>room := r, no_open := (\<lambda>_. False)\<rparr>"
  shows "snd (fold (\<lambda>(e, m). rotating_write e m) ms (k1, d2)) = d2"
proof -
  have "stuck (k1, d2)" using open_failure_stuck [OF assms(1-7)] assms(8,9) by (simp add: stuck_def)
  from stuck_writes [OF this] show ?thesis by simp
qed

theorem rotation_never_recovers_witness:
  defines "d \<equiv> small_disk\<lparr>contents := [str ''log'' \<mapsto> []], no_open := (\<lambda>_. True)\<rparr>"
  defines "broken \<equiv> rotating_write (0, 0) (str ''abcdef'') (small_rotating, d)"
  defines "repaired \<equiv> (snd broken)\<lparr>room := 1000, no_open := (\<lambda>_. False)\<rparr>"
  shows "snd (fold (\<lambda>(e, m). rotating_write e m) [((1, 1), str ''x''), ((2, 2), str ''y'')] (fst broken, repaired)) = repaired"
  by (rule rotation_never_recovers [where k = small_rotating and w = "buf_new (str ''log'')" and d = d and e = "(0, 0)" and m = "str ''abcdef''"])
    (simp_all add: small_rotating_def d_def small_disk_def buf_new_def would_exceed_def broken_def repaired_def)

end
