(* ===== verification/Growth.thy ===== *)
theory Growth
  imports Thread_Context
begin

text \<open>
  How much memory the unbounded mode takes: the capacity of a thread's ring after a push, and the
  rings that a push adds to the registry.
\<close>

lemma by_thread_Cons: "by_thread (u # us) (m # ms) t = (if u = t then m # by_thread us ms t else by_thread us ms t)"
  by (simp add: by_thread_def)

lemma try_push_same: "try_push attempt c w = Some (Inl e, w') \<Longrightarrow> w' = w"
  by (auto simp: try_push_def split: option.splits sum.splits)

lemma try_push_registry: "try_push attempt c w = Some (res, w') \<Longrightarrow> registry w' = registry w"
  by (auto simp: try_push_def split: option.splits sum.splits)

text \<open>What a push does to the context of its thread and to the registry.\<close>

definition grown :: "nat \<Rightarrow> ThreadContext \<Rightarrow> 'r world \<Rightarrow> ThreadContext \<Rightarrow> 'r world \<Rightarrow> bool" where
  "grown need c w c' w' \<longleftrightarrow> mode c' = mode c \<and> capacity c \<le> capacity c' \<and>
     (capacity c' = capacity c \<or> capacity c' \<le> 2 * need) \<and>
     (\<exists>new. registry w' = registry w @ new \<and> (new = [] \<longleftrightarrow> capacity c' = capacity c))"

lemma try_push_ctx_same: "try_push attempt c w = Some (res, w') \<Longrightarrow> ctxs w' = ctxs w"
  by (auto simp: try_push_def split: option.splits sum.splits)

lemma get_ctx_other: "get_ctx R t w = (c, w1) \<Longrightarrow> u \<noteq> t \<Longrightarrow> ctxs w1 u = ctxs w u"
  by (auto simp: get_ctx_def new_ctx_def with_mode_def Let_def split: option.splits prod.splits)

lemma grow_ctx_ctxs: "grow_ctx R c w = Some (c', w') \<Longrightarrow> ctxs w' = ctxs w"
  by (auto simp: grow_ctx_def drop_ctx_def Let_def split: option.splits)

lemma push_loop_cases:
  assumes "push_loop R attempt c w = Some (res, c', w')"
  obtains (stop) w1 where "try_push attempt c w = Some (res, w1)" "c' = c" "w' = w1"
    | (grow) w1 c2 w2 where "try_push attempt c w = Some (Inl Full, w1)" "grow_ctx R c w1 = Some (c2, w2)"
        "push_loop R attempt c2 w2 = Some (res, c', w')"
  using assms by (subst (asm) push_loop.simps)
    (auto split: option.splits sum.splits PushError.splits prod.splits)

lemma push_loop_ctxs: "push_loop R attempt c w = Some (res, c', w') \<Longrightarrow> ctxs w' = ctxs w"
proof (induction "MAX_BLOCK_CAPACITY - capacity c" arbitrary: c w rule: less_induct)
  case less
  from less.prems show ?case
  proof (cases rule: push_loop_cases)
    case stop
    then show ?thesis by (simp add: try_push_ctx_same)
  next
    case (grow w1 c2 w2)
    have "MAX_BLOCK_CAPACITY - capacity c2 < MAX_BLOCK_CAPACITY - capacity c"
      using grow_ctx_capacity [OF grow(2)] by auto
    then show ?thesis
      using less.hyps [OF _ grow(3)] try_push_ctx_same [OF grow(1)] grow_ctx_ctxs [OF grow(2)] by simp
  qed
qed

lemma push_with_other:
  assumes "push_with R attempt t w = Some (res, w')" "u \<noteq> t"
  shows "ctxs w' u = ctxs w u"
proof -
  obtain c w1 where g: "get_ctx R t w = (c, w1)" by fastforce
  show ?thesis
  proof (cases "mode c = BoundedDropping")
    case True
    then have "ctxs w' = ctxs w1"
      using assms(1) g by (auto simp: push_with_def dest: try_push_ctx_same)
    then show ?thesis using get_ctx_other [OF g assms(2)] by simp
  next
    case False
    then obtain c' w2 where "push_loop R attempt c w1 = Some (res, c', w2)" "w' = w2\<lparr>ctxs := (ctxs w2)(t \<mapsto> c')\<rparr>"
      using assms(1) g by (auto simp: push_with_def split: Option.bind_splits)
    then show ?thesis using push_loop_ctxs get_ctx_other [OF g assms(2)] assms(2) by fastforce
  qed
qed

context byte_ring
begin

lemma push_loop_growth:
  assumes del: "delivers V fs attempt P"
  shows "world_ok V (w\<lparr>ctxs := (ctxs w)(t \<mapsto> c)\<rparr>) ow css \<Longrightarrow>
    push_loop R attempt c w = Some (res, c', w') \<Longrightarrow>
    grown (fs + length (committed V (rings w ! producer c))) c w c' w' \<and> (res \<noteq> Inl Full \<longrightarrow> fs \<le> capacity c')"
proof (induction "MAX_BLOCK_CAPACITY - capacity c" arbitrary: c w ow css rule: less_induct)
  case less
  let ?w = "w\<lparr>ctxs := (ctxs w)(t \<mapsto> c)\<rparr>" and ?need = "fs + length (committed V (rings w ! producer c))"
  have c: "ctxs ?w t = Some c" by simp
  note tp = try_push_spec [OF less.prems(1) c del]
  show ?case
  proof (cases "?need \<le> capacity c")
    case True
    then obtain x w1 where "try_push attempt c w = Some (Inr x, w1)"
      using tp(2) by (auto simp: try_push_ctxs)
    then show ?thesis
      using less.prems(2) try_push_registry True
      by (auto simp: push_loop.simps [of R attempt c w] grown_def)
  next
    case False
    then have "try_push attempt c ?w = Some (Inl Full, ?w)" using tp(1) by simp
    then have full: "try_push attempt c w = Some (Inl Full, w)"
      by (auto simp: try_push_ctxs dest: try_push_same)
    show ?thesis
    proof (cases "grow_ctx R c w")
      case None
      then show ?thesis
        using less.prems(2) full by (auto simp: push_loop.simps [of R attempt c w] grown_def)
    next
      case (Some cw)
      then obtain c1 w1 where g: "grow_ctx R c w = Some (c1, w1)" by (cases cw) auto
      note gs = grow_ctx_spec [OF less.prems(1) g]
      have cap: "capacity c < capacity c1" "capacity c1 \<le> MAX_BLOCK_CAPACITY" "capacity c1 \<le> 2 * ?need"
        using grow_ctx_capacity [OF g] gs(5) False by auto
      have "push_loop R attempt c1 w1 = Some (res, c', w')"
        using less.prems(2) full g by (simp add: push_loop.simps [of R attempt c w])
      then have "grown fs c1 w1 c' w' \<and> (res \<noteq> Inl Full \<longrightarrow> fs \<le> capacity c')"
        using less.hyps [OF _ gs(1)] cap gs(3) by fastforce
      moreover have "registry w1 = registry w @ [length (rings w)]"
        using g by (auto simp: grow_ctx_def drop_ctx_def Let_def split: option.splits)
      ultimately show ?thesis using cap gs(6) by (auto simp: grown_def)
    qed
  qed
qed

lemma push_with_growth:
  assumes H: "world_holds V w T" and del: "delivers V fs attempt P" and g: "get_ctx R t w = (c, w1)"
    and p: "push_with R attempt t w = Some (res, w')"
  shows "\<exists>c'. ctxs w' t = Some c' \<and> grown (fs + (capacity c - free_bytes V w1 c)) c w1 c' w' \<and>
    (res \<noteq> Inl Full \<longrightarrow> fs \<le> capacity c')"
proof -
  have H1: "world_holds V w1 T" and c: "ctxs w1 t = Some c"
    using get_ctx_holds [OF H, of t] g by auto
  obtain ow css where ok: "world_ok V w1 ow css" using H1 by (auto simp: world_holds_def)
  have "length (committed V (rings w1 ! producer c)) \<le> capacity c"
    using fits_free [OF H1 c, of 0] by (simp add: free_bytes_def)
  then have used: "capacity c - free_bytes V w1 c = length (committed V (rings w1 ! producer c))"
    by (simp add: free_bytes_def)
  show ?thesis
  proof (cases "mode c")
    case BoundedDropping
    then have "try_push attempt c w1 = Some (res, w')" using p g by (simp add: push_with_def)
    then have "registry w' = registry w1" "ctxs w' = ctxs w1"
        "res \<noteq> Inl Full \<longrightarrow> fs + length (committed V (rings w1 ! producer c)) \<le> capacity c"
      using try_push_spec(1) [OF ok c del] by (auto dest: try_push_registry try_push_keeps_ctxs)
    then show ?thesis using c by (intro exI [of _ c]) (auto simp: grown_def)
  next
    case UnboundedBlocking
    then obtain c' w2 where l: "push_loop R attempt c w1 = Some (res, c', w2)"
        "w' = w2\<lparr>ctxs := (ctxs w2)(t \<mapsto> c')\<rparr>"
      using p g by (auto simp: push_with_def split: Option.bind_splits)
    have "world_ok V (w1\<lparr>ctxs := (ctxs w1)(t \<mapsto> c)\<rparr>) ow css"
      using ok fun_upd_triv [of "ctxs w1" t] by (simp add: c [symmetric])
    from push_loop_growth [OF del this l(1)] show ?thesis
      using l(2) by (simp add: used grown_def)
  qed
qed

text \<open>
  A thread's ring holds no more than the frames of the thread's waiting messages; other threads'
  contexts are not touched by a push.
\<close>

lemma free_bytes_ge:
  assumes H: "world_holds V w T" and c: "ctxs w t = Some c"
  shows "capacity c \<le> free_bytes V w c + sum_list (map frame_size (T t))"
proof -
  obtain ow css where ok: "world_ok V w ow css" and T: "T = thread_msgs w ow css"
    using H by (auto simp: world_holds_def)
  note p = world_ok_producer [OF ok c]
  have "length (committed V (rings w ! producer c)) = sum_list (map frame_size (css ! producer c))"
    using p(4) by (simp add: queue_holds_def framed_length)
  moreover obtain ps where "filter (\<lambda>i. ow ! i = t) (registry w) = ps @ [producer c]"
    using p(1) by (auto simp: owns_def)
  then have "T t = concat (map (nth css) ps) @ css ! producer c" by (simp add: T thread_msgs_def)
  ultimately show ?thesis by (simp add: free_bytes_def)
qed

end

section \<open>Property\<close>

text \<open>C40: Growth is bounded by need. A push never shrinks the ring of its thread and never changes the
  mode; when it makes the ring larger, the new capacity is at most twice what the waiting messages
  and the new one need together; and it adds a consumer to the registry exactly when it grows.\<close>

theorem growth_bounded_by_need:
  assumes "byte_ring R V" and "world_holds V w T" and "length d < 2 ^ 63"
    and "get_ctx R t w = (c, w1)" and "ctx_push R t d w = Some (res, w')"
  shows "\<exists>c'. ctxs w' t = Some c' \<and> mode c' = mode c \<and> capacity c \<le> capacity c' \<and>
    (capacity c' = capacity c \<or> capacity c' \<le> 2 * (frame_size d + (capacity c - free_bytes V w1 c))) \<and>
    (\<exists>new. registry w' = registry w1 @ new \<and> (new = [] \<longleftrightarrow> capacity c' = capacity c))"
  using byte_ring.push_with_growth [OF assms(1,2) byte_ring.push_delivers [OF assms(1,3)] assms(4)] assms(5)
  unfolding ctx_push_def grown_def by blast

theorem growth_bounded_by_need_witness:
  "\<exists>res w' c'. ctx_push c_rtrb 0 (replicate 200 7) (small_world UnboundedBlocking) = Some (res, w') \<and>
    ctxs w' 0 = Some c' \<and> 128 \<le> capacity c' \<and> capacity c' \<le> 512"
proof -
  obtain res w' where p: "ctx_push c_rtrb 0 (replicate 200 7) (small_world UnboundedBlocking) = Some (res, w')"
    using cr.push_with_holds [OF small_world_holds cr.push_delivers, of "replicate 200 7" 0 UnboundedBlocking]
    by (auto simp: ctx_push_def)
  from growth_bounded_by_need [OF cr.byte_ring_axioms small_world_holds _ small_world_simps(1) p]
  show ?thesis using p by (auto simp: frame_size_def FRAME_HEADER_def)
qed

end
