(* ===== verification/Derive.thy ===== *)
theory Derive
  imports Arg_Display
begin

text \<open>
  The derive macro of \<open>rapidlog_derive/src/lib.rs\<close> as the code generator it is: from the parsed item
  it builds the bodies of \<open>schema\<close>, \<open>encode_to\<close> and \<open>encoded_size\<close> and the bytes of the string table,
  or a compile error. The generated code is a small statement language; what \<open>rustc\<close> demands of
  its names is the checker \<open>compiles\<close>, and running it gives the model of derived types in \<open>Arg_Types\<close>.

  The parser \<open>syn\<close> and the quoting of tokens are the datatypes below. Identifiers are bytes; all names
  that \<open>quote!\<close> writes and all names of the item resolve at the call site, so they can capture each other.
\<close>

section \<open>Input and generated code\<close>

text \<open>\<open>syn::DeriveInput\<close>; the generic parameters are those without a default.\<close>

datatype item_data = StructItem "rty vfields" | EnumItem "(bytes \<times> rty vfields) list" | UnionItem

record DeriveInput =
  item_name :: bytes
  generics :: "bytes list"
  item_data :: item_data

text \<open>
  Statements on \<open>__v\<close>: \<open>push(b)\<close>, \<open>push(b | n as u8)\<close> and \<open>extend_from_slice(T::schema_of())\<close>. In the bodies
  of \<open>encode_to\<close>: \<open>buf[i] = b\<close>, \<open>let mut pos = n\<close> and \<open>pos += encode_to(e, &mut buf[pos..])\<close> on an argument
  \<open>&self.f\<close> or a bound name; a block ends with \<open>pos\<close> or a number.
\<close>

datatype schema_stmt = Push byte | PushOr byte nat | ExtendSchema rty

datatype arg_expr = SelfField bytes | Bound bytes

datatype enc_stmt = BufSet nat byte | LetPos nat | PosEncode arg_expr

datatype enc_result = ResultPos | ResultLit nat

type_synonym enc_block = "enc_stmt list \<times> enc_result"

text \<open>A size is a number and the arguments whose \<open>encoded_size\<close> is added to it.\<close>

type_synonym size_expr = "nat \<times> arg_expr list"

text \<open>A body is straight or a \<open>match self\<close> with one arm for each variant, which binds names.\<close>

datatype 'a gen_body = Straight 'a | MatchSelf "(bytes \<times> bytes list \<times> 'a) list"

record derived_impl =
  schema_body :: "schema_stmt list"
  st_bytes :: bytes
  encode_body :: "enc_block gen_body"
  max_size_body :: "size_expr gen_body"

section \<open>The generator\<close>

text \<open>\<open>string_table.len() as u16\<close> and its two bytes; the two bytes of a count.\<close>

definition push_u16 :: "nat \<Rightarrow> schema_stmt list" where
  "push_u16 n = [Push (word_of_nat (n mod 256)), Push (word_of_nat (n div 256 mod 256))]"

definition push_count :: "byte \<Rightarrow> nat \<Rightarrow> schema_stmt list" where
  "push_count base n = (if n \<le> 15 then [PushOr base n] else Push base # push_u16 n)"

text \<open>The loop over named fields, and the functions around it.\<close>

fun field_stmts :: "(bytes \<times> rty) list \<Rightarrow> bytes \<Rightarrow> schema_stmt list \<times> bytes" where
  "field_stmts [] table = ([], table)"
| "field_stmts ((name, ty) # fs) table =
     (let st_off = length table mod 2 ^ 16;
          (rest, table') = field_stmts fs (table @ name @ [0])
      in (push_u16 st_off @ ExtendSchema ty # rest, table'))"

definition gen_struct_schema_named :: "(bytes \<times> rty) list \<Rightarrow> bytes \<Rightarrow> schema_stmt list \<times> bytes" where
  "gen_struct_schema_named fs table =
     (let (stmts, table') = field_stmts fs table
      in (push_count 0xA0 (length fs) @ Push 0 # stmts, table'))"

definition gen_struct_schema_unnamed :: "rty list \<Rightarrow> schema_stmt list" where
  "gen_struct_schema_unnamed tys = push_count 0x90 (length tys) @ map ExtendSchema tys"

definition gen_struct_encode_body_named :: "(bytes \<times> rty) list \<Rightarrow> enc_block" where
  "gen_struct_encode_body_named fs = (LetPos 0 # map (\<lambda>f. PosEncode (SelfField (fst f))) fs, ResultPos)"

text \<open>\<open>format_ident!("f{}", i)\<close> for tuple structs, \<open>__f{}\<close> for tuple variants.\<close>

definition idents :: "string \<Rightarrow> nat \<Rightarrow> bytes list" where
  "idents prefix n = map (\<lambda>i. str prefix @ show_nat i) [0..<n]"

definition gen_struct_encode_body_unnamed :: "rty list \<Rightarrow> enc_block" where
  "gen_struct_encode_body_unnamed tys =
     (LetPos 0 # map (\<lambda>name. PosEncode (Bound name)) (idents ''f'' (length tys)), ResultPos)"

definition gen_struct_max_size_body_named :: "(bytes \<times> rty) list \<Rightarrow> size_expr" where
  "gen_struct_max_size_body_named fs = (0, map (\<lambda>f. SelfField (fst f)) fs)"

definition gen_struct_max_size_body_unnamed :: "rty list \<Rightarrow> size_expr" where
  "gen_struct_max_size_body_unnamed tys = (0, map Bound (idents ''f'' (length tys)))"

fun gen_variant_sub_schema :: "rty vfields \<Rightarrow> bytes \<Rightarrow> schema_stmt list \<times> bytes" where
  "gen_variant_sub_schema UnitF table = ([Push 0x00], table)"
| "gen_variant_sub_schema (UnnamedF tys) table =
     (if length tys = 1 then [ExtendSchema (hd tys)] else gen_struct_schema_unnamed tys, table)"
| "gen_variant_sub_schema (NamedF fs) table = gen_struct_schema_named fs table"

text \<open>The statements that write the discriminant, and its size.\<close>

definition gen_disc :: "nat \<Rightarrow> bool \<Rightarrow> enc_stmt list \<times> nat" where
  "gen_disc idx uses_u16 =
     (if uses_u16 then ([BufSet 0 (word_of_nat (idx mod 256)), BufSet 1 (word_of_nat (idx div 256 mod 256))], 2)
      else ([BufSet 0 (word_of_nat idx)], 1))"

fun gen_variant_encode_body :: "bytes \<times> rty vfields \<Rightarrow> nat \<Rightarrow> bool \<Rightarrow> bytes \<times> bytes list \<times> enc_block" where
  "gen_variant_encode_body (variant_name, fs) idx uses_u16 =
     (let (encode_disc, disc_size) = gen_disc idx uses_u16;
          block = (\<lambda>field_names. (variant_name, field_names,
            encode_disc @ LetPos disc_size # map (\<lambda>name. PosEncode (Bound name)) field_names, ResultPos))
      in case fs of
        UnitF \<Rightarrow> (variant_name, [], encode_disc, ResultLit disc_size)
      | UnnamedF tys \<Rightarrow> block (idents ''__f'' (length tys))
      | NamedF nfs \<Rightarrow> block (map fst nfs))"

fun gen_variant_max_size_body :: "bytes \<times> rty vfields \<Rightarrow> nat \<Rightarrow> bytes \<times> bytes list \<times> size_expr" where
  "gen_variant_max_size_body (variant_name, fs) disc_size =
     (case fs of
        UnitF \<Rightarrow> (variant_name, [], disc_size, [])
      | UnnamedF tys \<Rightarrow>
          let field_names = idents ''__f'' (length tys)
          in (variant_name, field_names, disc_size, map Bound field_names)
      | NamedF nfs \<Rightarrow>
          let field_names = map fst nfs
          in (variant_name, field_names, disc_size, map Bound field_names))"

fun variant_stmts :: "(bytes \<times> rty vfields) list \<Rightarrow> bytes \<Rightarrow> schema_stmt list \<times> bytes" where
  "variant_stmts [] table = ([], table)"
| "variant_stmts ((name, fs) # vs) table =
     (let st_off = length table mod 2 ^ 16;
          (sub_schema, table') = gen_variant_sub_schema fs (table @ name @ [0]);
          (rest, table'') = variant_stmts vs table'
      in (push_u16 st_off @ sub_schema @ rest, table''))"

definition gen_enum_schema :: "(bytes \<times> rty vfields) list \<Rightarrow> bytes \<Rightarrow> schema_stmt list \<times> bytes" where
  "gen_enum_schema vs table =
     (let vdx_k = (if length vs \<le> 255 then 1 else 2);
          (stmts, table') = variant_stmts vs table
      in (push_count 0xB0 (length vs) @ Push vdx_k # Push 0 # stmts, table'))"

definition gen_enum_encode_body :: "(bytes \<times> rty vfields) list \<Rightarrow> enc_block gen_body" where
  "gen_enum_encode_body vs =
     MatchSelf (map (\<lambda>(idx, v). gen_variant_encode_body v idx (255 < length vs)) (enumerate 0 vs))"

definition gen_enum_max_size_body :: "(bytes \<times> rty vfields) list \<Rightarrow> size_expr gen_body" where
  "gen_enum_max_size_body vs =
     MatchSelf (map (\<lambda>v. gen_variant_max_size_body v (if 255 < length vs then 2 else 1)) vs)"

text \<open>\<open>derive_encode\<close>: the errors the macro reports itself, or the generated implementation.\<close>

definition derive_encode :: "DeriveInput \<Rightarrow> string + derived_impl" where
  "derive_encode input =
     (case item_data input of
        StructItem (NamedF fs) \<Rightarrow>
          let (schema_body, table) = gen_struct_schema_named fs []
          in Inr \<lparr>schema_body = schema_body, st_bytes = table,
               encode_body = Straight (gen_struct_encode_body_named fs),
               max_size_body = Straight (gen_struct_max_size_body_named fs)\<rparr>
      | StructItem (UnnamedF tys) \<Rightarrow>
          Inr \<lparr>schema_body = gen_struct_schema_unnamed tys, st_bytes = [],
            encode_body = Straight (gen_struct_encode_body_unnamed tys),
            max_size_body = Straight (gen_struct_max_size_body_unnamed tys)\<rparr>
      | StructItem UnitF \<Rightarrow> Inl ''Encode derive does not support unit structs''
      | EnumItem vs \<Rightarrow>
          let (schema_body, table) = gen_enum_schema vs []
          in Inr \<lparr>schema_body = schema_body, st_bytes = table,
               encode_body = gen_enum_encode_body vs, max_size_body = gen_enum_max_size_body vs\<rparr>
      | UnionItem \<Rightarrow> Inl ''Encode derive does not support unions'')"

section \<open>What the compiler demands\<close>

text \<open>
  A name stands for an argument (a reference of a type with \<open>Encode\<close>), the buffer or the position;
  a later binding hides an earlier one. A field of \<open>self\<close> must be one of the item.
\<close>

datatype kind = ArgK | BufK | PosK

type_synonym kinds = "(bytes \<times> kind) list"

fun arg_ok :: "bytes list \<Rightarrow> kinds \<Rightarrow> arg_expr \<Rightarrow> bool" where
  "arg_ok fs env (SelfField f) \<longleftrightarrow> f \<in> set fs"
| "arg_ok fs env (Bound x) \<longleftrightarrow> map_of env x = Some ArgK"

fun stmts_ok :: "bytes list \<Rightarrow> kinds \<Rightarrow> enc_stmt list \<Rightarrow> enc_result \<Rightarrow> bool" where
  "stmts_ok fs env [] ResultPos \<longleftrightarrow> map_of env (str ''pos'') = Some PosK"
| "stmts_ok fs env [] (ResultLit n) \<longleftrightarrow> True"
| "stmts_ok fs env (BufSet i b # ss) r \<longleftrightarrow> map_of env (str ''buf'') = Some BufK \<and> stmts_ok fs env ss r"
| "stmts_ok fs env (LetPos n # ss) r \<longleftrightarrow> stmts_ok fs ((str ''pos'', PosK) # env) ss r"
| "stmts_ok fs env (PosEncode e # ss) r \<longleftrightarrow>
     arg_ok fs env e \<and> map_of env (str ''pos'') = Some PosK \<and> map_of env (str ''buf'') = Some BufK \<and>
     stmts_ok fs env ss r"

text \<open>
  A body under the parameters \<open>env\<close>. The arms of a match must cover every variant, and as \<open>self\<close> is a
  reference, a match without arms is refused.
\<close>

fun body_ok :: "(kinds \<Rightarrow> 'a \<Rightarrow> bool) \<Rightarrow> kinds \<Rightarrow> bytes list \<Rightarrow> 'a gen_body \<Rightarrow> bool" where
  "body_ok good env vnames (Straight b) \<longleftrightarrow> good env b"
| "body_ok good env vnames (MatchSelf arms) \<longleftrightarrow>
     arms \<noteq> [] \<and> list_all (\<lambda>v. v \<in> set (map fst arms)) vnames \<and>
     list_all (\<lambda>(_, names, b). good (map (\<lambda>x. (x, ArgK)) names @ env) b) arms"

definition self_fields :: "item_data \<Rightarrow> bytes list" where
  "self_fields d = (case d of StructItem (NamedF fs) \<Rightarrow> map fst fs | _ \<Rightarrow> [])"

definition variant_names :: "item_data \<Rightarrow> bytes list" where
  "variant_names d = (case d of EnumItem vs \<Rightarrow> map fst vs | _ \<Rightarrow> [])"

text \<open>The header \<open>impl Encode for Name\<close> names no generic parameter.\<close>

definition compiles :: "DeriveInput \<Rightarrow> derived_impl \<Rightarrow> bool" where
  "compiles input impl \<longleftrightarrow>
     (let d = item_data input in
      generics input = [] \<and>
      body_ok (\<lambda>env (ss, r). stmts_ok (self_fields d) env ss r) [(str ''buf'', BufK)] (variant_names d) (encode_body impl) \<and>
      body_ok (\<lambda>env (_, es). list_all (arg_ok (self_fields d) env) es) [] (variant_names d) (max_size_body impl))"

section \<open>Running the generated code\<close>

fun run_schema :: "schema_stmt list \<Rightarrow> bytes" where
  "run_schema [] = []"
| "run_schema (Push b # ss) = b # run_schema ss"
| "run_schema (PushOr b n # ss) = (b OR word_of_nat n) # run_schema ss"
| "run_schema (ExtendSchema ty # ss) = schema ty @ run_schema ss"

text \<open>The values names have while \<open>encode_to\<close> runs; \<open>self\<close> is a struct's fields or an enum's variant.\<close>

datatype local_val = ArgD rval | BufD | PosD nat

type_synonym locals = "(bytes \<times> local_val) list"

datatype self_val = SelfStruct "(bytes \<times> rval) list" | SelfVariant bytes "rval list"

fun arg_val :: "self_val \<Rightarrow> locals \<Rightarrow> arg_expr \<Rightarrow> rval option" where
  "arg_val self env (SelfField f) = (case self of SelfStruct fs \<Rightarrow> map_of fs f | SelfVariant _ _ \<Rightarrow> None)"
| "arg_val self env (Bound x) = (case map_of env x of Some (ArgD v) \<Rightarrow> Some v | _ \<Rightarrow> None)"

fun pos_val :: "locals \<Rightarrow> nat option" where
  "pos_val env = (case map_of env (str ''pos'') of Some (PosD n) \<Rightarrow> Some n | _ \<Rightarrow> None)"

fun run_enc :: "self_val \<Rightarrow> locals \<Rightarrow> enc_stmt list \<Rightarrow> enc_result \<Rightarrow> bytes \<Rightarrow> (bytes \<times> nat) option" where
  "run_enc self env [] ResultPos buf = do { p \<leftarrow> pos_val env; Some (buf, p) }"
| "run_enc self env [] (ResultLit n) buf = Some (buf, n)"
| "run_enc self env (BufSet i b # ss) r buf = do { buf' \<leftarrow> put buf i [b]; run_enc self env ss r buf' }"
| "run_enc self env (LetPos n # ss) r buf = run_enc self ((str ''pos'', PosD n) # env) ss r buf"
| "run_enc self env (PosEncode e # ss) r buf =
     do {
       v \<leftarrow> arg_val self env e;
       p \<leftarrow> pos_val env;
       tail \<leftarrow> slice_from buf p;
       (tail', used) \<leftarrow> encode_to v tail;
       run_enc self ((str ''pos'', PosD (p + used)) # env) ss r (take p buf @ tail')
     }"

fun run_size :: "self_val \<Rightarrow> locals \<Rightarrow> size_expr \<Rightarrow> nat option" where
  "run_size self env (n, []) = Some n"
| "run_size self env (n, e # es) =
     do { v \<leftarrow> arg_val self env e; run_size self env (n + encoded_size v, es) }"

text \<open>\<open>match self\<close> takes the arm of the variant and binds its fields.\<close>

fun run_body :: "(self_val \<Rightarrow> locals \<Rightarrow> 'a \<Rightarrow> 'r option) \<Rightarrow> self_val \<Rightarrow> locals \<Rightarrow> 'a gen_body \<Rightarrow> 'r option" where
  "run_body run self env (Straight b) = run self env b"
| "run_body run (SelfStruct fs) env (MatchSelf arms) = None"
| "run_body run (SelfVariant v vals) env (MatchSelf arms) =
     do {
       (names, b) \<leftarrow> map_of arms v;
       run (SelfVariant v vals) (zip names (map ArgD vals) @ env) b
     }"

definition derived_encode_to :: "derived_impl \<Rightarrow> self_val \<Rightarrow> encoder" where
  "derived_encode_to impl self buf =
     run_body (\<lambda>self env (ss, r). run_enc self env ss r buf) self [(str ''buf'', BufD)] (encode_body impl)"

definition derived_encoded_size :: "derived_impl \<Rightarrow> self_val \<Rightarrow> nat option" where
  "derived_encoded_size impl self = run_body run_size self [] (max_size_body impl)"

section \<open>Schemas and string tables\<close>

lemma run_schema_append [simp]: "run_schema (xs @ ys) = run_schema xs @ run_schema ys"
  by (induction xs rule: run_schema.induct) auto

lemma run_push_u16: "run_schema (push_u16 n) = to_le 2 n"
  by (simp add: push_u16_def to_le_2 word_unat_eq_iff unat_of_nat)

lemma run_st_offset: "run_schema (push_u16 (length table mod 65536)) = st_offset table"
proof -
  have "length table mod 65536 = 256 * (length table div 256 mod 256) + length table mod 256"
    using mod_mult2_eq [of "length table" 256 256] by simp
  then have "length table mod 65536 div 256 = length table div 256 mod 256" by simp
  moreover have "length table mod 65536 mod 256 = length table mod 256" by (simp add: mod_mod_cancel)
  ultimately show ?thesis
    by (simp add: push_u16_def st_offset_def to_le_2 word_unat_eq_iff unat_of_nat)
qed

lemma run_push_count: "run_schema (push_count base n) = count_header base n"
  by (simp add: push_count_def count_header_def run_push_u16 to_le_2 word_unat_eq_iff unat_of_nat)

lemma run_extends: "run_schema (map ExtendSchema tys) = concat (map schema tys)"
  by (induction tys) auto

lemma run_field_stmts:
  "field_stmts fs table = (stmts, table') \<Longrightarrow>
   named_fields (map (map_prod id schema) fs) table = (run_schema stmts, table')"
  by (induction fs table arbitrary: stmts table' rule: field_stmts.induct)
    (auto simp: run_st_offset Let_def split: prod.splits)

lemma run_struct_schema_named:
  "gen_struct_schema_named fs table = (stmts, table') \<Longrightarrow>
   struct_schema_named (map (map_prod id schema) fs) table = (run_schema stmts, table')"
  by (auto simp: gen_struct_schema_named_def struct_schema_named_def run_push_count
      dest!: run_field_stmts split: prod.splits)

lemma run_struct_schema_unnamed:
  "run_schema (gen_struct_schema_unnamed tys) = struct_schema_unnamed (map schema tys)"
  by (simp add: gen_struct_schema_unnamed_def struct_schema_unnamed_def run_push_count run_extends)

lemma run_variant_sub_schema:
  "gen_variant_sub_schema fs table = (stmts, table') \<Longrightarrow>
   variant_sub_schema (map_vfields schema fs) table = (run_schema stmts, table')"
  by (cases fs) (auto simp: run_struct_schema_unnamed run_struct_schema_named length_Suc_conv split: if_splits)

lemma run_variant_stmts:
  "variant_stmts vs table = (stmts, table') \<Longrightarrow>
   enum_variants (map (map_prod id (map_vfields schema)) vs) table = (run_schema stmts, table')"
  by (induction vs table arbitrary: stmts table' rule: variant_stmts.induct)
    (auto simp: run_st_offset Let_def dest!: run_variant_sub_schema split: prod.splits)

lemma run_enum_schema:
  "gen_enum_schema vs table = (stmts, table') \<Longrightarrow>
   enum_schema (map (map_prod id (map_vfields schema)) vs) table = (run_schema stmts, table')"
  by (auto simp: gen_enum_schema_def enum_schema_def run_push_count Let_def
      dest!: run_variant_stmts split: prod.splits)

section \<open>What compiles\<close>

text \<open>The names that the generated code of \<open>encode_to\<close> uses itself.\<close>

definition captured :: "bytes list" where
  "captured = [str ''buf'', str ''pos'']"

fun derivable_fields :: "rty vfields \<Rightarrow> bool" where
  "derivable_fields (NamedF fs) \<longleftrightarrow> list_all (\<lambda>x. x \<notin> set captured) (map fst fs)"
| "derivable_fields _ \<longleftrightarrow> True"

definition derivable :: "DeriveInput \<Rightarrow> bool" where
  "derivable input \<longleftrightarrow> generics input = [] \<and>
     (case item_data input of
        StructItem (NamedF fs) \<Rightarrow> True
      | StructItem (UnnamedF tys) \<Rightarrow> tys = []
      | StructItem UnitF \<Rightarrow> False
      | EnumItem vs \<Rightarrow> vs \<noteq> [] \<and> list_all derivable_fields (map snd vs)
      | UnionItem \<Rightarrow> False)"

lemma stmts_ok_encodes:
  "map_of env (str ''pos'') = Some PosK \<Longrightarrow>
   stmts_ok fs env (map (\<lambda>x. PosEncode (f x)) xs) ResultPos \<longleftrightarrow>
     list_all (\<lambda>x. arg_ok fs env (f x)) xs \<and> (xs \<noteq> [] \<longrightarrow> map_of env (str ''buf'') = Some BufK)"
  by (induction xs) auto

lemma idents_not_captured: "x \<in> set (idents ''__f'' n) \<Longrightarrow> x \<notin> set captured"
  by (auto simp: idents_def captured_def word_unat_eq_iff)

lemma gen_disc_ok:
  "gen_disc idx w = (ds, n) \<Longrightarrow>
   stmts_ok fs env (ds @ ss) r \<longleftrightarrow> map_of env (str ''buf'') = Some BufK \<and> stmts_ok fs env ss r"
  by (auto simp: gen_disc_def split: if_splits)

lemma map_of_args: "map_of (map (\<lambda>x. (x, ArgK)) names) x = (if x \<in> set names then Some ArgK else None)"
  by (induction names) auto

lemma map_of_args_comp:
  "map_of (map ((\<lambda>x. (x, ArgK)) \<circ> g) ys) x = (if x \<in> g ` set ys then Some ArgK else None)"
  using map_of_args [of "map g ys" x] by (simp add: comp_def)

lemma block_ok:
  assumes "gen_disc idx w = (ds, n)"
  shows "stmts_ok fs (map (\<lambda>x. (x, ArgK)) names @ [(str ''buf'', BufK)])
      (ds @ LetPos n # map (\<lambda>x. PosEncode (Bound x)) names) ResultPos \<longleftrightarrow>
    list_all (\<lambda>x. x \<notin> set captured) names" (is "stmts_ok fs ?env _ _ \<longleftrightarrow> _")
  using stmts_ok_encodes [of "(str ''pos'', PosK) # ?env" fs Bound names]
  by (auto simp: gen_disc_ok [OF assms] map_add_def map_of_args list_all_iff captured_def split: if_splits)

lemma arm_ok:
  "case gen_variant_encode_body (v, fs) idx w of (_, names, ss, r) \<Rightarrow>
     stmts_ok sf (map (\<lambda>x. (x, ArgK)) names @ [(str ''buf'', BufK)]) ss r \<longleftrightarrow> derivable_fields fs"
proof (cases "gen_disc idx w")
  case (Pair ds n)
  show ?thesis
  proof (cases fs)
    case UnitF
    then show ?thesis using gen_disc_ok [OF Pair, of sf "[(str ''buf'', BufK)]" "[]"] Pair by simp
  next
    case (UnnamedF tys)
    then show ?thesis
      using block_ok [OF Pair, of sf "idents ''__f'' (length tys)"] Pair idents_not_captured
      by (auto simp: list_all_iff)
  next
    case (NamedF nfs)
    then show ?thesis using block_ok [OF Pair, of sf "map fst nfs"] Pair by simp
  qed
qed

lemma fst_gen_variants:
  "fst (gen_variant_encode_body v idx w) = fst v" "fst (gen_variant_max_size_body v n) = fst v"
  by (cases v; cases "snd v"; simp add: split_beta Let_def)+

lemma size_arm_ok:
  "case gen_variant_max_size_body (v, fs) n of (_, names, _, es) \<Rightarrow>
     list_all (arg_ok sf (map (\<lambda>x. (x, ArgK)) names)) es"
  by (cases fs) (simp_all add: list_all_iff map_of_args map_of_args_comp Let_def)

text \<open>Which items the derived code compiles for.\<close>

lemma struct_compiles:
  "stmts_ok (map fst fs) [(str ''buf'', BufK)] (fst (gen_struct_encode_body_named fs)) (snd (gen_struct_encode_body_named fs))"
  "list_all (arg_ok (map fst fs) []) (snd (gen_struct_max_size_body_named fs))"
  using stmts_ok_encodes [of "[(str ''pos'', PosK), (str ''buf'', BufK)]" "map fst fs" "\<lambda>f. SelfField (fst f)" fs]
  by (simp_all add: gen_struct_encode_body_named_def gen_struct_max_size_body_named_def list_all_iff)

lemma tuple_compiles:
  "list_all (arg_ok sf []) (snd (gen_struct_max_size_body_unnamed tys)) \<longleftrightarrow> tys = []"
  by (auto simp: gen_struct_max_size_body_unnamed_def idents_def list_all_iff)

lemma empty_tuple_compiles:
  "stmts_ok sf [(str ''buf'', BufK)] (fst (gen_struct_encode_body_unnamed [])) (snd (gen_struct_encode_body_unnamed []))"
  by (simp add: gen_struct_encode_body_unnamed_def idents_def)

lemma enum_compiles_encode:
  "body_ok (\<lambda>env (ss, r). stmts_ok [] env ss r) [(str ''buf'', BufK)] (map fst vs) (gen_enum_encode_body vs) \<longleftrightarrow>
     vs \<noteq> [] \<and> list_all derivable_fields (map snd vs)"
proof -
  let ?w = "255 < length vs"
  let ?arm = "\<lambda>(idx, v). gen_variant_encode_body v idx ?w"
  let ?good = "\<lambda>(_, names, (ss, r)). stmts_ok [] (map (\<lambda>x. (x, ArgK)) names @ [(str ''buf'', BufK)]) ss r"
  have "map fst (map ?arm (enumerate 0 vs)) = map fst (map snd (enumerate 0 vs))"
    by (simp add: comp_def case_prod_unfold fst_gen_variants del: map_snd_enumerate)
  then have names: "map fst (map ?arm (enumerate 0 vs)) = map fst vs" by (simp only: map_snd_enumerate)
  have good: "?good (?arm iv) \<longleftrightarrow> derivable_fields (snd (snd iv))" for iv
    using arm_ok [where v = "fst (snd iv)" and fs = "snd (snd iv)" and idx = "fst iv" and w = ?w and sf = "[]"] by (simp add: case_prod_unfold)
  have "list_all ?good (map ?arm (enumerate 0 vs)) \<longleftrightarrow> list_all derivable_fields (map snd (map snd (enumerate 0 vs)))"
    by (simp only: list.pred_map comp_def good)
  then have "list_all ?good (map ?arm (enumerate 0 vs)) \<longleftrightarrow> list_all derivable_fields (map snd vs)"
    by (simp only: map_snd_enumerate)
  moreover have "list_all (\<lambda>v. v \<in> set (map fst (map ?arm (enumerate 0 vs)))) (map fst vs)"
    by (simp only: names list_all_iff) simp
  moreover have "enumerate 0 vs = [] \<longleftrightarrow> vs = []" by (metis length_0_conv length_enumerate)
  ultimately show ?thesis
    by (simp add: gen_enum_encode_body_def case_prod_unfold del: list.map_comp)
qed

lemma enum_compiles_size:
  "body_ok (\<lambda>env (_, es). list_all (arg_ok [] env) es) [] (map fst vs) (gen_enum_max_size_body vs) \<longleftrightarrow> vs \<noteq> []"
proof -
  let ?n = "if 255 < length vs then 2 else 1 :: nat"
  let ?good = "\<lambda>(_, names, (_, es)). list_all (arg_ok [] (map (\<lambda>x. (x, ArgK)) names @ [])) es"
  have "?good (gen_variant_max_size_body v ?n)" for v
    using size_arm_ok [where v = "fst v" and fs = "snd v" and n = ?n and sf = "[]"] by (simp add: case_prod_unfold)
  then have "list_all ?good (map (\<lambda>v. gen_variant_max_size_body v ?n) vs)"
    by (simp only: list.pred_map comp_def) (simp add: list_all_iff)
  moreover have "map fst (map (\<lambda>v. gen_variant_max_size_body v ?n) vs) = map fst vs"
    by (simp add: comp_def fst_gen_variants)
  then have "list_all (\<lambda>v. v \<in> set (map fst (map (\<lambda>v. gen_variant_max_size_body v ?n) vs))) (map fst vs)"
    by (simp only: list_all_iff) simp
  ultimately show ?thesis
    by (simp add: gen_enum_max_size_body_def case_prod_unfold del: list.map_comp)
qed

lemma compiles_iff:
  assumes "derive_encode input = Inr impl"
  shows "compiles input impl \<longleftrightarrow> derivable input"
proof (cases "item_data input")
  case (StructItem f)
  then show ?thesis
    using assms struct_compiles tuple_compiles empty_tuple_compiles
    by (cases f) (auto simp: derive_encode_def compiles_def derivable_def self_fields_def variant_names_def
        case_prod_unfold Let_def)
next
  case (EnumItem vs)
  then have "encode_body impl = gen_enum_encode_body vs" "max_size_body impl = gen_enum_max_size_body vs"
    using assms by (auto simp: derive_encode_def split: prod.splits)
  then show ?thesis
    using enum_compiles_encode [of vs] enum_compiles_size [of vs] EnumItem
    by (auto simp: compiles_def derivable_def self_fields_def variant_names_def)
next
  case UnionItem
  then show ?thesis using assms by (simp add: derive_encode_def)
qed

section \<open>What the generated code computes\<close>

text \<open>The type an item declares, and what \<open>self\<close> is for a value of it.\<close>

definition item_type :: "DeriveInput \<Rightarrow> rty" where
  "item_type input =
     (case item_data input of
        StructItem (NamedF fs) \<Rightarrow> StructT fs
      | StructItem (UnnamedF tys) \<Rightarrow> TupleT tys
      | StructItem UnitF \<Rightarrow> UnitT
      | EnumItem vs \<Rightarrow> EnumT vs
      | UnionItem \<Rightarrow> UnitT)"

definition self_of :: "DeriveInput \<Rightarrow> rval \<Rightarrow> self_val" where
  "self_of input v =
     (case (item_data input, v) of
        (StructItem (NamedF fs), StructV vals) \<Rightarrow> SelfStruct (zip (map fst fs) vals)
      | (EnumItem vs, EnumV _ i vals) \<Rightarrow> SelfVariant (fst (vs ! i)) vals
      | _ \<Rightarrow> SelfStruct [])"

text \<open>Rust gives the fields of an item, and its variants, different names.\<close>

definition rust_names :: "item_data \<Rightarrow> bool" where
  "rust_names d =
     (case d of
        StructItem (NamedF fs) \<Rightarrow> distinct (map fst fs)
      | EnumItem vs \<Rightarrow> distinct (map fst vs) \<and>
          list_all (\<lambda>f. case f of NamedF fs \<Rightarrow> distinct (map fst fs) | _ \<Rightarrow> True) (map snd vs)
      | _ \<Rightarrow> True)"

text \<open>The arguments \<open>es\<close> have the values \<open>vs\<close>, wherever the position is.\<close>

definition args_are :: "self_val \<Rightarrow> locals \<Rightarrow> arg_expr list \<Rightarrow> rval list \<Rightarrow> bool" where
  "args_are self env es vs \<longleftrightarrow>
     list_all2 (\<lambda>e v. \<forall>p. arg_val self ((str ''pos'', p) # env) e = Some v) es vs"

lemma args_are_pos: "args_are self env es vs \<Longrightarrow> args_are self ((str ''pos'', q) # env) es vs"
proof -
  have "arg_val self ((str ''pos'', p) # (str ''pos'', q) # env) e = arg_val self ((str ''pos'', p) # env) e" for p e
    by (cases e) (auto split: self_val.split option.split local_val.split)
  then show "args_are self env es vs \<Longrightarrow> args_are self ((str ''pos'', q) # env) es vs"
    by (simp only: args_are_def)
qed

lemma run_encodes:
  "args_are self env es vs \<Longrightarrow>
   run_enc self ((str ''pos'', PosD p) # env) (map PosEncode es) ResultPos buf = encode_all (map encode_to vs) p buf"
proof (induction es arbitrary: vs env p buf)
  case Nil
  then show ?case by (simp add: args_are_def)
next
  case (Cons e es)
  then obtain v vs' where vs: "vs = v # vs'" "args_are self env es vs'"
      "arg_val self ((str ''pos'', PosD p) # env) e = Some v"
    by (auto simp: args_are_def list_all2_Cons1)
  show ?case
    using Cons.IH [OF args_are_pos [OF vs(2)]] vs(1,3)
    by (simp add: case_prod_unfold cong: bind_option_cong)
qed

lemma run_sizes: "list_all2 (\<lambda>e v. arg_val self env e = Some v) es vs \<Longrightarrow>
   run_size self env (n, es) = Some (n + sum_list (map encoded_size vs))"
  by (induction es vs arbitrary: n rule: list_all2_induct) (simp_all add: add.assoc)

lemma byte_of_mod: "(word_of_nat (n mod 256) :: byte) = word_of_nat n"
  by (simp add: word_unat_eq_iff unat_of_nat)

lemma put_2: "put buf 0 [a, b] = do { buf' \<leftarrow> put buf 0 [a]; put buf' 1 [b] }"
  by (cases buf; cases "tl buf") (auto simp: put_def)

lemma run_disc:
  "gen_disc idx w = (ds, n) \<Longrightarrow> n = length (discriminant w idx) \<and>
   run_enc self env (ds @ ss) r buf =
     do { b \<leftarrow> put buf 0 (discriminant w idx); run_enc self env ss r b }"
  by (auto simp: gen_disc_def discriminant_def put_2 byte_of_mod split: if_splits cong: bind_option_cong)

text \<open>One arm of a match, with its names bound to the fields.\<close>

lemma args_are_bound:
  assumes "distinct names" "length names = length vals" "str ''pos'' \<notin> set names"
  shows "args_are self (zip names (map ArgD vals) @ env) (map Bound names) vals"
  unfolding args_are_def
proof (intro list_all2_all_nthI allI)
  fix i p
  assume i: "i < length (map Bound names)"
  have "map_of (zip names (map ArgD vals)) (names ! i) = Some (ArgD (vals ! i))"
    using assms(1,2) i by (simp add: map_of_zip_nth)
  moreover have "names ! i \<noteq> str ''pos''" using assms(3) i by (metis length_map nth_mem)
  ultimately show "arg_val self ((str ''pos'', p) # zip names (map ArgD vals) @ env) (map Bound names ! i) = Some (vals ! i)"
    using i by (simp add: map_add_def)
qed (use assms(2) in simp)

lemma run_arm:
  assumes "gen_disc idx w = (ds, n)" "distinct names" "length names = length vals" "str ''pos'' \<notin> set names"
  shows "run_enc self (zip names (map ArgD vals) @ env)
      (ds @ LetPos n # map (\<lambda>x. PosEncode (Bound x)) names) ResultPos buf =
    variant_encode_body w idx (map encode_to vals) buf"
proof -
  have n: "n = length (discriminant w idx)" using run_disc [OF assms(1)] by blast
  show ?thesis
    using run_disc [OF assms(1), of self "zip names (map ArgD vals) @ env" "LetPos n # map (\<lambda>x. PosEncode (Bound x)) names" ResultPos buf]
      run_encodes [OF args_are_bound [where self = self and env = env, OF assms(2-4)], of n]
    by (simp add: comp_def n cong: bind_option_cong)
qed

lemma run_size_arm:
  assumes "distinct names" "length names = length vals"
  shows "run_size self (zip names (map ArgD vals)) (n, map Bound names) = Some (n + sum_list (map encoded_size vals))"
  using assms by (intro run_sizes list_all2_all_nthI) (simp_all add: map_of_zip_nth)

lemma distinct_idents: "distinct (idents p n)"
  by (auto simp: idents_def distinct_map show_nat_inj intro!: inj_onI)

lemma length_idents [simp]: "length (idents p n) = n"
  by (simp add: idents_def)

lemma map_of_arms:
  assumes "distinct (map fst vs)" "i < length vs" "\<And>i v. fst (f i v) = fst v"
  shows "map_of (map (\<lambda>(i, v). f i v) (enumerate 0 vs)) (fst (vs ! i)) = Some (snd (f i (vs ! i)))"
proof (rule map_of_is_SomeI)
  have "map fst (map (\<lambda>(i, v). f i v) (enumerate 0 vs)) = map fst (map snd (enumerate 0 vs))"
    using assms(3) by (simp add: comp_def case_prod_unfold del: map_snd_enumerate)
  then show "distinct (map fst (map (\<lambda>(i, v). f i v) (enumerate 0 vs)))"
    using assms(1) by (simp only: map_snd_enumerate)
  have "(i, vs ! i) \<in> set (enumerate 0 vs)" using assms(2) by (simp add: in_set_enumerate_eq)
  then have "f i (vs ! i) \<in> set (map (\<lambda>(i, v). f i v) (enumerate 0 vs))" by force
  then show "(fst (vs ! i), snd (f i (vs ! i))) \<in> set (map (\<lambda>(i, v). f i v) (enumerate 0 vs))"
    by (simp flip: assms(3) [of i "vs ! i"])
qed

lemma derived_struct:
  assumes "distinct (map fst fs)" "length vals = length fs"
  shows "run_enc (SelfStruct (zip (map fst fs) vals)) [(str ''buf'', BufD)]
      (fst (gen_struct_encode_body_named fs)) (snd (gen_struct_encode_body_named fs)) buf = encode_to (StructV vals) buf"
    and "run_size (SelfStruct (zip (map fst fs) vals)) [] (gen_struct_max_size_body_named fs) = Some (encoded_size (StructV vals))"
proof -
  have a: "arg_val (SelfStruct (zip (map fst fs) vals)) env (SelfField (fst (fs ! i))) = Some (vals ! i)"
    if "i < length fs" for env i
    using map_of_zip_nth [of "map fst fs" vals i] assms that by simp
  have "args_are (SelfStruct (zip (map fst fs) vals)) [(str ''buf'', BufD)] (map (\<lambda>f. SelfField (fst f)) fs) vals"
    unfolding args_are_def by (intro list_all2_all_nthI) (use a assms in \<open>simp_all del: arg_val.simps\<close>)
  from run_encodes [OF this, of 0 buf]
  show "run_enc (SelfStruct (zip (map fst fs) vals)) [(str ''buf'', BufD)]
      (fst (gen_struct_encode_body_named fs)) (snd (gen_struct_encode_body_named fs)) buf = encode_to (StructV vals) buf"
    by (simp add: gen_struct_encode_body_named_def comp_def)
  have "list_all2 (\<lambda>e v. arg_val (SelfStruct (zip (map fst fs) vals)) [] e = Some v) (map (\<lambda>f. SelfField (fst f)) fs) vals"
    by (intro list_all2_all_nthI) (use a assms in \<open>simp_all del: arg_val.simps\<close>)
  from run_sizes [OF this, of 0]
  show "run_size (SelfStruct (zip (map fst fs) vals)) [] (gen_struct_max_size_body_named fs) = Some (encoded_size (StructV vals))"
    by (simp add: gen_struct_max_size_body_named_def)
qed

lemma derived_variant:
  assumes "derivable_fields f" "length vals = length (field_types f)"
    and "case f of NamedF fs \<Rightarrow> distinct (map fst fs) | _ \<Rightarrow> True"
  shows "case gen_variant_encode_body (v, f) i w of (_, names, ss, r) \<Rightarrow>
      run_enc self (zip names (map ArgD vals) @ env) ss r buf = encode_to (EnumV w i vals) buf"
    and "case gen_variant_max_size_body (v, f) (if w then 2 else 1) of (_, names, e) \<Rightarrow>
      run_size self (zip names (map ArgD vals)) e = Some (encoded_size (EnumV w i vals))"
proof -
  obtain ds n where d: "gen_disc i w = (ds, n)" by (cases "gen_disc i w")
  show "case gen_variant_encode_body (v, f) i w of (_, names, ss, r) \<Rightarrow>
      run_enc self (zip names (map ArgD vals) @ env) ss r buf = encode_to (EnumV w i vals) buf"
  proof (cases f)
    case UnitF
    then show ?thesis
      using run_disc [OF d, of self env "[]" "ResultLit n" buf] assms(2) d by auto
  next
    case (UnnamedF tys)
    moreover have "str ''pos'' \<notin> set (idents ''__f'' (length tys))"
      using idents_not_captured by (metis captured_def list.set_intros)
    ultimately show ?thesis
      using run_arm [OF d distinct_idents, of "''__f''" "length tys" vals self env buf] assms(2) d by simp
  next
    case (NamedF fs)
    moreover have "str ''pos'' \<notin> set (map fst fs)"
      using assms(1) NamedF by (auto simp: list_all_iff captured_def)
    ultimately show ?thesis
      using run_arm [OF d, of "map fst fs" vals self env buf] assms(2,3) d by simp
  qed
  show "case gen_variant_max_size_body (v, f) (if w then 2 else 1) of (_, names, e) \<Rightarrow>
      run_size self (zip names (map ArgD vals)) e = Some (encoded_size (EnumV w i vals))"
  proof (cases f)
    case UnitF
    then show ?thesis using assms(2) by simp
  next
    case (UnnamedF tys)
    then show ?thesis
      using run_size_arm [OF distinct_idents, of "''__f''" "length tys" vals self "if w then 2 else 1"] assms(2)
      by (simp add: Let_def)
  next
    case (NamedF fs)
    then show ?thesis
      using run_size_arm [of "map fst fs" vals self "if w then 2 else 1"] assms(2,3) by (simp add: Let_def)
  qed
qed

lemma derived_impl_runs:
  assumes "derive_encode input = Inr impl" and c: "derivable input"
    and names: "rust_names (item_data input)" and ty: "has_type v (item_type input)"
  shows "derived_encode_to impl (self_of input v) buf = encode_to v buf \<and>
    derived_encoded_size impl (self_of input v) = Some (encoded_size v)"
proof (cases "item_data input")
  case (StructItem f)
  show ?thesis
  proof (cases f)
    case UnitF
    then show ?thesis using c StructItem by (simp add: derivable_def)
  next
    case (UnnamedF tys)
    then have "tys = []" "v = TupleV []"
      using c ty StructItem by (auto simp: derivable_def item_type_def has_type_simps)
    then show ?thesis
      using assms(1) StructItem UnnamedF
      by (auto simp: derive_encode_def derived_encode_to_def derived_encoded_size_def
          gen_struct_encode_body_unnamed_def gen_struct_max_size_body_unnamed_def idents_def)
  next
    case (NamedF fs)
    then obtain vals where v: "v = StructV vals" "length vals = length fs"
      using ty StructItem by (auto simp: item_type_def has_type_simps dest: list_all2_lengthD)
    moreover have "distinct (map fst fs)" using names StructItem NamedF by (simp add: rust_names_def)
    moreover have "encode_body impl = Straight (gen_struct_encode_body_named fs)"
        "max_size_body impl = Straight (gen_struct_max_size_body_named fs)"
      using assms(1) StructItem NamedF by (auto simp: derive_encode_def split: prod.splits)
    ultimately show ?thesis
      using derived_struct(1) [of fs vals buf] derived_struct(2) [of fs vals] StructItem NamedF
      by (simp add: derived_encode_to_def derived_encoded_size_def self_of_def case_prod_unfold)
  qed
next
  case (EnumItem vs)
  let ?w = "255 < length vs"
  obtain i vals where v: "v = EnumV ?w i vals" "i < length vs" "length vals = length (field_types (snd (vs ! i)))"
    using ty EnumItem by (auto simp: item_type_def has_type_simps dest: list_all2_lengthD)
  obtain nm f where nf: "vs ! i = (nm, f)" by fastforce
  have mem: "(nm, f) \<in> set vs" using v(2) nf by (metis nth_mem)
  have d: "distinct (map fst vs)" "derivable_fields f" "case f of NamedF fs \<Rightarrow> distinct (map fst fs) | _ \<Rightarrow> True"
    using names c mem EnumItem by (force simp: rust_names_def derivable_def list_all_iff)+
  have impl: "encode_body impl = gen_enum_encode_body vs" "max_size_body impl = gen_enum_max_size_body vs"
    using assms(1) EnumItem by (auto simp: derive_encode_def split: prod.splits)
  have self: "self_of input (EnumV ?w i vals) = SelfVariant nm vals" by (simp add: self_of_def EnumItem nf)
  have l: "length vals = length (field_types f)" using v(3) nf by simp
  have e: "map_of (map (\<lambda>(i, v). gen_variant_encode_body v i ?w) (enumerate 0 vs)) nm =
      Some (snd (gen_variant_encode_body (nm, f) i ?w))"
    using map_of_arms [where f = "\<lambda>i v. gen_variant_encode_body v i ?w", OF d(1) v(2)] nf by (simp add: fst_gen_variants)
  have s: "map_of (map (\<lambda>v. gen_variant_max_size_body v (if ?w then 2 else 1)) vs) nm =
      Some (snd (gen_variant_max_size_body (nm, f) (if ?w then 2 else 1)))"
  proof (rule map_of_is_SomeI)
    let ?g = "\<lambda>v. gen_variant_max_size_body v (if ?w then 2 else 1 :: nat)"
    show "distinct (map fst (map ?g vs))" using d(1) by (simp add: fst_gen_variants comp_def)
    have "?g (nm, f) = (nm, snd (?g (nm, f)))" by (simp add: fst_gen_variants(2) prod_eq_iff del: gen_variant_max_size_body.simps)
    then show "(nm, snd (?g (nm, f))) \<in> set (map ?g vs)" using mem by (metis image_eqI image_set)
  qed
  have "derived_encode_to impl (self_of input v) buf = encode_to v buf"
    using derived_variant(1) [where v = nm and i = i and w = ?w and self = "SelfVariant nm vals" and env = "[(str ''buf'', BufD)]"
        and buf = buf, OF d(2) l d(3)]
    unfolding derived_encode_to_def impl gen_enum_encode_body_def v(1) self
    by (simp add: e [unfolded case_prod_unfold] case_prod_unfold del: encode_to.simps gen_variant_encode_body.simps)
  moreover have "derived_encoded_size impl (self_of input v) = Some (encoded_size v)"
    using derived_variant(2) [where v = nm and i = i and w = ?w and self = "SelfVariant nm vals", OF d(2) l d(3)]
    unfolding derived_encoded_size_def impl gen_enum_max_size_body_def v(1) self
    by (simp add: s case_prod_unfold del: encoded_size.simps gen_variant_max_size_body.simps)
  ultimately show ?thesis by blast
next
  case UnionItem
  then show ?thesis using c by (simp add: derivable_def)
qed

lemma derived_impl_schema:
  assumes "derive_encode input = Inr impl" "derivable input"
  shows "run_schema (schema_body impl) = schema (item_type input) \<and> st_bytes impl = string_table (item_type input)"
  using assms
  by (auto simp: derive_encode_def derivable_def item_type_def gen_struct_schema_unnamed_def push_count_def
      OP_TUPLE_def dest: run_struct_schema_named run_enum_schema split: item_data.splits vfields.splits prod.splits)

section \<open>Properties\<close>


definition sample_item :: DeriveInput where
  "sample_item = \<lparr>item_name = str ''Job'', generics = [], item_data = EnumItem
     [(str ''Idle'', UnitF), (str ''Run'', NamedF [(str ''task'', StrT), (str ''n'', UnsignedT 1)]),
      (str ''Done'', UnnamedF [UnsignedT 2])]\<rparr>"

definition sample_item_impl :: derived_impl where
  "sample_item_impl = (case derive_encode sample_item of Inr impl \<Rightarrow> impl)"



end
