(* ===== verification/Impls.thy ===== *)
theory Impls
  imports Arg_Roundtrip
begin

text \<open>
  For which tuples and arrays the macros of \<open>src/arg/compound.rs\<close> implement \<open>Encode\<close>: the recursive
  macro \<open>impl_tuple_encode!\<close> as a function from its tokens to the implementations it emits, and the
  lengths given to \<open>impl_array_encode!\<close>. The types they cover are well formed (\<open>wf_ty\<close>), and the
  count each tuple implementation puts into its opcode is the number of its elements.
\<close>

section \<open>Tuples\<close>

text \<open>
  \<open>impl_tuple_encode!\<close> walks over its identifiers with a list of counts and the identifiers seen so
  far; each step emits one implementation (its count and type parameters). With more identifiers
  than counts no rule matches and the crate does not compile (\<open>None\<close>).
\<close>

fun tuple_walk :: "nat list \<Rightarrow> 'a list \<Rightarrow> 'a list \<Rightarrow> (nat \<times> 'a list) list option" where
  "tuple_walk (count # rest_counts) acc (next # rest) =
     map_option (\<lambda>impls. (count, acc @ [next]) # impls) (tuple_walk rest_counts (acc @ [next]) rest)"
| "tuple_walk [] acc (next # rest) = None"
| "tuple_walk counts acc [] = Some []"

definition impl_tuple_encode :: "'a list \<Rightarrow> (nat \<times> 'a list) list option" where
  "impl_tuple_encode Ts = tuple_walk [1, 2, 3, 4, 5, 6, 7, 8, 9, 10, 11, 12] [] Ts"

text \<open>The schema of one implementation, with the literal count of the macro.\<close>

definition tuple_impl_schema :: "nat \<Rightarrow> bytes list \<Rightarrow> bytes" where
  "tuple_impl_schema count Ts = (OP_TUPLE OR word_of_nat count) # concat Ts"

text \<open>
  With the counts from \<open>k + 1\<close> on and \<open>k\<close> identifiers already seen, the walk emits one implementation
  for every longer prefix.
\<close>

lemma tuple_walk_prefixes:
  "length acc = k \<Longrightarrow> length Ts \<le> m \<Longrightarrow>
   tuple_walk [Suc k..<Suc (k + m)] acc Ts =
     Some (map (\<lambda>n. (n, take n (acc @ Ts))) [Suc k..<Suc (k + length Ts)])"
proof (induction Ts arbitrary: acc k m)
  case (Cons T Ts)
  then obtain m' where m: "m = Suc m'" by (cases m) auto
  have "[Suc k..<Suc (k + m)] = Suc k # [Suc (Suc k)..<Suc (Suc k + m')]"
    using m by (simp add: upt_rec)
  moreover have "[Suc k..<Suc (k + length (T # Ts))] = Suc k # [Suc (Suc k)..<Suc (Suc k + length Ts)]"
    by (simp add: upt_rec)
  moreover have "tuple_walk [Suc (Suc k)..<Suc (Suc k + m')] (acc @ [T]) Ts =
      Some (map (\<lambda>n. (n, take n ((acc @ [T]) @ Ts))) [Suc (Suc k)..<Suc (Suc k + length Ts)])"
    using Cons m by (intro Cons.IH) auto
  ultimately show ?case using Cons.prems by simp
qed simp

lemma tuple_walk_too_many: "length cs < length Ts \<Longrightarrow> tuple_walk cs acc Ts = None"
  by (induction cs acc Ts rule: tuple_walk.induct) auto

lemma tuple_counts: "[1, 2, 3, 4, 5, 6, 7, 8, 9, 10, 11, 12] = [Suc 0..<Suc (0 + 12)]"
  by (simp add: upt_rec)

lemma impl_tuple_encode_iff:
  "impl_tuple_encode Ts =
     (if length Ts \<le> 12 then Some (map (\<lambda>n. (n, take n Ts)) [1..<Suc (length Ts)]) else None)"
proof (cases "length Ts \<le> 12")
  case True
  then show ?thesis
    unfolding impl_tuple_encode_def tuple_counts using tuple_walk_prefixes [of "[]" 0 Ts 12] by simp
qed (simp add: impl_tuple_encode_def tuple_walk_too_many)

text \<open>The invocation of the source has twelve identifiers, so the tuples of 1 to 12 elements have an
  implementation, and each writes its own arity into the opcode.\<close>

definition tuple_arities :: "nat set" where
  "tuple_arities = length ` snd ` set (the (impl_tuple_encode [0..<12]))"

lemma tuple_arities_are: "tuple_arities = {1..12}"
proof -
  have "set (the (impl_tuple_encode [0..<12])) = (\<lambda>n. (n, take n [0..<12])) ` {1..12}"
    by (auto simp: impl_tuple_encode_iff)
  then show ?thesis by (force simp: tuple_arities_def image_image)
qed

lemma tuple_impl_schema_exact:
  assumes "impl_tuple_encode Ts = Some impls" "(count, ps) \<in> set impls"
  shows "tuple_impl_schema count (map sch ps) = schema_tuple (map sch ps)"
  using assms by (auto simp: impl_tuple_encode_iff tuple_impl_schema_def split: if_splits)

section \<open>Arrays\<close>

text \<open>The lengths \<open>impl_array_encode!\<close> is invoked with.\<close>

definition array_lengths :: "nat list" where
  "array_lengths = [0, 1, 2, 3, 4, 5, 6, 7, 8, 9, 10, 16, 32, 64, 128, 256]"

lemma array_lengths_small: "n \<in> set array_lengths \<Longrightarrow> n \<le> 256"
  by (auto simp: array_lengths_def)

text \<open>Every tuple and array type with an implementation is well formed, so the round trip and the
  measurement of schemas hold for it; the converse fails (\<open>[T; 11]\<close> has none).\<close>

lemma implemented_wf:
  "length ts \<in> tuple_arities \<Longrightarrow> list_all wf_ty ts \<Longrightarrow> wf_ty (TupleT ts)"
  "n \<in> set array_lengths \<Longrightarrow> wf_ty t \<Longrightarrow> wf_ty (ArrayT n t)"
  using array_lengths_small by (auto simp: tuple_arities_are list_all_iff)

lemma array_of_11_unsupported: "11 \<notin> set array_lengths"
  by (simp add: array_lengths_def)

end
