(* ===== verification/Unit_Test.thy ===== *)
theory Unit_Test
  imports Rust_Text
begin

text \<open>
  What the transcribed unit tests of the source share: a test is a value of \<^typ>\<open>unit option\<close>, built
  with the steps of the model; \<open>None\<close> is a failed assertion, an \<open>unwrap\<close> of nothing or another panic.
\<close>

section \<open>Assertions\<close>

text \<open>\<open>assert!\<close> and \<open>assert_eq!\<close>; \<open>str::starts_with\<close> and \<open>str::contains\<close>.\<close>

definition assert :: "bool \<Rightarrow> unit option" where
  "assert b = (if b then Some () else None)"

definition starts_with :: "bytes \<Rightarrow> bytes \<Rightarrow> bool" where
  "starts_with s p \<longleftrightarrow> take (length p) s = p"

fun contains :: "bytes \<Rightarrow> bytes \<Rightarrow> bool" where
  "contains [] p \<longleftrightarrow> p = []"
| "contains (b # s) p \<longleftrightarrow> starts_with (b # s) p \<or> contains s p"

lemma contains_append: "contains (a @ p @ b) p"
proof (induction a)
  case Nil
  have "starts_with (p @ b) p" by (simp add: starts_with_def)
  then show ?case by (cases "p @ b") auto
qed simp

lemma contains_self [simp]: "contains p p"
  using contains_append [of "[]" p "[]"] by simp

end
