(* ===== verification/Unit_Tests_Args.thy ===== *)
theory Unit_Tests_Args
  imports Format_Body Unit_Test
begin

text \<open>
  The unit tests of \<open>src/arg/schema.rs\<close>, \<open>compound.rs\<close> and \<open>primitives.rs\<close>, transcribed onto the model, and
  that each of them passes: the definitions of \<open>Schema\<close> and \<open>Arg_Types\<close> give what the authors of the
  program expect of their code. A failed assertion or a panic is \<open>None\<close>. The printing of floats is
  the standard library's, so a test that prints one holds for every printer that prints its
  number as documented.
\<close>

section \<open>Evaluation\<close>

lemma to_le_add: "to_le (j + k) n = to_le j n @ to_le k (n div 256 ^ j)"
  by (induction j arbitrary: n) (simp_all add: div_mult2_eq)

lemma to_le_4: "to_le 4 n = [word_of_nat n, word_of_nat (n div 256), word_of_nat (n div 65536), word_of_nat (n div 16777216)]"
  using to_le_add [of 2 2 n] by (simp add: to_le_2 div_mult2_eq [symmetric])

lemma to_le_8: "to_le 8 n = to_le 4 n @ to_le 4 (n div 4294967296)"
  using to_le_add [of 4 4 n] by simp

lemma format_enc:
  "has_type v t \<Longrightarrow> wf_ty t \<Longrightarrow> format_payload env (schema t) (enc v) = Some (render v env t, length (enc v))"
  using value_prints [of v t env] by (auto simp: prints_def formats_def dest: spec [of _ "[]"])

lemma find_variant_numeral:
  "find_variant ts sch st v i (numeral k) spos found = find_variant ts sch st v i (Suc (pred_numeral k)) spos found"
  by (simp only: numeral_eq_Suc)

lemmas eval_read = read_u16_def read_unsigned_ne_def read_signed_ne_def to_signed_def size_for_k_def
  slice_from_def slice_def index_def Let_def

lemmas eval_ops = op_defs op_signed_int_def op_unsigned_int_def op_float_def op_str_def op_bool_def op_char_def

lemmas eval_measure = measure_schema.simps measure_loop.simps eval_ops eval_read

lemmas eval_print = show_int_def show_nat.simps digit_def show_bool_def utf8_char_def is_scalar_def
  from_utf8_or_empty_def comma_def read_str_from_table_def USIZE_LIMIT_def find_variant_numeral

lemmas eval_format = format_payload.simps fmt_seq.simps fmt_tuple.simps fmt_struct.simps schema_count_def
  eval_measure eval_print

lemmas eval_encode = put_def encode_str_def to_le_2 to_le_4 to_le_8 entries_def discriminant_def

section \<open>Tests of schema.rs\<close>

definition format_one :: "float_printer \<Rightarrow> bytes \<Rightarrow> bytes \<Rightarrow> bytes option" where
  "format_one fp sch payload =
     map_option fst (format_payload
       \<lparr>tables = [], users = [], show_f32 = print_f32 fp, show_f64 = print_f64 fp\<rparr> sch payload)"

definition format_with :: "float_printer \<Rightarrow> bytes list \<Rightarrow> bytes \<Rightarrow> bytes \<Rightarrow> bytes option" where
  "format_with fp st sch payload =
     map_option fst (format_payload
       \<lparr>tables = st, users = [], show_f32 = print_f32 fp, show_f64 = print_f64 fp\<rparr> sch payload)"

lemmas eval_format_one = format_one_def format_with_def eval_format eval_encode

definition test_measure_schema_primitive :: "unit option" where
  "test_measure_schema_primitive =
     do {
       assert (measure_schema [op_signed_int 3] = Some 1);
       assert (measure_schema [op_float 4] = Some 1);
       assert (measure_schema [op_bool] = Some 1)
     }"

lemma test_measure_schema_primitive_passes: "test_measure_schema_primitive = Some ()"
  by (simp add: test_measure_schema_primitive_def assert_def eval_measure)

definition test_measure_schema_seq :: "unit option" where
  "test_measure_schema_seq =
     assert (measure_schema [OP_SEQ OR 2, op_signed_int 3] = Some 2)"

lemma test_measure_schema_seq_passes: "test_measure_schema_seq = Some ()"
  by (simp add: test_measure_schema_seq_def assert_def eval_measure)

definition test_measure_schema_tuple_inline :: "unit option" where
  "test_measure_schema_tuple_inline =
     assert (measure_schema [OP_TUPLE OR 2, op_signed_int 4, op_float 4] = Some 3)"

lemma test_measure_schema_tuple_inline_passes: "test_measure_schema_tuple_inline = Some ()"
  by (simp add: test_measure_schema_tuple_inline_def assert_def eval_measure)

definition test_measure_schema_empty :: "unit option" where
  "test_measure_schema_empty =
     assert (measure_schema [] = Some 0)"

lemma test_measure_schema_empty_passes: "test_measure_schema_empty = Some ()"
  by (simp add: test_measure_schema_empty_def assert_def eval_measure)

definition test_measure_schema_struct_inline :: "unit option" where
  "test_measure_schema_struct_inline =
     assert (measure_schema [OP_STRUCT OR 2, 0, 0, 0, op_signed_int 3, 2, 0, op_float 4] =
       Some (1 + 1 + 2 + 1 + 2 + 1))"

lemma test_measure_schema_struct_inline_passes: "test_measure_schema_struct_inline = Some ()"
  by (simp add: test_measure_schema_struct_inline_def assert_def eval_measure)

definition test_measure_schema_struct_u16 :: "unit option" where
  "test_measure_schema_struct_u16 =
     assert (measure_schema [OP_STRUCT, 2, 0, 0, 0, 0, op_signed_int 3, 2, 0, op_float 4] =
       Some (1 + 2 + 1 + 2 + 1 + 2 + 1))"

lemma test_measure_schema_struct_u16_passes: "test_measure_schema_struct_u16 = Some ()"
  by (simp add: test_measure_schema_struct_u16_def assert_def eval_measure)

definition test_measure_schema_enum_inline :: "unit option" where
  "test_measure_schema_enum_inline =
     assert (measure_schema [OP_ENUM OR 2, 1, 0, 0, 0, OP_UNIT, 5, 0, op_signed_int 3] =
       Some (1 + 1 + 1 + 2 + 1 + 2 + 1))"

lemma test_measure_schema_enum_inline_passes: "test_measure_schema_enum_inline = Some ()"
  by (simp add: test_measure_schema_enum_inline_def assert_def eval_measure)

definition test_measure_schema_enum_u16 :: "unit option" where
  "test_measure_schema_enum_u16 =
     assert (measure_schema [OP_ENUM, 2, 0, 1, 0, 0, 0, OP_UNIT, 5, 0, op_signed_int 3] =
       Some (1 + 2 + 1 + 1 + 2 + 1 + 2 + 1))"

lemma test_measure_schema_enum_u16_passes: "test_measure_schema_enum_u16 = Some ()"
  by (simp add: test_measure_schema_enum_u16_def assert_def eval_measure)

definition test_measure_schema_tuple_u16 :: "unit option" where
  "test_measure_schema_tuple_u16 =
     assert (measure_schema [OP_TUPLE, 2, 0, op_signed_int 4, op_float 4] = Some (1 + 2 + 1 + 1))"

lemma test_measure_schema_tuple_u16_passes: "test_measure_schema_tuple_u16 = Some ()"
  by (simp add: test_measure_schema_tuple_u16_def assert_def eval_measure)

definition test_format_i32 :: "float_printer \<Rightarrow> unit option" where
  "test_format_i32 fp =
     do {
       (buf, wrote) \<leftarrow> encode_to (SignedV 3 42) (replicate 4 0);
       result \<leftarrow> format_one fp (schema (SignedT 3)) buf;
       assert (result = str ''42'')
     }"

lemma test_format_i32_passes: "test_format_i32 fp = Some ()"
  by (simp add: test_format_i32_def assert_def eval_format_one)

definition test_format_i64_negative :: "float_printer \<Rightarrow> unit option" where
  "test_format_i64_negative fp =
     do {
       (buf, wrote) \<leftarrow> encode_to (SignedV 4 (-123)) (replicate 8 0);
       result \<leftarrow> format_one fp (schema (SignedT 4)) buf;
       assert (result = str ''-123'')
     }"

lemma test_format_i64_negative_passes: "test_format_i64_negative fp = Some ()"
  by (simp add: test_format_i64_negative_def assert_def eval_format_one)

definition test_format_u32 :: "float_printer \<Rightarrow> unit option" where
  "test_format_u32 fp =
     do {
       (buf, wrote) \<leftarrow> encode_to (UnsignedV 3 100) (replicate 4 0);
       result \<leftarrow> format_one fp (schema (UnsignedT 3)) buf;
       assert (result = str ''100'')
     }"

lemma test_format_u32_passes: "test_format_u32 fp = Some ()"
  by (simp add: test_format_u32_def assert_def eval_format_one)

definition test_format_f64 :: "float_printer \<Rightarrow> unit option" where
  "test_format_f64 fp =
     do {
       (buf, wrote) \<leftarrow> encode_to (F64V 0x40091EB851EB851F) (replicate 8 0);
       result \<leftarrow> format_one fp (schema F64T) buf;
       assert (contains result (str ''3.14''))
     }"

lemma test_format_f64_passes: "print_f64 fp 0x40091EB851EB851F = str ''3.14'' \<Longrightarrow> test_format_f64 fp = Some ()"
  by (simp add: test_format_f64_def assert_def eval_format_one)

definition test_format_str :: "float_printer \<Rightarrow> unit option" where
  "test_format_str fp =
     do {
       (buf, wrote) \<leftarrow> encode_to (StrV (str ''hello'')) (replicate 32 0);
       result \<leftarrow> format_one fp (schema StrT) (take wrote buf);
       assert (result = str ''hello'')
     }"

lemma test_format_str_passes: "test_format_str fp = Some ()"
  by (simp add: test_format_str_def assert_def eval_format_one)

definition test_format_bool :: "float_printer \<Rightarrow> unit option" where
  "test_format_bool fp =
     do {
       result \<leftarrow> format_one fp (schema BoolT) [1];
       assert (result = str ''true'');
       result \<leftarrow> format_one fp (schema BoolT) [0];
       assert (result = str ''false'')
     }"

lemma test_format_bool_passes: "test_format_bool fp = Some ()"
  by (simp add: test_format_bool_def assert_def eval_format_one)

definition test_format_char :: "float_printer \<Rightarrow> unit option" where
  "test_format_char fp =
     do {
       (buf, wrote) \<leftarrow> encode_to (CharV 88) (replicate 4 0);
       result \<leftarrow> format_one fp (schema CharT) buf;
       assert (result = str ''X'')
     }"

lemma test_format_char_passes: "test_format_char fp = Some ()"
  by (simp add: test_format_char_def assert_def eval_format_one)

definition test_format_unit :: "float_printer \<Rightarrow> unit option" where
  "test_format_unit fp =
     do {
       result \<leftarrow> format_one fp (schema UnitT) [];
       assert (result = str ''()'')
     }"

lemma test_format_unit_passes: "test_format_unit fp = Some ()"
  by (simp add: test_format_unit_def assert_def eval_format_one)

definition test_format_large_i32 :: "float_printer \<Rightarrow> unit option" where
  "test_format_large_i32 fp =
     do {
       (buf, wrote) \<leftarrow> encode_to (SignedV 3 0x7FFFFFFF) (replicate 4 0);
       result \<leftarrow> format_one fp (schema (SignedT 3)) buf;
       assert (result = str ''2147483647'')
     }"

lemma test_format_large_i32_passes: "test_format_large_i32 fp = Some ()"
  by (simp add: test_format_large_i32_def assert_def eval_format_one)

definition test_format_large_u32 :: "float_printer \<Rightarrow> unit option" where
  "test_format_large_u32 fp =
     do {
       (buf, wrote) \<leftarrow> encode_to (UnsignedV 3 0xFFFFFFFF) (replicate 4 0);
       result \<leftarrow> format_one fp (schema (UnsignedT 3)) buf;
       assert (result = str ''4294967295'')
     }"

lemma test_format_large_u32_passes: "test_format_large_u32 fp = Some ()"
  by (simp add: test_format_large_u32_def assert_def eval_format_one)

definition test_format_large_i64 :: "float_printer \<Rightarrow> unit option" where
  "test_format_large_i64 fp =
     do {
       (buf, wrote) \<leftarrow> encode_to (SignedV 4 0x7FFFFFFFFFFFFFFF) (replicate 8 0);
       result \<leftarrow> format_one fp (schema (SignedT 4)) buf;
       assert (result = str ''9223372036854775807'')
     }"

lemma test_format_large_i64_passes: "test_format_large_i64 fp = Some ()"
  by (simp add: test_format_large_i64_def assert_def eval_format_one)

definition test_format_seq_i32 :: "float_printer \<Rightarrow> unit option" where
  "test_format_seq_i32 fp =
     do {
       buf \<leftarrow> put (replicate 64 0) 0 (to_le 2 2);
       (buf, pos) \<leftarrow> encode_all [encode_to (SignedV 3 10), encode_to (SignedV 3 20)] 2 buf;
       result \<leftarrow> format_one fp [OP_SEQ OR 2, op_signed_int 3] (take pos buf);
       assert (result = str ''[10, 20]'')
     }"

lemma test_format_seq_i32_passes: "test_format_seq_i32 fp = Some ()"
  by (simp add: test_format_seq_i32_def assert_def eval_format_one)

definition test_format_tuple_two :: "float_printer \<Rightarrow> unit option" where
  "test_format_tuple_two fp =
     do {
       (buf, pos) \<leftarrow> encode_all [encode_to (SignedV 4 5), encode_to (F64V 0x4004000000000000)] 0 (replicate 64 0);
       result \<leftarrow> format_one fp [OP_TUPLE OR 2, op_signed_int 4, op_float 4] (take pos buf);
       assert (result = str ''(5, 2.5)'')
     }"

lemma test_format_tuple_two_passes: "print_f64 fp 0x4004000000000000 = str ''2.5'' \<Longrightarrow> test_format_tuple_two fp = Some ()"
  by (simp add: test_format_tuple_two_def assert_def eval_format_one)

definition test_format_struct_two_fields :: "float_printer \<Rightarrow> unit option" where
  "test_format_struct_two_fields fp =
     do {
       (buf, pos) \<leftarrow> encode_all [encode_to (SignedV 3 1), encode_to (StrV (str ''xyz''))] 0 (replicate 64 0);
       s \<leftarrow> format_with fp [str ''x'' @ [0] @ str ''y'' @ [0]]
         [OP_STRUCT OR 2, 0, 0, 0, op_signed_int 3, 2, 0, op_str 2] (take pos buf);
       assert (s = str ''{x: 1, y: xyz}'')
     }"

lemma test_format_struct_two_fields_passes: "test_format_struct_two_fields fp = Some ()"
  by (simp add: test_format_struct_two_fields_def assert_def eval_format_one)

definition test_format_enum_unit_variant :: "float_printer \<Rightarrow> unit option" where
  "test_format_enum_unit_variant fp =
     do {
       let sch = [OP_ENUM OR 2, 1, 0, 0, 0, OP_UNIT, 5, 0, op_signed_int 3];
       let st = str ''None'' @ [0] @ str ''Some'' @ [0];
       s \<leftarrow> format_with fp [st] sch [0];
       assert (s = str ''None'');
       payload \<leftarrow> put (replicate 8 0) 0 [1];
       payload \<leftarrow> put payload 1 (to_le 4 42);
       s \<leftarrow> format_with fp [st] sch payload;
       assert (s = str ''Some(42)'')
     }"

lemma test_format_enum_unit_variant_passes: "test_format_enum_unit_variant fp = Some ()"
  by (simp add: test_format_enum_unit_variant_def assert_def eval_format_one)

definition test_format_struct_u16 :: "float_printer \<Rightarrow> unit option" where
  "test_format_struct_u16 fp =
     do {
       (buf, pos) \<leftarrow> encode_all [encode_to (SignedV 3 100), encode_to (StrV (str ''abc''))] 0 (replicate 64 0);
       s \<leftarrow> format_with fp [str ''field1'' @ [0] @ str ''field2'' @ [0]]
         [OP_STRUCT, 2, 0, 0, 0, 0, op_signed_int 3, 7, 0, op_str 2] (take pos buf);
       assert (s = str ''{field1: 100, field2: abc}'')
     }"

lemma test_format_struct_u16_passes: "test_format_struct_u16 fp = Some ()"
  by (simp add: test_format_struct_u16_def assert_def eval_format_one)

definition test_format_enum_u16 :: "float_printer \<Rightarrow> unit option" where
  "test_format_enum_u16 fp =
     do {
       let sch = [OP_ENUM, 2, 0, 1, 0, 0, 0, OP_UNIT, 2, 0, op_signed_int 3];
       let st = [str ''A'' @ [0] @ str ''B'' @ [0]];
       s \<leftarrow> format_with fp st sch [0];
       assert (s = str ''A'');
       payload \<leftarrow> put (replicate 8 0) 0 [1];
       payload \<leftarrow> put payload 1 (to_le 4 42);
       s \<leftarrow> format_with fp st sch payload;
       assert (s = str ''B(42)'')
     }"

lemma test_format_enum_u16_passes: "test_format_enum_u16 fp = Some ()"
  by (simp add: test_format_enum_u16_def assert_def eval_format_one)

definition test_format_empty_schema :: "float_printer \<Rightarrow> unit option" where
  "test_format_empty_schema fp =
     do { result \<leftarrow> format_one fp [] []; assert (result = []) }"

lemma test_format_empty_schema_passes: "test_format_empty_schema fp = Some ()"
  by (simp add: test_format_empty_schema_def assert_def eval_format_one)

definition test_format_truncated_payload :: "float_printer \<Rightarrow> unit option" where
  "test_format_truncated_payload fp =
     do {
       result \<leftarrow> format_one fp [op_signed_int 3] [0];
       assert (result = []);
       result \<leftarrow> format_one fp [op_str 2] [0];
       assert (result = [])
     }"

lemma test_format_truncated_payload_passes: "test_format_truncated_payload fp = Some ()"
  by (simp add: test_format_truncated_payload_def assert_def eval_format_one)

definition test_format_zero_count_seq :: "float_printer \<Rightarrow> unit option" where
  "test_format_zero_count_seq fp =
     do {
       result \<leftarrow> format_one fp [OP_SEQ OR 2, op_signed_int 3] [0, 0];
       assert (result = str ''[]'')
     }"

lemma test_format_zero_count_seq_passes: "test_format_zero_count_seq fp = Some ()"
  by (simp add: test_format_zero_count_seq_def assert_def eval_format_one)

definition test_format_empty_payload_nonempty_schema :: "float_printer \<Rightarrow> unit option" where
  "test_format_empty_payload_nonempty_schema fp =
     do { result \<leftarrow> format_one fp [op_signed_int 3] []; assert (result = []) }"

lemma test_format_empty_payload_nonempty_schema_passes: "test_format_empty_payload_nonempty_schema fp = Some ()"
  by (simp add: test_format_empty_payload_nonempty_schema_def assert_def eval_format_one)

definition test_format_unknown_opcode :: "float_printer \<Rightarrow> unit option" where
  "test_format_unknown_opcode fp =
     do { result \<leftarrow> format_one fp [0xCC] (replicate 8 1); assert (result = []) }"

lemma test_format_unknown_opcode_passes: "test_format_unknown_opcode fp = Some ()"
  by (simp add: test_format_unknown_opcode_def assert_def eval_format_one)

section \<open>Tests of compound.rs\<close>

text \<open>The last argument of \<open>format_payload\<close> is the writer; the tables and user formatters are empty.\<close>

definition fmt_tuple_payload :: "float_printer \<Rightarrow> bytes \<Rightarrow> bytes \<Rightarrow> bytes option" where
  "fmt_tuple_payload fp sch payload =
     map_option fst (format_payload
       \<lparr>tables = [], users = [], show_f32 = print_f32 fp, show_f64 = print_f64 fp\<rparr> sch payload)"

definition test_encode_decode_tuple_1_i32 :: "float_printer \<Rightarrow> unit option" where
  "test_encode_decode_tuple_1_i32 fp =
     do {
       let val = TupleV [SignedV 3 42];
       (buf, wrote) \<leftarrow> encode_to val (replicate 64 0);
       let sch = schema (TupleT [SignedT 3]);
       assert (sch ! 0 AND OP_TUPLE \<noteq> 0);
       result \<leftarrow> fmt_tuple_payload fp sch (take wrote buf);
       assert (result = str ''(42)'')
     }"

lemma test_encode_decode_tuple_1_i32_passes: "test_encode_decode_tuple_1_i32 fp = Some ()"
  by (simp add: test_encode_decode_tuple_1_i32_def assert_def fmt_tuple_payload_def eval_format eval_encode starts_with_def)

definition test_encode_decode_tuple_2_i32_f64 :: "float_printer \<Rightarrow> unit option" where
  "test_encode_decode_tuple_2_i32_f64 fp =
     do {
       let val = TupleV [SignedV 3 42, F64V 0x40091EB851EB851F];
       (buf, wrote) \<leftarrow> encode_to val (replicate 64 0);
       let sch = schema (TupleT [SignedT 3, F64T]);
       assert (sch ! 0 AND OP_TUPLE \<noteq> 0);
       result \<leftarrow> fmt_tuple_payload fp sch (take wrote buf);
       assert (contains result (str ''42''));
       assert (contains result (str ''3.14''))
     }"

lemma test_encode_decode_tuple_2_i32_f64_passes: "print_f64 fp 0x40091EB851EB851F = str ''3.14'' \<Longrightarrow> test_encode_decode_tuple_2_i32_f64 fp = Some ()"
  by (simp add: test_encode_decode_tuple_2_i32_f64_def assert_def fmt_tuple_payload_def eval_format eval_encode starts_with_def)

definition test_encode_decode_tuple_3_mixed :: "float_printer \<Rightarrow> unit option" where
  "test_encode_decode_tuple_3_mixed fp =
     do {
       let val = TupleV [SignedV 3 1, StrV (str ''hello''), BoolV True];
       (buf, wrote) \<leftarrow> encode_to val (replicate 128 0);
       let sch = schema (TupleT [SignedT 3, StrT, BoolT]);
       result \<leftarrow> fmt_tuple_payload fp sch (take wrote buf);
       assert (contains result (str ''1''));
       assert (contains result (str ''hello''));
       assert (contains result (str ''true''))
     }"

lemma test_encode_decode_tuple_3_mixed_passes: "test_encode_decode_tuple_3_mixed fp = Some ()"
  by (simp add: test_encode_decode_tuple_3_mixed_def assert_def fmt_tuple_payload_def eval_format eval_encode starts_with_def)

definition test_encode_decode_tuple_empty_0 :: "float_printer \<Rightarrow> unit option" where
  "test_encode_decode_tuple_empty_0 fp =
     do {
       (buf, wrote) \<leftarrow> encode_to UnitV (replicate 4 0);
       assert (wrote = 0);
       result \<leftarrow> fmt_tuple_payload fp (schema UnitT) [];
       assert (result = str ''()'')
     }"

lemma test_encode_decode_tuple_empty_0_passes: "test_encode_decode_tuple_empty_0 fp = Some ()"
  by (simp add: test_encode_decode_tuple_empty_0_def assert_def fmt_tuple_payload_def eval_format eval_encode starts_with_def)

definition test_encode_decode_tuple_12_max :: "float_printer \<Rightarrow> unit option" where
  "test_encode_decode_tuple_12_max fp =
     do {
       let val = TupleV (map (SignedV 3) [1, 2, 3, 4, 5, 6, 7, 8, 9, 10, 11, 12]);
       (buf, wrote) \<leftarrow> encode_to val (replicate 256 0);
       let sch = schema (TupleT (replicate 12 (SignedT 3)));
       m \<leftarrow> measure_schema sch;
       assert (1 < m);
       result \<leftarrow> fmt_tuple_payload fp sch (take wrote buf);
       assert (list_all (\<lambda>i. contains result (show_nat i)) [1, 2, 3, 4, 5, 6, 7, 8, 9, 10, 11, 12])
     }"

lemma test_encode_decode_tuple_12_max_passes: "test_encode_decode_tuple_12_max fp = Some ()"
  proof -
  let ?v = "TupleV (map (SignedV 3) [1, 2, 3, 4, 5, 6, 7, 8, 9, 10, 11, 12])" and ?t = "TupleT (replicate 12 (SignedT 3))"
  have t: "has_type ?v ?t" "wf_ty ?t" by (simp_all add: has_type_simps size_for_k_def numeral_eq_Suc)
  have n: "length (enc ?v) = 48" by (simp add: size_for_k_def)
  have e: "encode_to ?v (replicate 256 0) = Some (enc ?v @ replicate 208 0, 48)"
    by (subst writesD [OF encode_to_writes], subst (1 2 3) n) simp
  have m: "measure_schema (schema ?t) = Some (length (schema ?t))"
    using schema_measured [OF t(2)] unfolding measured_def by (metis append_Nil2)
  have l: "1 < length (schema ?t)" by simp
  let ?env = "\<lparr>tables = [], users = [], show_f32 = print_f32 fp, show_f64 = print_f64 fp\<rparr>"
  let ?s = "str ''(1, 2, 3, 4, 5, 6, 7, 8, 9, 10, 11, 12)''"
  let ?i = "SignedT 3"
  have rep: "replicate 12 ?i = [?i, ?i, ?i, ?i, ?i, ?i, ?i, ?i, ?i, ?i, ?i, ?i]" by (simp add: numeral_eq_Suc)
  have r: "render ?v ?env ?t = ?s" unfolding rep by (simp add: eval_print in_tuple_def)
  have f: "fmt_tuple_payload fp (schema ?t) (enc ?v) = Some ?s"
    by (simp only: fmt_tuple_payload_def format_enc [OF t] r option.map fst_conv)
  have d: "list_all (\<lambda>i. contains ?s (show_nat i)) [1, 2, 3, 4, 5, 6, 7, 8, 9, 10, 11, 12]"
    by (simp only: list.pred_inject) (simp add: eval_print starts_with_def)
  have k: "take 48 (enc ?v @ replicate 208 0) = enc ?v" using n by (simp del: enc.simps)
  show ?thesis
    unfolding test_encode_decode_tuple_12_max_def Let_def e by (simp only: bind.bind_lunit prod.case m l k f d assert_def if_True Option.bind.simps)
qed

definition test_tuple_schema_starts_with_op_tuple_n :: "unit option" where
  "test_tuple_schema_starts_with_op_tuple_n =
     do {
       let sch = schema (TupleT [SignedT 3, F64T]);
       assert (sch ! 0 AND CAT_MASK = OP_TUPLE);
       assert (sch ! 0 AND SIZE_MASK = 2)
     }"

lemma test_tuple_schema_starts_with_op_tuple_n_passes: "test_tuple_schema_starts_with_op_tuple_n = Some ()"
  by (simp add: test_tuple_schema_starts_with_op_tuple_n_def assert_def fmt_tuple_payload_def eval_format eval_encode starts_with_def)

definition test_tuple_encoded_size_equals_sum :: "unit option" where
  "test_tuple_encoded_size_equals_sum =
     do {
       let val = TupleV [SignedV 3 42, F64V 0x40091EB851EB851F];
       let actual = encoded_size (SignedV 3 42) + encoded_size (F64V 0x40091EB851EB851F);
       assert (encoded_size val = actual)
     }"

lemma test_tuple_encoded_size_equals_sum_passes: "test_tuple_encoded_size_equals_sum = Some ()"
  by (simp add: test_tuple_encoded_size_equals_sum_def assert_def fmt_tuple_payload_def eval_format eval_encode starts_with_def)

definition test_tuple_nested_1tuple :: "unit option" where
  "test_tuple_nested_1tuple =
     do {
       assert (length (schema (TupleT [SignedT 3])) = 2);
       assert (length (schema (TupleT [TupleT [SignedT 3], TupleT [SignedT 3]])) = 5)
     }"

lemma test_tuple_nested_1tuple_passes: "test_tuple_nested_1tuple = Some ()"
  by (simp add: test_tuple_nested_1tuple_def assert_def fmt_tuple_payload_def eval_format eval_encode starts_with_def)

definition test_tuple_nested_tuple_2d :: "float_printer \<Rightarrow> unit option" where
  "test_tuple_nested_tuple_2d fp =
     do {
       let val = TupleV [TupleV [SignedV 3 1, SignedV 3 2], TupleV [SignedV 3 3, SignedV 3 4]];
       (buf, wrote) \<leftarrow> encode_to val (replicate 256 0);
       let sch = schema (TupleT [TupleT [SignedT 3, SignedT 3], TupleT [SignedT 3, SignedT 3]]);
       assert (wrote = 16);
       assert (length sch = 7);
       result \<leftarrow> fmt_tuple_payload fp sch (take wrote buf);
       assert (contains result (str ''((1, 2), (3, 4))''))
     }"

lemma test_tuple_nested_tuple_2d_passes: "test_tuple_nested_tuple_2d fp = Some ()"
  by (simp add: test_tuple_nested_tuple_2d_def assert_def fmt_tuple_payload_def eval_format eval_encode starts_with_def)

definition test_tuple_measure_schema_correct :: "unit option" where
  "test_tuple_measure_schema_correct =
     do {
       let sch = schema (TupleT [SignedT 3, F64T]);
       measured \<leftarrow> measure_schema sch;
       assert (measured = length sch)
     }"

lemma test_tuple_measure_schema_correct_passes: "test_tuple_measure_schema_correct = Some ()"
  by (simp add: test_tuple_measure_schema_correct_def assert_def fmt_tuple_payload_def eval_format eval_encode starts_with_def)

section \<open>Tests of primitives.rs\<close>

definition test_encode_i32 :: "unit option" where
  "test_encode_i32 =
     do {
       (buf, wrote) \<leftarrow> encode_to (SignedV 3 42) (replicate 16 0);
       assert (wrote = 4);
       assert (to_signed 4 (from_le (take 4 buf)) = 42)
     }"

lemma test_encode_i32_passes: "test_encode_i32 = Some ()"
  by (simp add: test_encode_i32_def assert_def eval_encode eval_ops to_signed_def size_for_k_def starts_with_def eval_print)

definition test_encode_i64 :: "unit option" where
  "test_encode_i64 =
     do {
       (buf, wrote) \<leftarrow> encode_to (SignedV 4 (-1234567890123)) (replicate 16 0);
       assert (wrote = 8);
       assert (to_signed 8 (from_le (take 8 buf)) = -1234567890123)
     }"

lemma test_encode_i64_passes: "test_encode_i64 = Some ()"
  by (simp add: test_encode_i64_def assert_def eval_encode eval_ops to_signed_def size_for_k_def starts_with_def eval_print)

text \<open>The decoded number is compared by its bits, of which the bound on the difference follows.\<close>

definition test_encode_f64 :: "unit option" where
  "test_encode_f64 =
     do {
       (buf, wrote) \<leftarrow> encode_to (F64V 0x400921FB54411744) (replicate 16 0);
       assert (wrote = 8);
       let decoded = (word_of_nat (from_le (take 8 buf)) :: 64 word);
       assert (decoded = 0x400921FB54411744)
     }"

lemma test_encode_f64_passes: "test_encode_f64 = Some ()"
  by (simp add: test_encode_f64_def assert_def eval_encode eval_ops to_signed_def size_for_k_def starts_with_def eval_print)

definition test_encode_bool_true :: "unit option" where
  "test_encode_bool_true =
     do {
       (buf, wrote) \<leftarrow> encode_to (BoolV True) (replicate 4 0);
       assert (wrote = 1);
       assert (buf ! 0 = 1)
     }"

lemma test_encode_bool_true_passes: "test_encode_bool_true = Some ()"
  by (simp add: test_encode_bool_true_def assert_def eval_encode eval_ops to_signed_def size_for_k_def starts_with_def eval_print)

definition test_encode_bool_false :: "unit option" where
  "test_encode_bool_false =
     do {
       (buf, wrote) \<leftarrow> encode_to (BoolV False) (replicate 4 0);
       assert (wrote = 1);
       assert (buf ! 0 = 0)
     }"

lemma test_encode_bool_false_passes: "test_encode_bool_false = Some ()"
  by (simp add: test_encode_bool_false_def assert_def eval_encode eval_ops to_signed_def size_for_k_def starts_with_def eval_print)

definition test_encode_char :: "unit option" where
  "test_encode_char =
     do {
       (buf, wrote) \<leftarrow> encode_to (CharV 0x1F980) (replicate 4 0);
       assert (wrote = 4);
       assert (from_le buf = 0x1F980)
     }"

lemma test_encode_char_passes: "test_encode_char = Some ()"
  by (simp add: test_encode_char_def assert_def eval_encode eval_ops to_signed_def size_for_k_def starts_with_def eval_print)

definition test_encode_unit :: "unit option" where
  "test_encode_unit =
     do { (buf, wrote) \<leftarrow> encode_to UnitV (replicate 4 0); assert (wrote = 0) }"

lemma test_encode_unit_passes: "test_encode_unit = Some ()"
  by (simp add: test_encode_unit_def assert_def eval_encode eval_ops to_signed_def size_for_k_def starts_with_def eval_print)

definition test_encode_str :: "unit option" where
  "test_encode_str =
     do {
       (buf, wrote) \<leftarrow> encode_to (StrV (str ''hello world'')) (replicate 32 0);
       assert (wrote = 2 + 11);
       assert (from_le (take 2 buf) = 11);
       s \<leftarrow> slice buf 2 13;
       assert (s = str ''hello world'')
     }"

lemma test_encode_str_passes: "test_encode_str = Some ()"
  by (simp add: test_encode_str_def assert_def eval_encode eval_ops to_signed_def size_for_k_def starts_with_def eval_print slice_def)

definition test_encode_string :: "unit option" where
  "test_encode_string =
     do {
       (buf, wrote) \<leftarrow> encode_to (StrV (str ''test'')) (replicate 32 0);
       assert (wrote = 6)
     }"

lemma test_encode_string_passes: "test_encode_string = Some ()"
  by (simp add: test_encode_string_def assert_def eval_encode eval_ops to_signed_def size_for_k_def starts_with_def eval_print)

text \<open>The wrappers hold what \<open>Display\<close> prints of the number and \<open>Debug\<close> of the vector.\<close>

definition test_encode_display_arg :: "unit option" where
  "test_encode_display_arg =
     do {
       (buf, wrote) \<leftarrow> encode_to (TextV (show_int 42)) (replicate 32 0);
       let len = from_le (take 2 buf);
       s \<leftarrow> slice buf 2 (2 + len);
       assert (s = str ''42'');
       assert (0 < wrote)
     }"

lemma test_encode_display_arg_passes: "test_encode_display_arg = Some ()"
  by (simp add: test_encode_display_arg_def assert_def eval_encode eval_ops to_signed_def size_for_k_def starts_with_def eval_print slice_def)

definition test_encode_debug_arg :: "unit option" where
  "test_encode_debug_arg =
     do {
       (buf, wrote) \<leftarrow> encode_to (TextV (str ''[1, 2, 3]'')) (replicate 64 0);
       let len = from_le (take 2 buf);
       bs \<leftarrow> slice buf 2 (2 + len);
       s \<leftarrow> (if valid_utf8 bs then Some bs else None);
       assert (contains s (str ''[1, 2, 3]''));
       assert (0 < wrote)
     }"

lemma test_encode_debug_arg_passes: "test_encode_debug_arg = Some ()"
  by (simp add: test_encode_debug_arg_def assert_def eval_encode eval_ops to_signed_def size_for_k_def starts_with_def eval_print slice_def)

definition test_schema_i32_is_signed_int_3 :: "unit option" where
  "test_schema_i32_is_signed_int_3 =
     assert (schema (SignedT 3) = [op_signed_int 3])"

lemma test_schema_i32_is_signed_int_3_passes: "test_schema_i32_is_signed_int_3 = Some ()"
  by (simp add: test_schema_i32_is_signed_int_3_def assert_def eval_encode eval_ops to_signed_def size_for_k_def starts_with_def eval_print)

definition test_schema_f64_is_float_4 :: "unit option" where
  "test_schema_f64_is_float_4 =
     assert (schema F64T = [op_float 4])"

lemma test_schema_f64_is_float_4_passes: "test_schema_f64_is_float_4 = Some ()"
  by (simp add: test_schema_f64_is_float_4_def assert_def eval_encode eval_ops to_signed_def size_for_k_def starts_with_def eval_print)

definition test_schema_bool :: "unit option" where
  "test_schema_bool =
     assert (schema BoolT = [op_bool])"

lemma test_schema_bool_passes: "test_schema_bool = Some ()"
  by (simp add: test_schema_bool_def assert_def eval_encode eval_ops to_signed_def size_for_k_def starts_with_def eval_print)

definition test_schema_str :: "unit option" where
  "test_schema_str =
     assert (schema StrT = [op_str 2])"

lemma test_schema_str_passes: "test_schema_str = Some ()"
  by (simp add: test_schema_str_def assert_def eval_encode eval_ops to_signed_def size_for_k_def starts_with_def eval_print)

end
