(* ===== verification/Unit_Tests_Queue.thy ===== *)
theory Unit_Tests_Queue
  imports Growth Unit_Test "HOL-Library.Multiset" "HOL-Library.List_Lexorder"
begin

text \<open>
  The unit tests of \<open>src/queue.rs\<close> and \<open>src/thread_context.rs\<close>, transcribed onto the model over any ring \<open>R\<close>, and
  that they pass for every ring that keeps the contract \<open>byte_ring\<close>. A test starts in a fresh process
  (\<open>empty_world\<close>); its own thread is thread 0. The lock that serialises the tests is not needed here.
\<close>

section \<open>Steps of the tests\<close>

text \<open>\<open>assert!(prod.push(..).is_ok())\<close>, and a loop of them.\<close>

definition push_ok :: "(PushError + 'r) option \<Rightarrow> 'r option" where
  "push_ok res = (case res of Some (Inr r) \<Rightarrow> Some r | _ \<Rightarrow> None)"

fun push_each :: "'r rtrb \<Rightarrow> bytes list \<Rightarrow> 'r \<Rightarrow> 'r option" where
  "push_each R [] q = Some q"
| "push_each R (m # ms) q = do { q \<leftarrow> push_ok (push R q m); push_each R ms q }"

text \<open>\<open>ThreadContext::push(..).unwrap()\<close> on thread \<open>t\<close>, and a loop of them.\<close>

definition ctx_push_ok :: "'r rtrb \<Rightarrow> nat \<Rightarrow> bytes \<Rightarrow> 'r world \<Rightarrow> 'r world option" where
  "ctx_push_ok R t d w =
     (case ctx_push R t d w of Some (Inr _, w') \<Rightarrow> Some w' | _ \<Rightarrow> None)"

fun ctx_push_each :: "'r rtrb \<Rightarrow> nat \<Rightarrow> bytes list \<Rightarrow> 'r world \<Rightarrow> 'r world option" where
  "ctx_push_each R t [] w = Some w"
| "ctx_push_each R t (d # ds) w = do { w \<leftarrow> ctx_push_ok R t d w; ctx_push_each R t ds w }"

definition reset_ctx :: "'r rtrb \<Rightarrow> nat \<Rightarrow> 'r world \<Rightarrow> 'r world option" where
  "reset_ctx R t w =
     (let (c, w1) = get_ctx R t w;
          (c', w2) = new_ctx R (drop_ctx R c w1)
      in do {
        (_, w3) \<leftarrow> poll_all_registered_queues R (w2\<lparr>ctxs := (ctxs w2)(t \<mapsto> c')\<rparr>);
        Some w3
      })"

text \<open>The first lines of every test: \<open>CONSUMER_REGISTRY.lock().clear(); reset_ctx();\<close>\<close>

definition fresh_start :: "'r rtrb \<Rightarrow> 'r world option" where
  "fresh_start R = reset_ctx R 0 (empty_world\<lparr>registry := []\<rparr>)"

text \<open>Two threads that push and end, in any interleaving of their steps.\<close>

datatype thread_step = PushStep nat bytes | ExitStep nat

fun run_threads :: "'r rtrb \<Rightarrow> thread_step list \<Rightarrow> 'r world \<Rightarrow> 'r world option" where
  "run_threads R [] w = Some w"
| "run_threads R (PushStep t d # es) w = do { w \<leftarrow> ctx_push_ok R t d w; run_threads R es w }"
| "run_threads R (ExitStep t # es) w = run_threads R es (thread_exit R t w)"

section \<open>Tests of queue.rs\<close>

definition test_push_and_pop_single_message :: "'r rtrb \<Rightarrow> unit option" where
  "test_push_and_pop_single_message R =
     do {
       let (cap, q) = create_queue R 1024;
       let payload = str ''hello world'';
       q \<leftarrow> push_ok (push R q payload);
       assert (\<not> rb_is_empty R q);
       (case pop R q of (popped, q) \<Rightarrow> do {
          msg \<leftarrow> popped;
          assert (msg = payload);
          assert (rb_is_empty R q)
        })
     }"

definition test_push_and_pop_multiple_messages :: "'r rtrb \<Rightarrow> unit option" where
  "test_push_and_pop_multiple_messages R =
     do {
       let (cap, q) = create_queue R 1024;
       q \<leftarrow> push_each R (map (\<lambda>i. str ''msg'' @ show_nat i) [0..<10]) q;
       (msgs, q) \<leftarrow> pop_all R q [];
       assert (length msgs = 10);
       assert (list_all (\<lambda>i. msgs ! i = str ''msg'' @ show_nat i) [0..<10])
     }"

definition test_push_full_queue :: "'r rtrb \<Rightarrow> unit option" where
  "test_push_full_queue R =
     do {
       let (cap, q) = create_queue R 64;
       let payload = replicate 100 0;
       assert (push R q payload = Some (Inl Full));
       assert (rb_is_empty R q)
     }"

definition test_pop_empty_queue :: "'r rtrb \<Rightarrow> unit option" where
  "test_pop_empty_queue R =
     do {
       let (cap, q) = create_queue R 1024;
       (case pop R q of (popped, q) \<Rightarrow> do {
          assert (popped = None);
          assert (rb_is_empty R q)
        })
     }"

definition test_pop_all_on_empty_queue :: "'r rtrb \<Rightarrow> unit option" where
  "test_pop_all_on_empty_queue R =
     do {
       let (cap, q) = create_queue R 1024;
       (msgs, q) \<leftarrow> pop_all R q [];
       assert (msgs = [])
     }"

definition test_mixed_small_and_large_messages :: "'r rtrb \<Rightarrow> unit option" where
  "test_mixed_small_and_large_messages R =
     do {
       let (cap, q) = create_queue R 8192;
       let small = str ''x'';
       let large = replicate 1000 42;
       q \<leftarrow> push_ok (push R q small);
       q \<leftarrow> push_ok (push R q large);
       q \<leftarrow> push_ok (push R q small);
       (msgs, q) \<leftarrow> pop_all R q [];
       assert (length msgs = 3);
       assert (msgs ! 0 = small);
       assert (msgs ! 1 = large);
       assert (msgs ! 2 = small)
     }"

definition test_empty_message_roundtrip :: "'r rtrb \<Rightarrow> unit option" where
  "test_empty_message_roundtrip R =
     do {
       let (cap, q) = create_queue R 1024;
       q \<leftarrow> push_ok (push R q []);
       (case pop R q of (popped, q) \<Rightarrow> do {
          msg \<leftarrow> popped;
          assert (msg = [])
        })
     }"

definition test_abandoned_detection :: "'r rtrb \<Rightarrow> unit option" where
  "test_abandoned_detection R =
     do {
       let (cap, q) = create_queue R 1024;
       assert (\<not> rb_is_abandoned R q);
       let q = rb_drop_producer R q;
       assert (rb_is_abandoned R q)
     }"

definition test_capacity_returns_correct_value :: "'r rtrb \<Rightarrow> unit option" where
  "test_capacity_returns_correct_value R =
     do {
       let (cap, q) = create_queue R 256;
       assert (cap = 256);
       let (cap, q) = create_queue R 1024;
       assert (cap = 1024)
     }"

definition test_grow_doubles_capacity :: "'r rtrb \<Rightarrow> unit option" where
  "test_grow_doubles_capacity R =
     do {
       let (cap, q) = create_queue R 256;
       assert (cap = 256);
       (cap, new_q) \<leftarrow> grow R cap;
       assert (cap = 512);
       assert (\<not> rb_is_abandoned R new_q)
     }"

definition test_grow_respects_max_and_returns_none :: "'r rtrb \<Rightarrow> unit option" where
  "test_grow_respects_max_and_returns_none R =
     do {
       let (cap, q) = create_queue R MAX_BLOCK_CAPACITY;
       assert (grow R cap = None);
       assert (cap = MAX_BLOCK_CAPACITY)
     }"

section \<open>Tests of thread\_context.rs\<close>

definition test_push_and_poll_single_thread :: "'r rtrb \<Rightarrow> unit option" where
  "test_push_and_poll_single_thread R =
     do {
       w \<leftarrow> fresh_start R;
       let w = init R 0 w;
       w \<leftarrow> ctx_push_ok R 0 (str ''hello'') w;
       w \<leftarrow> ctx_push_ok R 0 (str ''world'') w;
       (msgs, w) \<leftarrow> poll_all_registered_queues R w;
       assert (length msgs = 2);
       assert (msgs ! 0 = str ''hello'');
       assert (msgs ! 1 = str ''world'')
     }"

definition test_poll_empty_returns_empty :: "'r rtrb \<Rightarrow> unit option" where
  "test_poll_empty_returns_empty R =
     do {
       w \<leftarrow> fresh_start R;
       let w = init R 0 w;
       (msgs, w) \<leftarrow> poll_all_registered_queues R w;
       assert (msgs = [])
     }"

definition test_push_from_multiple_threads :: "'r rtrb \<Rightarrow> thread_step list \<Rightarrow> unit option" where
  "test_push_from_multiple_threads R sched =
     do {
       w \<leftarrow> fresh_start R;
       let w = init R 0 w;
       w \<leftarrow> run_threads R sched w;
       (msgs, w) \<leftarrow> poll_all_registered_queues R w;
       assert (sort msgs = [str ''t1a'', str ''t1b'', str ''t2a'', str ''t2b''])
     }"

definition test_has_pending_messages_detects_data :: "'r rtrb \<Rightarrow> unit option" where
  "test_has_pending_messages_detects_data R =
     do {
       w \<leftarrow> fresh_start R;
       let w = init R 0 w;
       assert (\<not> has_pending_messages R w);
       w \<leftarrow> ctx_push_ok R 0 (str ''data'') w;
       assert (has_pending_messages R w);
       (_, w) \<leftarrow> poll_all_registered_queues R w;
       assert (\<not> has_pending_messages R w)
     }"

definition test_abandoned_queue_cleanup :: "'r rtrb \<Rightarrow> unit option" where
  "test_abandoned_queue_cleanup R =
     do {
       w \<leftarrow> fresh_start R;
       let w = init R 0 w;
       let (cap, q) = create_queue R 1024;
       let cons = rb_drop_producer R q;
       let w = w\<lparr>rings := rings w @ [cons], registry := registry w @ [length (rings w)]\<rparr>;
       (msgs, w) \<leftarrow> poll_all_registered_queues R w;
       assert (list_all (\<lambda>i. \<not> rb_is_abandoned R (rings w ! i)) (registry w))
     }"

definition test_unbounded_push_past_capacity :: "'r rtrb \<Rightarrow> unit option" where
  "test_unbounded_push_past_capacity R =
     do {
       w \<leftarrow> fresh_start R;
       let w = init_with_mode R 0 UnboundedBlocking 64 w;
       let payload = replicate 100 42;
       w \<leftarrow> ctx_push_each R 0 (replicate 20 payload) w;
       (msgs, w) \<leftarrow> poll_all_registered_queues R w;
       assert (length msgs = 20);
       assert (list_all (\<lambda>msg. msg = payload) msgs)
     }"

definition test_unbounded_multi_block_pop_fifo :: "'r rtrb \<Rightarrow> unit option" where
  "test_unbounded_multi_block_pop_fifo R =
     do {
       w \<leftarrow> fresh_start R;
       let w = init_with_mode R 0 UnboundedBlocking 64 w;
       w \<leftarrow> ctx_push_each R 0 (map (\<lambda>i. replicate 100 (word_of_nat i)) [0..<5]) w;
       (msgs, w) \<leftarrow> poll_all_registered_queues R w;
       assert (length msgs = 5);
       assert (list_all (\<lambda>i. msgs ! i = replicate 100 (word_of_nat i)) [0..<5])
     }"

definition test_bounded_drops_on_full :: "'r rtrb \<Rightarrow> unit option" where
  "test_bounded_drops_on_full R =
     do {
       w \<leftarrow> fresh_start R;
       let w = init_with_mode R 0 BoundedDropping 64 w;
       (res, w) \<leftarrow> ctx_push R 0 (replicate 100 0) w;
       assert (res = Inl Full)
     }"

definition test_mode_persistence :: "'r rtrb \<Rightarrow> unit option" where
  "test_mode_persistence R =
     do {
       w \<leftarrow> fresh_start R;
       let w = init_with_mode R 0 UnboundedBlocking 64 w;
       w \<leftarrow> ctx_push_each R 0 (map (\<lambda>i. replicate 80 (word_of_nat i)) [0..<10]) w;
       Some ()
     }"

definition test_grow_pushes_consumer_to_registry :: "'r rtrb \<Rightarrow> unit option" where
  "test_grow_pushes_consumer_to_registry R =
     do {
       w \<leftarrow> fresh_start R;
       let w = init_with_mode R 0 UnboundedBlocking 64 w;
       (_, w) \<leftarrow> poll_all_registered_queues R w;
       assert (length (registry w) = 1);
       w \<leftarrow> ctx_push_each R 0 (replicate 10 (replicate 80 0)) w;
       assert (1 < length (registry w))
     }"

definition test_abandoned_cleanup_with_blocks :: "'r rtrb \<Rightarrow> unit option" where
  "test_abandoned_cleanup_with_blocks R =
     do {
       w \<leftarrow> fresh_start R;
       let w = init_with_mode R 0 UnboundedBlocking 64 w;
       w \<leftarrow> ctx_push_each R 0 (replicate 10 (replicate 80 0)) w;
       assert (1 < length (registry w));
       (msgs, w) \<leftarrow> poll_all_registered_queues R w;
       assert (registry w \<noteq> [])
     }"

section \<open>They pass\<close>

text \<open>The world after \<open>fresh_start\<close>, and a world in which every context is a default one.\<close>

definition fresh_world :: "'r rtrb \<Rightarrow> 'r world" where
  "fresh_world R = \<lparr>rings = [rb_drop_producer R (rb_new R DEFAULT_START_CAPACITY), rb_new R DEFAULT_START_CAPACITY],
     registry = [1], ctxs = [0 \<mapsto> \<lparr>producer = 1, capacity = DEFAULT_START_CAPACITY, mode = BoundedDropping\<rparr>]\<rparr>"

definition ready :: "'r ring_view \<Rightarrow> 'r world \<Rightarrow> (nat \<Rightarrow> bytes list) \<Rightarrow> bool" where
  "ready V w T \<longleftrightarrow> world_holds V w T \<and>
     (\<forall>t c. ctxs w t = Some c \<longrightarrow> capacity c = DEFAULT_START_CAPACITY \<and> mode c = BoundedDropping)"

text \<open>The bytes that thread \<open>t\<close> pushes.\<close>

fun pushes_of :: "nat \<Rightarrow> thread_step \<Rightarrow> bool" where
  "pushes_of t (PushStep u d) \<longleftrightarrow> u = t"
| "pushes_of t (ExitStep u) \<longleftrightarrow> False"

fun step_data :: "thread_step \<Rightarrow> bytes" where
  "step_data (PushStep u d) = d"
| "step_data (ExitStep u) = []"

definition pushes :: "nat \<Rightarrow> thread_step list \<Rightarrow> bytes list" where
  "pushes t es = map step_data (filter (pushes_of t) es)"

lemma by_thread_nonempty: "length ts = length ms \<Longrightarrow> t \<in> set ts \<Longrightarrow> by_thread ts ms t \<noteq> []"
  by (induction ts ms rule: list_induct2) (auto simp: by_thread_Cons)

lemma mset_by_thread:
  "length ts = length ms \<Longrightarrow> finite A \<Longrightarrow> set ts \<subseteq> A \<Longrightarrow> mset ms = (\<Sum>t \<in> A. mset (by_thread ts ms t))"
proof (induction ts ms rule: list_induct2)
  case (Cons t ts m ms)
  have "(\<Sum>u \<in> A. mset (by_thread (t # ts) (m # ms) u)) =
      (\<Sum>u \<in> A. (if u = t then {#m#} else {#}) + mset (by_thread ts ms u))"
    by (intro sum.cong) (auto simp: by_thread_Cons)
  then show ?case using Cons by (simp add: sum.distrib)
qed (simp add: by_thread_def)

text \<open>
  The world of a test of the unbounded mode: only thread 0 has messages waiting, its ring is never larger
  than twice what they need, and the registry holds \<open>n\<close> consumers, and one more once the ring has grown.
\<close>

definition unbounded :: "'r ring_view \<Rightarrow> nat \<Rightarrow> 'r world \<Rightarrow> bytes list \<Rightarrow> bool" where
  "unbounded V n w ms \<longleftrightarrow> world_holds V w ((\<lambda>_. [])(0 := ms)) \<and>
     (\<exists>c. ctxs w 0 = Some c \<and> mode c = UnboundedBlocking \<and> 0 < capacity c \<and>
        capacity c \<le> max 64 (2 * sum_list (map frame_size ms)) \<and>
        n + (if capacity c = 64 then 0 else 1) \<le> length (registry w))"

context byte_ring
begin

subsection \<open>Queues\<close>

lemma holds_length: "queue_holds V q ms \<Longrightarrow> length (committed V q) = sum_list (map frame_size ms)"
  by (simp add: queue_holds_def framed_length)

lemma new_queue: "64 dvd c \<Longrightarrow> c < 2 ^ 32 \<Longrightarrow> queue_holds V (rb_new R c) [] \<and> cap V (rb_new R c) = c"
  by (simp add: new_holds new)

lemma push_ok_holds:
  assumes "queue_holds V q ms" "sum_list (map frame_size ms) + frame_size d \<le> cap V q"
  shows "\<exists>q'. push_ok (push R q d) = Some q' \<and> queue_holds V q' (ms @ [d]) \<and> cap V q' = cap V q"
  using push_fits [OF assms(1), of d] assms holds_length [OF assms(1)]
  by (fastforce simp: push_ok_def same_ring_def)

lemma push_each_holds:
  "queue_holds V q ms \<Longrightarrow> sum_list (map frame_size (ms @ ds)) \<le> cap V q \<Longrightarrow>
   \<exists>q'. push_each R ds q = Some q' \<and> queue_holds V q' (ms @ ds) \<and> cap V q' = cap V q"
proof (induction ds arbitrary: q ms)
  case (Cons d ds)
  obtain q1 where q1: "push_ok (push R q d) = Some q1" "queue_holds V q1 (ms @ [d])" "cap V q1 = cap V q"
    using push_ok_holds [OF Cons.prems(1), of d] Cons.prems(2) by auto
  then show ?case using Cons.IH [of q1 "ms @ [d]"] Cons.prems(2) by auto
qed simp

lemma pop_all_holds: "queue_holds V q ms \<Longrightarrow> \<exists>q'. pop_all R q [] = Some (ms, q') \<and> queue_holds V q' []"
  using pop_all_returns [of q ms "[]"] by auto

lemmas frame_lengths = frame_size_def FRAME_HEADER_def

lemma test_push_and_pop_single_message_passes: "test_push_and_pop_single_message R = Some ()"
proof -
  have n: "queue_holds V (rb_new R 1024) []" "cap V (rb_new R 1024) = 1024" using new_queue [of 1024] by simp_all
  obtain q where q: "push_ok (push R (rb_new R 1024) (str ''hello world'')) = Some q" "queue_holds V q [str ''hello world'']"
    using push_ok_holds [OF n(1), of "str ''hello world''"] n(2) by (auto simp: frame_lengths)
  obtain r where r: "pop R q = (Some (str ''hello world''), r)" "queue_holds V r []"
    using pop_Cons [OF q(2)] by blast
  show ?thesis
    using q r holds_is_empty [OF q(2)] holds_is_empty [OF r(2)]
    by (simp add: test_push_and_pop_single_message_def assert_def)
qed

lemma test_push_and_pop_multiple_messages_passes: "test_push_and_pop_multiple_messages R = Some ()"
proof -
  let ?ms = "map (\<lambda>i. str ''msg'' @ show_nat i) [0..<10]"
  have n: "queue_holds V (rb_new R 1024) []" "cap V (rb_new R 1024) = 1024" using new_queue [of 1024] by simp_all
  have f: "frame_size (str ''msg'' @ show_nat i) = 64" if "i \<in> set [0..<10]" for i
    using that by (simp add: frame_lengths show_nat.simps)
  have "map frame_size ?ms = replicate 10 64" by (rule nth_equalityI) (use f in auto)
  then have "sum_list (map frame_size ([] @ ?ms)) \<le> cap V (rb_new R 1024)"
    using n(2) by (simp only: append_Nil sum_list_replicate) simp
  from push_each_holds [OF n(1) this] obtain q where q: "push_each R ?ms (rb_new R 1024) = Some q" "queue_holds V q ?ms"
    by auto
  obtain r where "pop_all R q [] = Some (?ms, r)" using pop_all_holds [OF q(2)] by blast
  then show ?thesis
    using q(1) by (simp add: test_push_and_pop_multiple_messages_def assert_def list_all_iff)
qed

lemma test_push_full_queue_passes: "test_push_full_queue R = Some ()"
proof -
  have n: "queue_holds V (rb_new R 64) []" "cap V (rb_new R 64) = 64" using new_queue [of 64] by simp_all
  have "push R (rb_new R 64) (replicate 100 0) = Some (Inl Full)"
    using push_full [OF n(1), of "replicate 100 0"] n(2) by (simp add: frame_lengths)
  then show ?thesis using holds_is_empty [OF n(1)] by (simp add: test_push_full_queue_def assert_def)
qed

lemma test_pop_empty_queue_passes: "test_pop_empty_queue R = Some ()"
proof -
  have n: "queue_holds V (rb_new R 1024) []" using new_queue [of 1024] by simp
  show ?thesis using pop_empty [OF n] holds_is_empty [OF n] by (simp add: test_pop_empty_queue_def assert_def)
qed

lemma test_pop_all_on_empty_queue_passes: "test_pop_all_on_empty_queue R = Some ()"
  using pop_all_holds [of "rb_new R 1024" "[]"] new_queue [of 1024]
  by (auto simp: test_pop_all_on_empty_queue_def assert_def)

lemma test_mixed_small_and_large_messages_passes: "test_mixed_small_and_large_messages R = Some ()"
proof -
  let ?s = "str ''x''" and ?l = "replicate 1000 (42 :: byte)"
  have n: "queue_holds V (rb_new R 8192) []" "cap V (rb_new R 8192) = 8192" using new_queue [of 8192] by simp_all
  obtain q1 where q1: "push_ok (push R (rb_new R 8192) ?s) = Some q1" "queue_holds V q1 [?s]" "cap V q1 = 8192"
    using push_ok_holds [OF n(1), of ?s] n(2) by (auto simp: frame_lengths)
  obtain q2 where q2: "push_ok (push R q1 ?l) = Some q2" "queue_holds V q2 [?s, ?l]" "cap V q2 = 8192"
    using push_ok_holds [OF q1(2), of ?l] q1(3) by (auto simp: frame_lengths)
  obtain q3 where q3: "push_ok (push R q2 ?s) = Some q3" "queue_holds V q3 [?s, ?l, ?s]"
    using push_ok_holds [OF q2(2), of ?s] q2(3) by (auto simp: frame_lengths)
  obtain r where "pop_all R q3 [] = Some ([?s, ?l, ?s], r)" using pop_all_holds [OF q3(2)] by blast
  then show ?thesis
    using q1(1) q2(1) q3(1) by (simp add: test_mixed_small_and_large_messages_def assert_def)
qed

lemma test_empty_message_roundtrip_passes: "test_empty_message_roundtrip R = Some ()"
proof -
  have n: "queue_holds V (rb_new R 1024) []" "cap V (rb_new R 1024) = 1024" using new_queue [of 1024] by simp_all
  obtain q where q: "push_ok (push R (rb_new R 1024) []) = Some q" "queue_holds V q [[]]"
    using push_ok_holds [OF n(1), of "[]"] n(2) by (auto simp: frame_lengths)
  obtain r where "pop R q = (Some [], r)" using pop_Cons [OF q(2)] by blast
  then show ?thesis using q(1) by (simp add: test_empty_message_roundtrip_def assert_def)
qed

lemma test_abandoned_detection_passes: "test_abandoned_detection R = Some ()"
  using new [of 1024] drop_producer [of "rb_new R 1024"] is_abandoned
  by (simp add: test_abandoned_detection_def assert_def)

lemma test_capacity_returns_correct_value_passes: "test_capacity_returns_correct_value R = Some ()"
  by (simp add: test_capacity_returns_correct_value_def assert_def)

lemma test_grow_doubles_capacity_passes: "test_grow_doubles_capacity R = Some ()"
  using new [of 512] is_abandoned [of "rb_new R 512"]
  by (simp add: test_grow_doubles_capacity_def assert_def grow_def MAX_BLOCK_CAPACITY_def)

lemma test_grow_respects_max_and_returns_none_passes: "test_grow_respects_max_and_returns_none R = Some ()"
  by (simp add: test_grow_respects_max_and_returns_none_def assert_def grow_def)

subsection \<open>Threads\<close>

lemma default_holds:
  "queue_holds V (rb_new R DEFAULT_START_CAPACITY) []"
  "queue_holds V (rb_drop_producer R (rb_new R DEFAULT_START_CAPACITY)) []"
  using new_holds [of DEFAULT_START_CAPACITY] drop_producer_holds by (simp_all add: DEFAULT_START_CAPACITY_def)

lemma pop_all_empty: "queue_holds V r [] \<Longrightarrow> pop_all R r [] = Some ([], r)"
  by (subst pop_all.simps) (simp add: pop_empty)

lemma live_default: "\<not> rb_is_abandoned R (rb_new R c)" "rb_is_abandoned R (rb_drop_producer R (rb_new R c))"
  using new [of c] drop_producer [of "rb_new R c"] is_abandoned by auto

lemma fresh_start_world: "fresh_start R = Some (fresh_world R)"
  using default_holds live_default holds_is_empty [OF default_holds(1)] holds_is_empty [OF default_holds(2)]
  by (simp add: fresh_start_def reset_ctx_def get_ctx_def new_ctx_def with_mode_def drop_ctx_def empty_world_def
      poll_all_registered_queues_def poll_loop.simps pop_all_empty remove_at_def fresh_world_def Let_def)

lemma fresh_holds: "world_holds V (fresh_world R) (\<lambda>_. [])"
proof (rule world_holdsI)
  show "world_ok V (fresh_world R) [0, 0] [[], []]"
    using default_holds live_default is_abandoned new [of DEFAULT_START_CAPACITY]
    by (auto simp: world_ok_def fresh_world_def owns_def less_Suc_eq)
qed (simp add: thread_msgs_def fresh_world_def fun_eq_iff)

lemma init_fresh: "init R 0 (fresh_world R) = (fresh_world R)"
  by (simp add: init_def set_or_create_ctx_with_mode_def get_ctx_def fresh_world_def)

lemma ready_fresh: "ready V (fresh_world R) (\<lambda>_. [])"
  using fresh_holds by (auto simp: ready_def fresh_world_def)

lemma push_ready:
  assumes r: "ready V w T" and fit: "sum_list (map frame_size (T t @ [d])) \<le> DEFAULT_START_CAPACITY"
  shows "\<exists>w'. ctx_push_ok R t d w = Some w' \<and> ready V w' (T(t := T t @ [d]))"
proof -
  have H: "world_holds V w T" using r by (simp add: ready_def)
  obtain c w1 where g: "get_ctx R t w = (c, w1)" "world_holds V w1 T" "ctxs w1 t = Some c"
    "case ctxs w t of Some c0 \<Rightarrow> c = c0 \<and> w1 = w
     | None \<Rightarrow> mode c = BoundedDropping \<and> capacity c = DEFAULT_START_CAPACITY \<and> free_bytes V w1 c = DEFAULT_START_CAPACITY"
    using get_ctx_holds [OF H, of t] by (elim exE conjE)
  have c: "capacity c = DEFAULT_START_CAPACITY" "mode c = BoundedDropping"
    using g(4) r by (auto simp: ready_def split: option.splits)
  have free: "frame_size d \<le> free_bytes V w1 c" using free_bytes_ge [OF g(2,3)] fit c(1) by simp
  have len: "length d < 2 ^ 63" using fit frame_size_bounds(1) [of d] by (simp add: DEFAULT_START_CAPACITY_def)
  obtain res w' where p: "ctx_push R t d w = Some (res, w')" "res \<noteq> Inl Full"
    "case res of Inl e \<Rightarrow> world_holds V w' T | Inr x \<Rightarrow> \<exists>d'. d' = d \<and> world_holds V w' (T(t := T t @ [d']))"
    using push_with_holds [OF H push_delivers [OF len] g(1)] free by (auto simp: ctx_push_def)
  have ok: "res = Inr ()" using p(2) by (cases res) (auto intro: PushError.exhaust)
  have "ctxs w' = ctxs w1"
    using p(1) g(1) c(2) by (auto simp: ctx_push_def push_with_def dest: try_push_ctx_same)
  moreover have "ctxs w1 u = ctxs w u" if "u \<noteq> t" for u by (rule get_ctx_other [OF g(1) that])
  ultimately have "\<forall>u c. ctxs w' u = Some c \<longrightarrow> capacity c = DEFAULT_START_CAPACITY \<and> mode c = BoundedDropping"
    using r c g(3) by (metis option.inject ready_def)
  then show ?thesis using p ok by (simp add: ctx_push_ok_def ready_def)
qed

lemma by_thread_only:
  "length ts = length ms \<Longrightarrow> (\<And>t. t \<noteq> u \<Longrightarrow> by_thread ts ms t = []) \<Longrightarrow> by_thread ts ms u = ms"
proof (induction ts ms rule: list_induct2)
  case (Cons t ts m ms)
  then have "t = u" by (metis by_thread_Cons list.distinct(1))
  then show ?case using Cons by (simp add: by_thread_Cons)
qed (simp add: by_thread_def)

lemma poll_single:
  assumes "world_holds V w ((\<lambda>_. [])(0 := ms))"
  shows "\<exists>w'. poll_all_registered_queues R w = Some (ms, w') \<and> world_holds V w' (\<lambda>_. []) \<and> ctxs w' = ctxs w \<and>
    registry w' = filter (\<lambda>j. \<not> gone V (rings w ! j)) (registry w)"
proof -
  obtain ms' ts w' where p: "poll_all_registered_queues R w = Some (ms', w')" "length ts = length ms'"
      "by_thread ts ms' = (\<lambda>_. [])(0 := ms)" "world_holds V w' (\<lambda>_. [])" "ctxs w' = ctxs w"
      "registry w' = filter (\<lambda>j. \<not> gone V (rings w ! j)) (registry w)"
    using poll_holds [OF assms] by blast
  have "ms' = ms" using by_thread_only [OF p(2), of 0] p(3) by simp
  then show ?thesis using p by simp
qed

lemma no_messages: "(\<lambda>_. []) = (\<lambda>_. [])(0 := [])"
  by auto

lemma test_push_and_poll_single_thread_passes: "test_push_and_poll_single_thread R = Some ()"
proof -
  obtain w1 where w1: "ctx_push_ok R 0 (str ''hello'') (fresh_world R) = Some w1" "ready V w1 ((\<lambda>_. [])(0 := [str ''hello'']))"
    using push_ready [OF ready_fresh, where t = 0 and d = "str ''hello''"] by (auto simp: frame_lengths DEFAULT_START_CAPACITY_def)
  obtain w2 where w2: "ctx_push_ok R 0 (str ''world'') w1 = Some w2"
      "ready V w2 ((\<lambda>_. [])(0 := [str ''hello'', str ''world'']))"
    using push_ready [OF w1(2), where t = 0 and d = "str ''world''"] by (auto simp: frame_lengths DEFAULT_START_CAPACITY_def)
  obtain w3 where "poll_all_registered_queues R w2 = Some ([str ''hello'', str ''world''], w3)"
    using poll_single [of w2 "[str ''hello'', str ''world'']"] w2(2) by (auto simp: ready_def)
  then show ?thesis
    using w1(1) w2(1)
    by (simp add: test_push_and_poll_single_thread_def assert_def fresh_start_world init_fresh)
qed

lemma test_poll_empty_returns_empty_passes: "test_poll_empty_returns_empty R = Some ()"
  using poll_single [of "fresh_world R" "[]"] fresh_holds
  by (auto simp: test_poll_empty_returns_empty_def assert_def fresh_start_world init_fresh no_messages [symmetric])

lemma test_has_pending_messages_detects_data_passes: "test_has_pending_messages_detects_data R = Some ()"
proof -
  obtain w1 where w1: "ctx_push_ok R 0 (str ''data'') (fresh_world R) = Some w1" "ready V w1 ((\<lambda>_. [])(0 := [str ''data'']))"
    using push_ready [OF ready_fresh, where t = 0 and d = "str ''data''"] by (auto simp: frame_lengths DEFAULT_START_CAPACITY_def)
  then have H: "world_holds V w1 ((\<lambda>_. [])(0 := [str ''data'']))" by (simp add: ready_def)
  obtain w2 where w2: "poll_all_registered_queues R w1 = Some ([str ''data''], w2)" "world_holds V w2 (\<lambda>_. [])"
    using poll_single [OF H] by blast
  show ?thesis
    using w1(1) w2(1) has_pending_holds [OF fresh_holds] has_pending_holds [OF H] has_pending_holds [OF w2(2)]
    by (auto simp: test_has_pending_messages_detects_data_def assert_def fresh_start_world init_fresh)
qed

subsection \<open>Several threads\<close>

lemma run_threads_ready:
  "ready V w T \<Longrightarrow> (\<And>t. sum_list (map frame_size (T t @ pushes t es)) \<le> DEFAULT_START_CAPACITY) \<Longrightarrow>
   \<exists>w'. run_threads R es w = Some w' \<and> ready V w' (\<lambda>t. T t @ pushes t es)"
proof (induction es arbitrary: w T)
  case Nil
  then show ?case by (simp add: pushes_def)
next
  case (Cons e es)
  show ?case
  proof (cases e)
    case (PushStep t d)
    then have p: "pushes t (e # es) = d # pushes t es" "\<And>u. u \<noteq> t \<Longrightarrow> pushes u (e # es) = pushes u es"
      by (simp_all add: pushes_def)
    have "sum_list (map frame_size (T t @ [d])) \<le> DEFAULT_START_CAPACITY"
      using Cons.prems(2) [of t] p(1) by simp
    from push_ready [OF Cons.prems(1) this] obtain w1 where
      w1: "ctx_push_ok R t d w = Some w1" "ready V w1 (T(t := T t @ [d]))" by blast
    have same: "(T(t := T t @ [d])) u @ pushes u es = T u @ pushes u (e # es)" for u
      using p by (cases "u = t") auto
    obtain w' where "run_threads R es w1 = Some w'" "ready V w' (\<lambda>u. T u @ pushes u (e # es))"
      using Cons.IH [OF w1(2), unfolded same, OF Cons.prems(2)] by blast
    then show ?thesis using w1(1) PushStep by auto
  next
    case (ExitStep t)
    then have p: "pushes u (e # es) = pushes u es" for u by (simp add: pushes_def)
    have "ctxs (thread_exit R t w) u = (if u = t then None else ctxs w u)" for u
      by (auto simp: thread_exit_def drop_ctx_def split: option.splits)
    then have r: "ready V (thread_exit R t w) T"
      using Cons.prems(1) thread_exit_holds(1) by (auto simp: ready_def split: if_splits)
    obtain w' where "run_threads R es (thread_exit R t w) = Some w'" "ready V w' (\<lambda>u. T u @ pushes u (e # es))"
      using Cons.IH [OF r, folded p, OF Cons.prems(2)] by blast
    then show ?thesis using ExitStep by simp
  qed
qed

lemma test_push_from_multiple_threads_passes:
  assumes "sched \<in> shuffles [PushStep 1 (str ''t1a''), PushStep 1 (str ''t1b''), ExitStep 1]
    [PushStep 2 (str ''t2a''), PushStep 2 (str ''t2b''), ExitStep 2]"
  shows "test_push_from_multiple_threads R sched = Some ()"
proof -
  let ?P = "\<lambda>t. pushes t sched"
  have P: "?P 1 = [str ''t1a'', str ''t1b'']" "?P 2 = [str ''t2a'', str ''t2b'']"
    using imageI [OF assms, of "filter (pushes_of 1)"] imageI [OF assms, of "filter (pushes_of 2)"]
    unfolding filter_shuffles by (simp_all add: pushes_def)
  have P': "?P t = []" if "t \<noteq> 1" "t \<noteq> 2" for t
    using imageI [OF assms, of "filter (pushes_of t)"] that unfolding filter_shuffles by (simp add: pushes_def)
  have "sum_list (map frame_size ([] @ ?P t)) \<le> DEFAULT_START_CAPACITY" for t
    using P P' [of t] by (cases "t = 1"; cases "t = 2") (auto simp: frame_lengths DEFAULT_START_CAPACITY_def)
  from run_threads_ready [OF ready_fresh this] obtain w where
    w: "run_threads R sched (fresh_world R) = Some w" "ready V w ?P" by auto
  then obtain ms ts w' where p: "poll_all_registered_queues R w = Some (ms, w')" "length ts = length ms"
      "by_thread ts ms = ?P"
    using poll_holds [of w ?P] by (auto simp: ready_def)
  have "set ts \<subseteq> {1, 2}"
    using by_thread_nonempty [OF p(2)] P' p(3) by fastforce
  then have "mset ms = (\<Sum>t \<in> {1, 2}. mset (by_thread ts ms t))" by (intro mset_by_thread p(2)) auto
  then have "mset ms = mset [str ''t1a'', str ''t1b'', str ''t2a'', str ''t2b'']" using p(3) P by simp
  then have "sort ms = [str ''t1a'', str ''t1b'', str ''t2a'', str ''t2b'']"
    by (intro properties_for_sort) simp_all
  then show ?thesis
    using w(1) p(1) by (simp add: test_push_from_multiple_threads_def assert_def fresh_start_world init_fresh)
qed

subsection \<open>The unbounded mode\<close>

lemma test_abandoned_queue_cleanup_passes: "test_abandoned_queue_cleanup R = Some ()"
proof -
  have h: "queue_holds V (rb_drop_producer R (rb_new R 1024)) []"
    using new_holds [of 1024] drop_producer_holds by simp
  show ?thesis
    using default_holds live_default h holds_is_empty [OF default_holds(1)] holds_is_empty [OF h]
    by (simp add: test_abandoned_queue_cleanup_def assert_def fresh_start_world init_fresh)
      (simp add: poll_all_registered_queues_def poll_loop.simps pop_all_empty remove_at_def fresh_world_def Let_def)
qed

lemma start_64:
  "world_holds V (init_with_mode R 0 m 64 (fresh_world R)) (\<lambda>_. [])"
  "ctxs (init_with_mode R 0 m 64 (fresh_world R)) 0 = Some \<lparr>producer = 2, capacity = 64, mode = m\<rparr>"
  "registry (init_with_mode R 0 m 64 (fresh_world R)) = [1, 2]"
  "rings (init_with_mode R 0 m 64 (fresh_world R)) ! 1 = rb_drop_producer R (rb_new R DEFAULT_START_CAPACITY)"
  "rings (init_with_mode R 0 m 64 (fresh_world R)) ! 2 = rb_new R 64"
proof -
  show "world_holds V (init_with_mode R 0 m 64 (fresh_world R)) (\<lambda>_. [])"
    using set_or_create_holds(1) [OF fresh_holds, of 64 0 m] by (simp add: init_with_mode_def)
qed (simp_all add: init_with_mode_def set_or_create_ctx_with_mode_def get_ctx_def with_mode_def drop_ctx_def
      fresh_world_def DEFAULT_START_CAPACITY_def Let_def)

lemma test_bounded_drops_on_full_passes: "test_bounded_drops_on_full R = Some ()"
proof -
  let ?w = "init_with_mode R 0 BoundedDropping 64 (fresh_world R)" and ?d = "replicate 100 0 :: bytes"
  have g: "get_ctx R 0 ?w = (\<lparr>producer = 2, capacity = 64, mode = BoundedDropping\<rparr>, ?w)"
    by (simp add: get_ctx_def start_64)
  have "free_bytes V ?w \<lparr>producer = 2, capacity = 64, mode = BoundedDropping\<rparr> \<le> 64"
    by (simp add: free_bytes_def)
  then obtain w' where "ctx_push R 0 ?d ?w = Some (Inl Full, w')"
    using push_with_holds [OF start_64(1) push_delivers g, of ?d] by (auto simp: ctx_push_def frame_lengths)
  then show ?thesis by (simp add: test_bounded_drops_on_full_def assert_def fresh_start_world)
qed

lemma push_unbounded:
  assumes u: "unbounded V n w ms" and fit: "2 * sum_list (map frame_size (ms @ [d])) < MAX_BLOCK_CAPACITY"
  shows "\<exists>w' c. ctx_push_ok R 0 d w = Some w' \<and> unbounded V n w' (ms @ [d]) \<and>
    ctxs w' 0 = Some c \<and> frame_size d \<le> capacity c"
proof -
  let ?T = "(\<lambda>_. [])(0 := ms) :: nat \<Rightarrow> bytes list"
  obtain c where H: "world_holds V w ?T" and c: "ctxs w 0 = Some c" "mode c = UnboundedBlocking"
      "0 < capacity c" "capacity c \<le> max 64 (2 * sum_list (map frame_size ms))"
      "n + (if capacity c = 64 then 0 else 1) \<le> length (registry w)"
    using u by (auto simp: unbounded_def)
  have g: "get_ctx R 0 w = (c, w)" using c(1) by (simp add: get_ctx_def)
  have len: "length d < 2 ^ 63" using fit frame_size_bounds(1) [of d] by (simp add: MAX_BLOCK_CAPACITY_def)
  note del = push_delivers [OF len]
  have small: "capacity c < MAX_BLOCK_CAPACITY" "frame_size d \<le> MAX_BLOCK_CAPACITY"
    using c(4) fit by (auto simp: MAX_BLOCK_CAPACITY_def)
  obtain res w' where p: "ctx_push R 0 d w = Some (res, w')"
      "res \<noteq> Inl Full \<longleftrightarrow> frame_size d \<le> free_bytes V w c \<or> (mode c = UnboundedBlocking \<and> 0 < capacity c \<and>
         capacity c < MAX_BLOCK_CAPACITY \<and> frame_size d \<le> MAX_BLOCK_CAPACITY)"
      "case res of Inl e \<Rightarrow> world_holds V w' ?T | Inr x \<Rightarrow> \<exists>d'. d' = d \<and> world_holds V w' (?T(0 := ?T 0 @ [d']))"
    using push_with_holds [OF H del g, folded ctx_push_def] by (elim exE conjE) (rule that)
  have full: "res \<noteq> Inl Full" using p(2) c(2,3) small by simp
  then have ok: "res = Inr ()" by (cases res) (auto intro: PushError.exhaust)
  obtain c' where c': "ctxs w' 0 = Some c'" "grown (frame_size d + (capacity c - free_bytes V w c)) c w c' w'"
      "frame_size d \<le> capacity c'"
    using push_with_growth [OF H del g, folded ctx_push_def, OF p(1)] full by blast
  have "capacity c - free_bytes V w c \<le> sum_list (map frame_size ms)"
    using free_bytes_ge [OF H c(1)] by simp
  then have "capacity c' \<le> max 64 (2 * sum_list (map frame_size (ms @ [d])))" "0 < capacity c'"
      "mode c' = UnboundedBlocking" "n + (if capacity c' = 64 then 0 else 1) \<le> length (registry w')"
    using c' c by (auto simp: grown_def max_def neq_Nil_conv split: if_splits)
  then have "unbounded V n w' (ms @ [d])" using p(3) ok c'(1) by (simp add: unbounded_def)
  then show ?thesis using p(1) ok c'(1,3) by (simp add: ctx_push_ok_def)
qed

lemma push_each_unbounded:
  "unbounded V n w ms \<Longrightarrow> 2 * sum_list (map frame_size (ms @ ds)) < MAX_BLOCK_CAPACITY \<Longrightarrow>
   \<exists>w'. ctx_push_each R 0 ds w = Some w' \<and> unbounded V n w' (ms @ ds) \<and>
     (ds \<noteq> [] \<longrightarrow> 64 < frame_size (last ds) \<longrightarrow> n < length (registry w'))"
proof (induction ds arbitrary: w ms)
  case (Cons d ds)
  have "2 * sum_list (map frame_size (ms @ [d])) < MAX_BLOCK_CAPACITY" using Cons.prems(2) by simp
  from push_unbounded [OF Cons.prems(1) this] obtain w1 c where
    w1: "ctx_push_ok R 0 d w = Some w1" "unbounded V n w1 (ms @ [d])" "ctxs w1 0 = Some c" "frame_size d \<le> capacity c"
    by blast
  obtain w' where w': "ctx_push_each R 0 ds w1 = Some w'" "unbounded V n w' ((ms @ [d]) @ ds)"
      "ds \<noteq> [] \<longrightarrow> 64 < frame_size (last ds) \<longrightarrow> n < length (registry w')"
    using Cons.IH [OF w1(2)] Cons.prems(2) by auto
  have "64 < frame_size d \<longrightarrow> n < length (registry w1)" using w1(2-4) by (auto simp: unbounded_def)
  then show ?case using w1(1) w' by (cases ds) auto
qed simp

lemma unbounded_start: "unbounded V 2 (init_with_mode R 0 UnboundedBlocking 64 (fresh_world R)) []"
  using start_64 [of UnboundedBlocking] by (simp add: unbounded_def no_messages [symmetric])

lemma unbounded_world: "unbounded V n w ms \<Longrightarrow> world_holds V w ((\<lambda>_. [])(0 := ms))"
  by (simp add: unbounded_def)

lemma test_unbounded_push_past_capacity_passes: "test_unbounded_push_past_capacity R = Some ()"
proof -
  let ?ds = "replicate 20 (replicate 100 (42 :: byte))"
  have "2 * sum_list (map frame_size ([] @ ?ds)) < MAX_BLOCK_CAPACITY"
    by (simp add: sum_list_replicate frame_lengths MAX_BLOCK_CAPACITY_def)
  from push_each_unbounded [OF unbounded_start this] obtain w where
    w: "ctx_push_each R 0 ?ds (init_with_mode R 0 UnboundedBlocking 64 (fresh_world R)) = Some w" "unbounded V 2 w ?ds"
    by auto
  obtain w' where "poll_all_registered_queues R w = Some (?ds, w')"
    using poll_single [OF unbounded_world [OF w(2)]] by blast
  then show ?thesis
    using w(1) by (simp add: test_unbounded_push_past_capacity_def assert_def fresh_start_world list_all_iff)
qed

lemma test_unbounded_multi_block_pop_fifo_passes: "test_unbounded_multi_block_pop_fifo R = Some ()"
proof -
  let ?ds = "map (\<lambda>i. replicate 100 (word_of_nat i :: byte)) [0..<5]"
  have "2 * sum_list (map frame_size ([] @ ?ds)) < MAX_BLOCK_CAPACITY"
    by (simp add: upt_conv_Cons frame_lengths MAX_BLOCK_CAPACITY_def)
  from push_each_unbounded [OF unbounded_start this] obtain w where
    w: "ctx_push_each R 0 ?ds (init_with_mode R 0 UnboundedBlocking 64 (fresh_world R)) = Some w" "unbounded V 2 w ?ds"
    by auto
  obtain w' where "poll_all_registered_queues R w = Some (?ds, w')"
    using poll_single [OF unbounded_world [OF w(2)]] by blast
  then show ?thesis
    using w(1) by (simp add: test_unbounded_multi_block_pop_fifo_def assert_def fresh_start_world list_all_iff)
qed

lemma test_mode_persistence_passes: "test_mode_persistence R = Some ()"
proof -
  let ?ds = "map (\<lambda>i. replicate 80 (word_of_nat i :: byte)) [0..<10]"
  have "2 * sum_list (map frame_size ([] @ ?ds)) < MAX_BLOCK_CAPACITY"
    by (simp add: upt_conv_Cons frame_lengths MAX_BLOCK_CAPACITY_def)
  from push_each_unbounded [OF unbounded_start this] show ?thesis
    by (auto simp: test_mode_persistence_def fresh_start_world)
qed

lemma ten_zeros:
  "2 * sum_list (map frame_size ([] @ replicate 10 (replicate 80 (0 :: byte)))) < MAX_BLOCK_CAPACITY"
  "64 < frame_size (last (replicate 10 (replicate 80 (0 :: byte))))" "replicate 10 (replicate 80 (0 :: byte)) \<noteq> []"
  by (simp_all add: sum_list_replicate frame_lengths MAX_BLOCK_CAPACITY_def)

lemma test_grow_pushes_consumer_to_registry_passes: "test_grow_pushes_consumer_to_registry R = Some ()"
proof -
  let ?w = "init_with_mode R 0 UnboundedBlocking 64 (fresh_world R)"
  obtain w where w: "poll_all_registered_queues R ?w = Some ([], w)" "world_holds V w (\<lambda>_. [])" "ctxs w = ctxs ?w"
      "registry w = filter (\<lambda>j. \<not> gone V (rings ?w ! j)) (registry ?w)"
    using poll_single [of ?w "[]"] start_64(1) by (auto simp: no_messages [symmetric])
  then have reg: "registry w = [2]"
    using start_64 [of UnboundedBlocking] drop_producer [OF new(1) [of DEFAULT_START_CAPACITY]] new(5) [of 64] by simp
  have "unbounded V 1 w []"
    using w(2,3) reg start_64(2) [of UnboundedBlocking] by (simp add: unbounded_def no_messages [symmetric])
  from push_each_unbounded [OF this ten_zeros(1)] ten_zeros(2,3) obtain w' where
    "ctx_push_each R 0 (replicate 10 (replicate 80 0)) w = Some w'" "1 < length (registry w')" by auto
  then show ?thesis
    using w(1) reg by (simp add: test_grow_pushes_consumer_to_registry_def assert_def fresh_start_world)
qed

lemma test_abandoned_cleanup_with_blocks_passes: "test_abandoned_cleanup_with_blocks R = Some ()"
proof -
  let ?w = "init_with_mode R 0 UnboundedBlocking 64 (fresh_world R)" and ?ds = "replicate 10 (replicate 80 (0 :: byte))"
  from push_each_unbounded [OF unbounded_start ten_zeros(1)] ten_zeros(2,3) obtain w where
    w: "ctx_push_each R 0 ?ds ?w = Some w" "2 < length (registry w)" "unbounded V 2 w ?ds" by auto
  obtain c where c: "ctxs w 0 = Some c" using w(3) by (auto simp: unbounded_def)
  obtain w' where w': "poll_all_registered_queues R w = Some (?ds, w')" "world_holds V w' (\<lambda>_. [])" "ctxs w' = ctxs w"
    using poll_single [OF unbounded_world [OF w(3)]] by blast
  have "registry w' \<noteq> []"
    using w'(2,3) c by (auto simp: world_holds_def world_ok_def owns_def)
  then show ?thesis
    using w(1,2) w'(1) by (simp add: test_abandoned_cleanup_with_blocks_def assert_def fresh_start_world)
qed

end

end
