(* ===== verification/Unit_Tests_Logging.thy ===== *)
theory Unit_Tests_Logging
  imports Logger Formatter Unit_Test
begin

text \<open>
  The unit tests of \<open>src/level.rs\<close>, \<open>filter.rs\<close>, \<open>metadata.rs\<close>, \<open>message.rs\<close>, \<open>logger.rs\<close>, \<open>frontend.rs\<close> and
  \<open>formatter.rs\<close>, transcribed onto the model, and that each of them passes. What a test takes from its
  surroundings is an argument: the addresses of static data, of a sink and of a new logger, and the calendar.
\<close>

section \<open>Tests of level.rs\<close>

definition test_round_trip_all_levels :: "unit option" where
  "test_round_trip_all_levels =
     do {
       let levels = [TraceL3, TraceL2, TraceL1, Debug, Info, Warning, Error, Critical];
       assert (list_all (\<lambda>orig. from_usize (as_usize orig) = Some orig) levels)
     }"

lemma test_round_trip_all_levels_passes: "test_round_trip_all_levels = Some ()"
  by (simp add: test_round_trip_all_levels_def assert_def)

definition test_from_usize_out_of_range :: "unit option" where
  "test_from_usize_out_of_range =
     do {
       assert (from_usize 8 = None);
       assert (from_usize (2 ^ 64 - 1) = None)
     }"

lemma test_from_usize_out_of_range_passes: "test_from_usize_out_of_range = Some ()"
  by (simp add: test_from_usize_out_of_range_def assert_def from_usize_def)

definition test_as_usize_values :: "unit option" where
  "test_as_usize_values =
     do {
       assert (as_usize TraceL3 = 0);
       assert (as_usize TraceL2 = 1);
       assert (as_usize TraceL1 = 2);
       assert (as_usize Debug = 3);
       assert (as_usize Info = 4);
       assert (as_usize Warning = 5);
       assert (as_usize Error = 6);
       assert (as_usize Critical = 7)
     }"

lemma test_as_usize_values_passes: "test_as_usize_values = Some ()"
  by (simp add: test_as_usize_values_def assert_def)

definition test_ordering :: "unit option" where
  "test_ordering =
     do {
       assert (TraceL3 < Info);
       assert (Debug < Warning);
       assert (Critical = Critical)
     }"

lemma test_ordering_passes: "test_ordering = Some ()"
  by (simp add: test_ordering_def assert_def level_order)

section \<open>Tests of filter.rs\<close>

text \<open>The metadata of the tests; \<open>empty_schemas\<close> returns an empty slice at some address.\<close>

definition empty_schemas :: "nat \<Rightarrow> nat \<times> bytes" where
  "empty_schemas addr = (addr, [])"

definition filter_meta :: "nat \<Rightarrow> LogLevel \<Rightarrow> Metadata" where
  "filter_meta addr lv =
     metadata_new lv (str ''test'') (str ''f.rs'') 1 (str ''mod'') (empty_schemas addr)
       empty_string_tables_provider empty_user_formatters_provider"

definition test_level_filter_accepts_same :: "nat \<Rightarrow> unit option" where
  "test_level_filter_accepts_same addr =
     do {
       let flt = LevelFilter Warning;
       let meta = filter_meta addr Warning;
       assert (flt meta [])
     }"

lemma test_level_filter_accepts_same_passes: "test_level_filter_accepts_same addr = Some ()"
  by (simp add: test_level_filter_accepts_same_def assert_def LevelFilter_def filter_meta_def metadata_new_def level_order)

definition test_level_filter_rejects_lower :: "nat \<Rightarrow> unit option" where
  "test_level_filter_rejects_lower addr =
     do {
       let flt = LevelFilter Error;
       let meta = filter_meta addr Warning;
       assert (\<not> flt meta [])
     }"

lemma test_level_filter_rejects_lower_passes: "test_level_filter_rejects_lower addr = Some ()"
  by (simp add: test_level_filter_rejects_lower_def assert_def LevelFilter_def filter_meta_def metadata_new_def level_order)

definition test_level_filter_accepts_higher :: "nat \<Rightarrow> unit option" where
  "test_level_filter_accepts_higher addr =
     do {
       let flt = LevelFilter Info;
       let meta = filter_meta addr Critical;
       assert (flt meta [])
     }"

lemma test_level_filter_accepts_higher_passes: "test_level_filter_accepts_higher addr = Some ()"
  by (simp add: test_level_filter_accepts_higher_def assert_def LevelFilter_def filter_meta_def metadata_new_def level_order)

section \<open>Tests of metadata.rs\<close>

definition test_new_metadata :: "bytes \<Rightarrow> nat \<Rightarrow> bytes \<Rightarrow> nat \<Rightarrow> unit option" where
  "test_new_metadata file ln modpath addr =
     do {
       let meta = metadata_new Info (str ''test fmt {}'') file ln modpath (empty_schemas addr)
         empty_string_tables_provider empty_user_formatters_provider;
       assert (level meta = Info);
       assert (format_str meta = str ''test fmt {}'');
       assert (contains (source_file meta) (str ''metadata.rs''));
       assert (0 < line meta);
       assert (contains (module_path meta) (str ''metadata''))
     }"

lemma test_new_metadata_passes: "contains file (str ''metadata.rs'') \<Longrightarrow> 0 < ln \<Longrightarrow> contains modpath (str ''metadata'') \<Longrightarrow> test_new_metadata file ln modpath addr = Some ()"
  by (simp add: test_new_metadata_def assert_def metadata_new_def del: str_Cons contains.simps)

definition test_metadata_per_level :: "nat \<Rightarrow> unit option" where
  "test_metadata_per_level addr =
     assert (list_all (\<lambda>lv.
        level (metadata_new lv [] [] 0 [] (empty_schemas addr) empty_string_tables_provider empty_user_formatters_provider) = lv)
       [TraceL3, TraceL2, TraceL1, Debug, Info, Warning, Error, Critical])"

lemma test_metadata_per_level_passes: "test_metadata_per_level addr = Some ()"
  by (simp add: test_metadata_per_level_def assert_def metadata_new_def)

section \<open>Tests of message.rs\<close>

text \<open>\<open>test_metadata()\<close> leaks a box: a record at the address \<open>addr\<close>, which \<open>metadata()\<close> finds again.\<close>

definition test_metadata :: "nat \<Rightarrow> Metadata" where
  "test_metadata schemas =
     metadata_new Info (str ''test {}'') (str ''test.rs'') 42 (str ''test'') (empty_schemas schemas)
       empty_string_tables_provider empty_user_formatters_provider"

definition test_serialize_and_decode :: "nat \<Rightarrow> unit option" where
  "test_serialize_and_decode addr =
     do {
       let header = header_new 123456789 addr 0;
       buf \<leftarrow> serialize_into header (replicate HEADER_SIZE 0);
       decoded \<leftarrow> decode buf;
       assert (timestamp_ns decoded = 123456789);
       assert (metadata_ptr decoded = metadata_ptr header)
     }"

lemma test_serialize_and_decode_passes: "addr < 2 ^ 64 \<Longrightarrow> test_serialize_and_decode addr = Some ()"
  by (simp add: test_serialize_and_decode_def assert_def header_new_def HEADER_SIZE_def serialize_into_bytes decode_bytes [where rest = "[]", simplified] header_ok_def)

definition test_metadata_roundtrip :: "nat \<Rightarrow> nat \<Rightarrow> unit option" where
  "test_metadata_roundtrip addr schemas =
     do {
       let memory = [addr \<mapsto> test_metadata schemas];
       let header = header_new 100 addr 0;
       buf \<leftarrow> serialize_into header (replicate HEADER_SIZE 0);
       decoded \<leftarrow> decode buf;
       meta \<leftarrow> memory (metadata_ptr decoded);
       assert (level meta = Info);
       assert (format_str meta = str ''test {}'')
     }"

lemma test_metadata_roundtrip_passes: "addr < 2 ^ 64 \<Longrightarrow> test_metadata_roundtrip addr schemas = Some ()"
  by (simp add: test_metadata_roundtrip_def assert_def header_new_def HEADER_SIZE_def serialize_into_bytes decode_bytes [where rest = "[]", simplified] header_ok_def
      test_metadata_def metadata_new_def)

definition test_decode_invalid_bytes_returns_none :: "unit option" where
  "test_decode_invalid_bytes_returns_none =
     assert (decode (replicate 10 0) = None)"

lemma test_decode_invalid_bytes_returns_none_passes: "test_decode_invalid_bytes_returns_none = Some ()"
  by (simp add: test_decode_invalid_bytes_returns_none_def assert_def decode_def HEADER_SIZE_def)

definition test_header_size_is_32 :: "unit option" where
  "test_header_size_is_32 =
     assert (HEADER_SIZE = 32)"

lemma test_header_size_is_32_passes: "test_header_size_is_32 = Some ()"
  by (simp add: test_header_size_is_32_def assert_def HEADER_SIZE_def)

definition test_reserved_field_is_zero :: "nat \<Rightarrow> unit option" where
  "test_reserved_field_is_zero addr =
     assert (reserved (header_new 0 addr 0) = 0)"

lemma test_reserved_field_is_zero_passes: "test_reserved_field_is_zero addr = Some ()"
  by (simp add: test_reserved_field_is_zero_def assert_def header_new_def)

section \<open>Tests of logger.rs\<close>

text \<open>\<open>dummy_sink()\<close> is a console sink at the address \<open>sink\<close>; \<open>a\<close> and \<open>b\<close> are what the allocator returns.\<close>

lemmas eval_logger = logger_new_def empty_heap_def logger_get_def log_level_def set_log_level_def
  add_filter_def clear_filters_def update_logger_def from_usize_def

definition test_create_logger :: "nat \<Rightarrow> nat \<Rightarrow> unit option" where
  "test_create_logger a sink =
     do {
       let (logger, h) = logger_new a (str ''test'') [sink] empty_heap;
       l \<leftarrow> loggers h logger;
       assert (logger_name l = str ''test'');
       assert (log_level l = Info)
     }"

lemma test_create_logger_passes: "test_create_logger a sink = Some ()"
  by (simp add: test_create_logger_def assert_def eval_logger)

definition test_set_and_get_log_level :: "nat \<Rightarrow> nat \<Rightarrow> unit option" where
  "test_set_and_get_log_level a sink =
     do {
       let (logger, h) = logger_new a (str ''test_level'') [sink] empty_heap;
       let h = update_logger logger (set_log_level Debug) h;
       l \<leftarrow> loggers h logger;
       assert (log_level l = Debug);
       let h = update_logger logger (set_log_level Critical) h;
       l \<leftarrow> loggers h logger;
       assert (log_level l = Critical)
     }"

lemma test_set_and_get_log_level_passes: "test_set_and_get_log_level a sink = Some ()"
  by (simp add: test_set_and_get_log_level_def assert_def eval_logger)

definition test_create_or_get_returns_existing :: "nat \<Rightarrow> nat \<Rightarrow> nat \<Rightarrow> unit option" where
  "test_create_or_get_returns_existing a b sink =
     do {
       let (a1, h) = logger_new a (str ''shared'') [sink] empty_heap;
       let (b1, h) = logger_new b (str ''shared'') [] h;
       assert (a1 = b1)
     }"

lemma test_create_or_get_returns_existing_passes: "test_create_or_get_returns_existing a b sink = Some ()"
  by (simp add: test_create_or_get_returns_existing_def assert_def eval_logger)

definition test_get_nonexistent_returns_none :: "unit option" where
  "test_get_nonexistent_returns_none =
     assert (logger_get (str ''nonexistent'') empty_heap = None)"

lemma test_get_nonexistent_returns_none_passes: "test_get_nonexistent_returns_none = Some ()"
  by (simp add: test_get_nonexistent_returns_none_def assert_def eval_logger)

definition test_get_existing_returns_logger :: "nat \<Rightarrow> nat \<Rightarrow> unit option" where
  "test_get_existing_returns_logger a sink =
     do {
       let (logger, h) = logger_new a (str ''get_test'') [sink] empty_heap;
       let found = logger_get (str ''get_test'') h;
       assert (found \<noteq> None);
       f \<leftarrow> found;
       assert (logger = f)
     }"

lemma test_get_existing_returns_logger_passes: "test_get_existing_returns_logger a sink = Some ()"
  by (simp add: test_get_existing_returns_logger_def assert_def eval_logger)

definition test_add_and_clear_filters :: "nat \<Rightarrow> nat \<Rightarrow> unit option" where
  "test_add_and_clear_filters a sink =
     do {
       let (logger, h) = logger_new a (str ''filter_test'') [sink] empty_heap;
       l \<leftarrow> loggers h logger;
       assert (length (filters l) = 0);
       let h = update_logger logger (add_filter (LevelFilter Warning)) h;
       l \<leftarrow> loggers h logger;
       assert (length (filters l) = 1);
       let h = update_logger logger (add_filter (LevelFilter Error)) h;
       l \<leftarrow> loggers h logger;
       assert (length (filters l) = 2);
       let h = update_logger logger clear_filters h;
       l \<leftarrow> loggers h logger;
       assert (length (filters l) = 0)
     }"

lemma test_add_and_clear_filters_passes: "test_add_and_clear_filters a sink = Some ()"
  by (simp add: test_add_and_clear_filters_def assert_def eval_logger)

section \<open>Tests of frontend.rs\<close>

definition test_create_or_get_creates_logger :: "nat \<Rightarrow> nat \<Rightarrow> unit option" where
  "test_create_or_get_creates_logger a sink =
     do {
       let (logger, h) = create_or_get_logger a (str ''frontend_test'') [sink] empty_heap;
       l \<leftarrow> loggers h logger;
       assert (logger_name l = str ''frontend_test'')
     }"

lemma test_create_or_get_creates_logger_passes: "test_create_or_get_creates_logger a sink = Some ()"
  by (simp add: test_create_or_get_creates_logger_def assert_def eval_logger create_or_get_logger_def)

definition test_create_or_get_returns_same :: "nat \<Rightarrow> nat \<Rightarrow> unit option" where
  "test_create_or_get_returns_same a b =
     do {
       let (a1, h) = create_or_get_logger a (str ''shared'') [] empty_heap;
       let (b1, h) = create_or_get_logger b (str ''shared'') [] h;
       assert (a1 = b1)
     }"

lemma test_create_or_get_returns_same_passes: "test_create_or_get_returns_same a b = Some ()"
  by (simp add: test_create_or_get_returns_same_def assert_def eval_logger create_or_get_logger_def)

section \<open>Tests of formatter.rs\<close>

text \<open>The characters of a pattern.\<close>

definition chars :: "string \<Rightarrow> nat list" where
  "chars s = map of_char s"

definition make_record :: "bytes \<Rightarrow> FormattedRecord" where
  "make_record body =
     \<lparr>timestamp_secs = 1700000001, timestamp_nanos = 123456789, record_level = Warning,
      record_file = str ''src/main.rs'', record_line = 42, record_body = body\<rparr>"

lemmas eval_pattern = chars_def pattern_new_def percent_def specifier_def flush_literal_def
  pattern_format_def segment_text_def make_record_def utf8_char_def show_nat.simps show_pad_def
  show_int_pad_def digit_def Let_def

definition test_default_pattern_matches_current_format :: "calendar \<Rightarrow> unit option" where
  "test_default_pattern_matches_current_format cal =
     do {
       let fmt = pattern_new (chars ''[%s.%f] [%l] %F:%L %v'');
       let record = make_record (str ''test body'');
       let out = pattern_format cal fmt record;
       assert (contains out (str ''[1700000001.123456789]''));
       assert (contains out (str ''[Warning]''));
       assert (contains out (str ''src/main.rs:42''));
       assert (contains out (str ''test body''))
     }"

lemma test_default_pattern_matches_current_format_passes: "test_default_pattern_matches_current_format cal = Some ()"
  by (simp add: test_default_pattern_matches_current_format_def assert_def eval_pattern starts_with_def)

definition test_custom_date_pattern :: "calendar \<Rightarrow> unit option" where
  "test_custom_date_pattern cal =
     do {
       let fmt = pattern_new (chars ''%Y-%m-%d %H:%M:%S'');
       let record = make_record (str ''ignored'');
       let out = pattern_format cal fmt record;
       assert (starts_with out (str ''202''));
       assert (length out = 19)
     }"

lemma test_custom_date_pattern_passes: "cal 1700000001 = Some \<lparr>year = 2023, month = 11, day = 14, hour = 22, minute = 13, second = 21\<rparr> \<Longrightarrow> test_custom_date_pattern cal = Some ()"
  by (simp add: test_custom_date_pattern_def assert_def eval_pattern starts_with_def as_i64_def)

definition test_level_specifier :: "calendar \<Rightarrow> unit option" where
  "test_level_specifier cal =
     do {
       let fmt = pattern_new (chars ''%l'');
       let out = pattern_format cal fmt (make_record (str ''''));
       assert (out = str ''Warning'')
     }"

lemma test_level_specifier_passes: "test_level_specifier cal = Some ()"
  by (simp add: test_level_specifier_def assert_def eval_pattern)

definition test_file_and_line_specifiers :: "calendar \<Rightarrow> unit option" where
  "test_file_and_line_specifiers cal =
     do {
       let fmt = pattern_new (chars ''%F:%L'');
       let out = pattern_format cal fmt (make_record (str ''''));
       assert (out = str ''src/main.rs:42'')
     }"

lemma test_file_and_line_specifiers_passes: "test_file_and_line_specifiers cal = Some ()"
  by (simp add: test_file_and_line_specifiers_def assert_def eval_pattern)

definition test_body_specifier :: "calendar \<Rightarrow> unit option" where
  "test_body_specifier cal =
     do {
       let fmt = pattern_new (chars ''%v'');
       let out = pattern_format cal fmt (make_record (str ''hello world''));
       assert (out = str ''hello world'')
     }"

lemma test_body_specifier_passes: "test_body_specifier cal = Some ()"
  by (simp add: test_body_specifier_def assert_def eval_pattern)

definition test_literal_text :: "calendar \<Rightarrow> unit option" where
  "test_literal_text cal =
     do {
       let fmt = pattern_new (chars ''prefix %v suffix'');
       let out = pattern_format cal fmt (make_record (str ''mid''));
       assert (out = str ''prefix mid suffix'')
     }"

lemma test_literal_text_passes: "test_literal_text cal = Some ()"
  by (simp add: test_literal_text_def assert_def eval_pattern)

definition test_unknown_specifier :: "calendar \<Rightarrow> unit option" where
  "test_unknown_specifier cal =
     do {
       let fmt = pattern_new (chars ''%x is unknown'');
       let out = pattern_format cal fmt (make_record (str ''''));
       assert (out = str ''%x is unknown'')
     }"

lemma test_unknown_specifier_passes: "test_unknown_specifier cal = Some ()"
  by (simp add: test_unknown_specifier_def assert_def eval_pattern)

definition test_empty_args_format :: "calendar \<Rightarrow> unit option" where
  "test_empty_args_format cal =
     do {
       let fmt = pattern_new (chars ''[%l] %v'');
       let record = make_record (str ''no args here'');
       let out = pattern_format cal fmt record;
       assert (out = str ''[Warning] no args here'')
     }"

lemma test_empty_args_format_passes: "test_empty_args_format cal = Some ()"
  by (simp add: test_empty_args_format_def assert_def eval_pattern)

end
