(* ===== verification/Unit_Tests_Sinks.thy ===== *)
theory Unit_Tests_Sinks
  imports Rotating Unit_Test
begin

text \<open>
  The unit tests of \<open>src/sinks/\<close>, transcribed onto the model, and that each of them passes: for every path of
  the temporary directory and every disk on which the files can be opened and renamed and that has room
  for what the test writes. Readings of the clock are arguments. The tests that only ask the compiler for
  \<open>Send\<close> and \<open>Sync\<close> are left out.
\<close>

section \<open>Helpers of the tests\<close>

definition read_file :: "path \<Rightarrow> disk \<Rightarrow> bytes option" where
  "read_file p d = contents d p"

definition cleanup :: "path \<Rightarrow> disk \<Rightarrow> disk" where
  "cleanup p d = d\<lparr>contents := (contents d)(p := None)\<rparr>"

definition path_exists :: "path \<Rightarrow> disk \<Rightarrow> bool" where
  "path_exists p d \<longleftrightarrow> contents d p \<noteq> None"

definition cleanup_pattern :: "path \<Rightarrow> disk \<Rightarrow> disk" where
  "cleanup_pattern base d = fold (\<lambda>i. cleanup (rotated_name base i)) [1..<20] (cleanup base d)"

text \<open>\<open>str::lines\<close>: a line ends with a line feed, or a carriage return and a line feed.\<close>

definition strip_cr :: "bytes \<Rightarrow> bytes" where
  "strip_cr l = (if l \<noteq> [] \<and> last l = 13 then butlast l else l)"

fun split_lines :: "bytes \<Rightarrow> bytes \<Rightarrow> bytes list" where
  "split_lines l [] = (if l = [] then [] else [l])"
| "split_lines l (b # bs) = (if b = 10 then strip_cr l # split_lines [] bs else split_lines (l @ [b]) bs)"

text \<open>A disk for the tests: every path can be opened and renamed, and there is room.\<close>

definition good_disk :: "disk \<Rightarrow> bool" where
  "good_disk d \<longleftrightarrow> (\<forall>p. \<not> no_open d p \<and> \<not> no_rename d p) \<and> 1000 \<le> room d"

lemma good_diskE:
  assumes "good_disk d"
  obtains r where "d = \<lparr>contents = contents d, room = 1000 + r, no_open = (\<lambda>_. False), no_rename = (\<lambda>_. False)\<rparr>"
  using assms by (cases d) (auto simp: good_disk_def fun_eq_iff le_iff_add)

lemma fold_cleanup:
  "room (fold (\<lambda>i. cleanup (f i)) is d) = room d" "no_open (fold (\<lambda>i. cleanup (f i)) is d) = no_open d"
  "no_rename (fold (\<lambda>i. cleanup (f i)) is d) = no_rename d"
  "contents d p = None \<Longrightarrow> contents (fold (\<lambda>i. cleanup (f i)) is d) p = None"
  by (induction "is" arbitrary: d) (simp_all add: cleanup_def)

lemma cleanup_pattern_room:
  "room (cleanup_pattern p d) = room d" "no_open (cleanup_pattern p d) = no_open d"
  "no_rename (cleanup_pattern p d) = no_rename d" "contents (cleanup_pattern p d) p = None"
  unfolding cleanup_pattern_def by (simp_all only: fold_cleanup) (simp_all add: cleanup_def fold_cleanup(4))

lemma good_fileE:
  assumes "good_disk d"
  obtains c r where "cleanup p d = \<lparr>contents = c, room = 1000 + r, no_open = (\<lambda>_. False), no_rename = (\<lambda>_. False)\<rparr>"
    "c p = None"
proof -
  have "good_disk (cleanup p d)" using assms by (simp add: good_disk_def cleanup_def)
  then obtain r where "cleanup p d = \<lparr>contents = contents (cleanup p d), room = 1000 + r,
      no_open = (\<lambda>_. False), no_rename = (\<lambda>_. False)\<rparr>" by (rule good_diskE)
  moreover have "contents (cleanup p d) p = None" by (simp add: cleanup_def)
  ultimately show ?thesis using that by metis
qed

lemma good_patternE:
  assumes "good_disk d"
  obtains c r where
    "cleanup_pattern p d = \<lparr>contents = c, room = 1000 + r, no_open = (\<lambda>_. False), no_rename = (\<lambda>_. False)\<rparr>"
    "c p = None"
proof -
  have "good_disk (cleanup_pattern p d)" using assms by (simp add: good_disk_def cleanup_pattern_room)
  then obtain r where "cleanup_pattern p d = \<lparr>contents = contents (cleanup_pattern p d), room = 1000 + r,
      no_open = (\<lambda>_. False), no_rename = (\<lambda>_. False)\<rparr>" by (rule good_diskE)
  then show ?thesis using that cleanup_pattern_room(4) by metis
qed

lemmas eval_file = file_new_def file_write_def file_flush_def open_append_def open_truncate_def buf_new_def
  flush_buf_def write_all_def writeln_def write_file_def BUF_CAPACITY_def Let_def read_file_def path_exists_def

lemmas eval_rotating = rotating_new_def open_writer_def rotating_write_def would_exceed_def rotate_inner_def
  close_writer_def rename_def rotating_flush_def eval_file

section \<open>Tests of file.rs\<close>

definition test_write_and_read_back :: "path \<Rightarrow> disk \<Rightarrow> unit option" where
  "test_write_and_read_back p d =
     do {
       let d = cleanup p d;
       s \<leftarrow> file_new p Truncate d;
       let s = file_write (str ''hello world'') s;
       let s = file_flush s;
       text \<leftarrow> read_file p (snd s);
       assert (contains text (str ''hello world''))
     }"

lemma test_write_and_read_back_passes: "good_disk d \<Longrightarrow> test_write_and_read_back p d = Some ()"
  by (erule good_fileE [where p = p]) (simp add: test_write_and_read_back_def assert_def eval_file starts_with_def split_lines.simps strip_cr_def)

definition test_write_multiple_messages :: "path \<Rightarrow> disk \<Rightarrow> unit option" where
  "test_write_multiple_messages p d =
     do {
       let d = cleanup p d;
       s \<leftarrow> file_new p Truncate d;
       let s = file_write (str ''first'') s;
       let s = file_write (str ''second'') s;
       let s = file_write (str ''third'') s;
       let s = file_flush s;
       text \<leftarrow> read_file p (snd s);
       let lns = split_lines [] text;
       assert (length lns = 3);
       assert (lns ! 0 = str ''first'');
       assert (lns ! 1 = str ''second'');
       assert (lns ! 2 = str ''third'')
     }"

lemma test_write_multiple_messages_passes: "good_disk d \<Longrightarrow> test_write_multiple_messages p d = Some ()"
  by (erule good_fileE [where p = p]) (simp add: test_write_multiple_messages_def assert_def eval_file starts_with_def split_lines.simps strip_cr_def)

definition test_append_mode_preserves :: "path \<Rightarrow> disk \<Rightarrow> unit option" where
  "test_append_mode_preserves p d =
     do {
       let d = cleanup p d;
       s \<leftarrow> file_new p Append d;
       let s = file_write (str ''line_a'') s;
       let s = file_flush s;
       s \<leftarrow> file_new p Append (snd s);
       let s = file_write (str ''line_b'') s;
       let s = file_flush s;
       text \<leftarrow> read_file p (snd s);
       let lns = split_lines [] text;
       assert (length lns = 2);
       assert (lns ! 0 = str ''line_a'');
       assert (lns ! 1 = str ''line_b'')
     }"

lemma test_append_mode_preserves_passes: "good_disk d \<Longrightarrow> test_append_mode_preserves p d = Some ()"
  by (erule good_fileE [where p = p]) (simp add: test_append_mode_preserves_def assert_def eval_file starts_with_def split_lines.simps strip_cr_def)

definition test_truncate_mode_overwrites :: "path \<Rightarrow> disk \<Rightarrow> unit option" where
  "test_truncate_mode_overwrites p d =
     do {
       let d = cleanup p d;
       s \<leftarrow> file_new p Truncate d;
       let s = file_write (str ''first_writer'') s;
       let s = file_flush s;
       s \<leftarrow> file_new p Truncate (snd s);
       let s = file_write (str ''second_writer'') s;
       let s = file_flush s;
       text \<leftarrow> read_file p (snd s);
       let lns = split_lines [] text;
       assert (length lns = 1);
       assert (lns ! 0 = str ''second_writer'')
     }"

lemma test_truncate_mode_overwrites_passes: "good_disk d \<Longrightarrow> test_truncate_mode_overwrites p d = Some ()"
  by (erule good_fileE [where p = p]) (simp add: test_truncate_mode_overwrites_def assert_def eval_file starts_with_def split_lines.simps strip_cr_def)

section \<open>Tests of rotating.rs\<close>

definition test_create_with_size_policy :: "path \<Rightarrow> int \<Rightarrow> disk \<Rightarrow> unit option" where
  "test_create_with_size_policy p now d =
     do {
       let d = cleanup_pattern p d;
       assert (rotating_new p (SizeBased 1024) now d \<noteq> None)
     }"

lemma test_create_with_size_policy_passes: "good_disk d \<Longrightarrow> test_create_with_size_policy p now d = Some ()"
  by (erule good_patternE [where p = p]) (simp add: test_create_with_size_policy_def assert_def eval_rotating starts_with_def)

definition test_create_with_time_policy :: "path \<Rightarrow> int \<Rightarrow> disk \<Rightarrow> unit option" where
  "test_create_with_time_policy p now d =
     do {
       let d = cleanup_pattern p d;
       assert (rotating_new p (TimeBased Hourly) now d \<noteq> None)
     }"

lemma test_create_with_time_policy_passes: "good_disk d \<Longrightarrow> test_create_with_time_policy p now d = Some ()"
  by (erule good_patternE [where p = p]) (simp add: test_create_with_time_policy_def assert_def eval_rotating starts_with_def)

definition test_size_rotation_triggers :: "path \<Rightarrow> int \<Rightarrow> disk \<Rightarrow> unit option" where
  "test_size_rotation_triggers p now d =
     do {
       let d = cleanup_pattern p d;
       s \<leftarrow> rotating_new p (SizeBased 20) now d;
       let s = rotating_write (now, now) (str ''this is a long line that will exceed 20 bytes'') s;
       let s = rotating_flush s;
       assert (path_exists (rotated_name p 1) (snd s));
       assert (path_exists p (snd s))
     }"

lemma test_size_rotation_triggers_passes: "good_disk d \<Longrightarrow> test_size_rotation_triggers p now d = Some ()"
  by (erule good_patternE [where p = p]) (simp add: test_size_rotation_triggers_def assert_def eval_rotating starts_with_def)

definition test_time_rotation_triggers :: "path \<Rightarrow> int \<Rightarrow> int \<Rightarrow> disk \<Rightarrow> unit option" where
  "test_time_rotation_triggers p now later d =
     do {
       let d = cleanup_pattern p d;
       (k, d) \<leftarrow> rotating_new p (TimeBased Hourly) now d;
       let k = k\<lparr>inner := (inner k)\<lparr>next_rotation_at := now - 10 * 10 ^ 9\<rparr>\<rparr>;
       let s = rotating_write (later, later) (str ''after rotation'') (k, d);
       let s = rotating_flush s;
       assert (path_exists (rotated_name p 1) (snd s));
       text \<leftarrow> read_file p (snd s);
       assert (contains text (str ''after rotation''))
     }"

lemma test_time_rotation_triggers_passes: "good_disk d \<Longrightarrow> now \<le> later \<Longrightarrow> test_time_rotation_triggers p now later d = Some ()"
  by (erule good_patternE [where p = p]) (simp add: test_time_rotation_triggers_def assert_def eval_rotating starts_with_def)

definition test_rotation_preserves_messages_in_old_file :: "path \<Rightarrow> int \<Rightarrow> disk \<Rightarrow> unit option" where
  "test_rotation_preserves_messages_in_old_file p now d =
     do {
       let d = cleanup_pattern p d;
       s \<leftarrow> rotating_new p (SizeBased 100) now d;
       let s = rotating_write (now, now) (str ''first message'') s;
       let (k, d) = rotating_flush s;
       let k = k\<lparr>inner := (inner k)\<lparr>bytes_written := 150\<rparr>\<rparr>;
       let s = rotating_write (now, now) (str ''second message'') (k, d);
       let s = rotating_flush s;
       old_text \<leftarrow> read_file (rotated_name p 1) (snd s);
       assert (contains old_text (str ''first message''));
       new_text \<leftarrow> read_file p (snd s);
       assert (contains new_text (str ''second message''))
     }"

lemma test_rotation_preserves_messages_in_old_file_passes: "good_disk d \<Longrightarrow> test_rotation_preserves_messages_in_old_file p now d = Some ()"
  by (erule good_patternE [where p = p]) (simp add: test_rotation_preserves_messages_in_old_file_def assert_def eval_rotating starts_with_def)

text \<open>The body of the loop in the next test.\<close>

definition forced_rotation :: "int \<Rightarrow> nat \<Rightarrow> RotatingFileSink \<times> disk \<Rightarrow> RotatingFileSink \<times> disk" where
  "forced_rotation now i s =
     (let (k, d) = rotating_write (now, now) (str ''x'') s;
          k = k\<lparr>inner := (inner k)\<lparr>bytes_written := 10\<rparr>\<rparr>
      in rotating_flush (rotating_write (now, now) (str ''msg'' @ show_nat i) (k, d)))"

definition test_rotation_index_increments :: "path \<Rightarrow> int \<Rightarrow> disk \<Rightarrow> unit option" where
  "test_rotation_index_increments p now d =
     do {
       let d = cleanup_pattern p d;
       s \<leftarrow> rotating_new p (SizeBased 5) now d;
       let s = fold (forced_rotation now) [0, 1, 2] s;
       assert (path_exists (rotated_name p 1) (snd s));
       assert (path_exists (rotated_name p 2) (snd s));
       assert (path_exists (rotated_name p 3) (snd s))
     }"

lemma test_rotation_index_increments_passes: "good_disk d \<Longrightarrow> test_rotation_index_increments p now d = Some ()"
  by (erule good_patternE [where p = p]) (simp add: test_rotation_index_increments_def assert_def eval_rotating starts_with_def forced_rotation_def show_nat.simps)

definition test_flush_delegates :: "path \<Rightarrow> int \<Rightarrow> disk \<Rightarrow> unit option" where
  "test_flush_delegates p now d =
     do {
       let d = cleanup_pattern p d;
       s \<leftarrow> rotating_new p (SizeBased 1024) now d;
       let s = rotating_write (now, now) (str ''flush me'') s;
       let s = rotating_flush s;
       text \<leftarrow> read_file p (snd s);
       assert (contains text (str ''flush me''))
     }"

lemma test_flush_delegates_passes: "good_disk d \<Longrightarrow> test_flush_delegates p now d = Some ()"
  by (erule good_patternE [where p = p]) (simp add: test_flush_delegates_def assert_def eval_rotating starts_with_def forced_rotation_def show_nat.simps)

end
