(* ===== verification/Unit_Tests_Worker.thy ===== *)
theory Unit_Tests_Worker
  imports Delivery Unit_Tests_Args Unit_Tests_Queue
begin

text \<open>
  The unit tests of \<open>src/timestamp.rs\<close>, \<open>src/macros.rs\<close> and \<open>src/backend.rs\<close>, transcribed onto the model over
  any ring \<open>R\<close>, and that they pass for every ring that keeps the contract \<open>byte_ring\<close>. A test starts in a fresh
  process; its own thread is thread 0. Addresses of loggers, sinks, metadata and schemas are arguments,
  and so are clock readings, the batch sort and the number of polls of a worker before it is stopped: the
  50 ms that a test sleeps are read as at least one.
\<close>

section \<open>Tests of timestamp.rs\<close>

text \<open>In the default configuration; \<open>wall\<close> is the reading of the system clock.\<close>

definition test_now_returns_reasonable_value :: "int \<Rightarrow> unit option" where
  "test_now_returns_reasonable_value wall =
     do {
       let ts = now_system wall;
       assert (ts < 2 ^ 64 - 1)
     }"

lemma test_now_returns_reasonable_value_passes: "wall < 2 ^ 64 - 1 \<Longrightarrow> test_now_returns_reasonable_value wall = Some ()"
  by (simp add: test_now_returns_reasonable_value_def assert_def now_system_def system_time_ns_def to_display_nanos_def nat_less_iff)

definition test_now_is_monotonic :: "int \<Rightarrow> int \<Rightarrow> unit option" where
  "test_now_is_monotonic wall1 wall2 =
     do {
       let a = now_system wall1;
       let b = now_system wall2;
       assert (a \<le> b \<or> b < a + 1000000)
     }"

lemma test_now_is_monotonic_passes: "test_now_is_monotonic wall1 wall2 = Some ()"
  by (auto simp: test_now_is_monotonic_def assert_def Let_def)

definition test_to_display_nanos_works :: "int \<Rightarrow> unit option" where
  "test_to_display_nanos_works wall =
     do {
       let raw_time = now_system wall;
       let display = to_display_nanos raw_time;
       assert (display < 2 ^ 64 - 1)
     }"

lemma test_to_display_nanos_works_passes: "wall < 2 ^ 64 - 1 \<Longrightarrow> test_to_display_nanos_works wall = Some ()"
  by (simp add: test_to_display_nanos_works_def assert_def now_system_def system_time_ns_def to_display_nanos_def nat_less_iff)

section \<open>Tests of macros.rs\<close>

text \<open>
  A call of a level macro in the tests, with no level feature chosen and its statics still empty: call
  site \<open>i\<close> has its metadata at \<open>base + i\<close> and its schema cell at \<open>base + 100 + i\<close>.
\<close>

definition log_at ::
    "'r rtrb \<Rightarrow> nat \<Rightarrow> nat \<Rightarrow> LogLevel \<Rightarrow> string \<Rightarrow> (rty \<times> rval) list \<Rightarrow> nat \<Rightarrow> nat \<Rightarrow> logger_heap \<Rightarrow> 'r world \<Rightarrow>
     'r world option" where
  "log_at R base i lv fmt args logger now h w =
     (let cs = \<lparr>site_addr = base + i, site_level = lv, site_fmt = str fmt, site_file = str ''src/macros.rs'',
            site_line = i, site_module = str ''rapidlog::macros::tests'', site_schema_addr = base + 100 + i,
            site_types = map fst args\<rparr>
      in do {
        l \<leftarrow> loggers h logger;
        if macro_enabled [] lv then do {
          (_, w) \<leftarrow> log_impl R 0 cs logger l now (map (\<lambda>(_, v) _. v) args)
            (\<lparr>SCHEMA_BYTES = None, STRING_TABLES = None\<rparr>, w);
          Some w
        }
        else Some w
      })"

text \<open>An integer literal is an \<open>i32\<close>; a text literal a \<open>&str\<close>.\<close>

definition i32 :: "int \<Rightarrow> rty \<times> rval" where
  "i32 n = (SignedT 3, SignedV 3 n)"

definition strlit :: "string \<Rightarrow> rty \<times> rval" where
  "strlit s = (StrT, StrV (str s))"

definition test_log_info_macro_compiles :: "'r rtrb \<Rightarrow> nat \<Rightarrow> nat \<Rightarrow> nat \<Rightarrow> nat \<Rightarrow> unit option" where
  "test_log_info_macro_compiles R a s base now =
     do {
       let (logger, h) = logger_new a (str ''macro_test'') [s] empty_heap;
       w \<leftarrow> log_at R base 0 Info ''hello {}'' [strlit ''world''] logger now h empty_world;
       Some ()
     }"

definition test_log_info_no_args :: "'r rtrb \<Rightarrow> nat \<Rightarrow> nat \<Rightarrow> nat \<Rightarrow> nat \<Rightarrow> unit option" where
  "test_log_info_no_args R a s base now =
     do {
       let (logger, h) = logger_new a (str ''macro_no_args'') [s] empty_heap;
       w \<leftarrow> log_at R base 0 Info ''hello world'' [] logger now h empty_world;
       Some ()
     }"

definition test_log_levels_all_compile :: "'r rtrb \<Rightarrow> nat \<Rightarrow> nat \<Rightarrow> nat \<Rightarrow> nat \<Rightarrow> unit option" where
  "test_log_levels_all_compile R a s base now =
     do {
       let (logger, h) = logger_new a (str ''all_levels'') [s] empty_heap;
       let h = update_logger logger (set_log_level TraceL3) h;
       w \<leftarrow> log_at R base 0 TraceL3 ''trace_l3: {}'' [i32 1] logger now h empty_world;
       w \<leftarrow> log_at R base 1 TraceL2 ''trace_l2: {}'' [i32 2] logger now h w;
       w \<leftarrow> log_at R base 2 TraceL1 ''trace_l1: {}'' [i32 3] logger now h w;
       w \<leftarrow> log_at R base 3 Debug ''debug: {}'' [i32 4] logger now h w;
       w \<leftarrow> log_at R base 4 Info ''info: {}'' [i32 5] logger now h w;
       w \<leftarrow> log_at R base 5 Warning ''warning: {}'' [i32 6] logger now h w;
       w \<leftarrow> log_at R base 6 Error ''error: {}'' [i32 7] logger now h w;
       w \<leftarrow> log_at R base 7 Critical ''critical: {}'' [i32 8] logger now h w;
       Some ()
     }"

definition test_log_level_filtering :: "'r rtrb \<Rightarrow> nat \<Rightarrow> nat \<Rightarrow> nat \<Rightarrow> nat \<Rightarrow> unit option" where
  "test_log_level_filtering R a s base now =
     do {
       let (logger, h) = logger_new a (str ''filter'') [s] empty_heap;
       let h = update_logger logger (set_log_level Warning) h;
       w \<leftarrow> log_at R base 0 Debug ''this should be filtered out'' [] logger now h empty_world;
       w \<leftarrow> log_at R base 1 Info ''this too'' [] logger now h w;
       w \<leftarrow> log_at R base 2 Warning ''this should pass: {}'' [i32 42] logger now h w;
       Some ()
     }"

definition test_log_with_multiple_args :: "'r rtrb \<Rightarrow> nat \<Rightarrow> nat \<Rightarrow> nat \<Rightarrow> nat \<Rightarrow> unit option" where
  "test_log_with_multiple_args R a s base now =
     do {
       let (logger, h) = logger_new a (str ''multi_args'') [s] empty_heap;
       let h = update_logger logger (set_log_level TraceL3) h;
       w \<leftarrow> log_at R base 0 Info ''a: {}, b: {}, c: {}'' [i32 1, (F64T, F64V 0x4004000000000000), strlit ''three''] logger now h
         empty_world;
       Some ()
     }"

section \<open>Tests of backend.rs\<close>

text \<open>The schema providers; metadata and the surroundings of a worker in the default configuration.\<close>

definition schema_one_i32 :: "nat \<Rightarrow> nat \<times> bytes" where
  "schema_one_i32 sch = (sch, [1, op_signed_int 3])"

definition schema_two_i32 :: "nat \<Rightarrow> nat \<times> bytes" where
  "schema_two_i32 sch = (sch, [2, op_signed_int 3, op_signed_int 3])"

definition no_schemas :: "nat \<Rightarrow> nat \<times> bytes" where
  "no_schemas sch = (sch, [])"

definition meta_of :: "LogLevel \<Rightarrow> string \<Rightarrow> string \<Rightarrow> nat \<Rightarrow> string \<Rightarrow> nat \<times> bytes \<Rightarrow> Metadata" where
  "meta_of lv fmt file lno modpath sp =
     metadata_new lv (str fmt) (str file) lno (str modpath) sp empty_string_tables_provider empty_user_formatters_provider"

definition test_host :: "calendar \<Rightarrow> float_printer \<Rightarrow> nat \<Rightarrow> Metadata \<Rightarrow> logger_heap \<Rightarrow> host" where
  "test_host cal fp m meta h =
     \<lparr>to_display = to_display_nanos, host_calendar = cal, floats = fp, metadata_at = [m \<mapsto> meta],
      logger_at = loggers h\<rparr>"

text \<open>
  \<open>vec![0u8; HEADER_SIZE + n]\<close>, the header serialised into its start and the values encoded after it: what
  the closure of a log call does with its slot.
\<close>

definition test_message :: "ArchivedHeader \<Rightarrow> rval list \<Rightarrow> nat \<Rightarrow> bytes option" where
  "test_message header vs payload_size =
     map_option fst (write_message header (map encode_to vs) (replicate (HEADER_SIZE + payload_size) 0))"

text \<open>
  A worker that loads the stop flag and polls \<open>k\<close> times before it finds the flag set, and is then joined:
  the calls of sinks it made. \<open>CountingSink\<close> counts the calls at its address.
\<close>

fun worker_ticks :: "'r rtrb \<Rightarrow> nat \<Rightarrow> 'r world \<Rightarrow> (tick list \<times> 'r world) option" where
  "worker_ticks R 0 w = Some ([\<lparr>stop_loaded = True, polled = []\<rparr>], w)"
| "worker_ticks R (Suc k) w = do {
     (msgs, w) \<leftarrow> poll_all_registered_queues R w;
     (ticks, w) \<leftarrow> worker_ticks R k w;
     Some (\<lparr>stop_loaded = False, polled = msgs\<rparr> # ticks, w)
   }"

definition run_worker ::
    "'r rtrb \<Rightarrow> host \<Rightarrow> batch_sort \<Rightarrow> BackendOptions \<Rightarrow> nat \<Rightarrow> 'r world \<Rightarrow> (sink_calls \<times> 'r world) option" where
  "run_worker R host srt opts k w = do {
     let backend = handle_stop backend_start;
     (ticks, w) \<leftarrow> worker_ticks R k w;
     let worker_result = worker_loop (\<lambda>_. host) srt opts ticks (0, [], Map.empty);
     backend \<leftarrow> handle_join worker_result backend;
     (_, calls, _) \<leftarrow> worker_result;
     Some (calls, w)
   }"

definition sink_count :: "nat \<Rightarrow> sink_calls \<Rightarrow> nat" where
  "sink_count s calls = length (filter (\<lambda>(t, _). t = s) calls)"

definition test_options :: BackendOptions where
  "test_options = default_options\<lparr>sleep_duration_ms := 1, min_batch_size := 1\<rparr>"

definition test_backend_start_and_stop :: "'r rtrb \<Rightarrow> host \<Rightarrow> batch_sort \<Rightarrow> nat \<Rightarrow> unit option" where
  "test_backend_start_and_stop R host srt k =
     do {
       (calls, w) \<leftarrow> run_worker R host srt default_options k empty_world;
       Some ()
     }"

definition test_backend_processes_messages :: "'r rtrb \<Rightarrow> batch_sort \<Rightarrow> calendar \<Rightarrow> float_printer \<Rightarrow> nat \<Rightarrow> nat \<Rightarrow> nat \<Rightarrow> nat \<Rightarrow> nat \<Rightarrow> unit option" where
  "test_backend_processes_messages R srt cal fp k a s m sch =
     do {
       let (logger, h) = logger_new a (str ''test_backend'') [s] empty_heap;
       let h = update_logger logger (set_log_level TraceL3) h;
       let meta = meta_of Info ''test message {}'' ''test.rs'' 10 ''test'' (schema_one_i32 sch);
       buf \<leftarrow> test_message (header_new 1700000000123456789 m logger) [SignedV 3 42] 4;
       let w = init R 0 empty_world;
       w \<leftarrow> ctx_push_ok R 0 buf w;
       (calls, w) \<leftarrow> run_worker R (test_host cal fp m meta h) srt test_options k w;
       assert (1 \<le> sink_count s calls)
     }"

definition test_format_message_output :: "calendar \<Rightarrow> float_printer \<Rightarrow> nat \<Rightarrow> nat \<Rightarrow> nat \<Rightarrow> unit option" where
  "test_format_message_output cal fp a m sch =
     do {
       let meta = meta_of Warning ''fmt: {} {}'' ''src/main.rs'' 42 ''my_crate'' (schema_two_i32 sch);
       let (logger, h) = logger_new a (str ''test_logger'') [] empty_heap;
       buf \<leftarrow> test_message (header_new 1700000001 m logger) [SignedV 3 123, SignedV 3 456] 8;
       decoded \<leftarrow> decode buf;
       payload \<leftarrow> slice_from buf HEADER_SIZE;
       (formatted, _) \<leftarrow> format_message (test_host cal fp m meta h) None decoded payload Map.empty;
       assert (contains formatted (str ''fmt: 123 456''));
       assert (contains formatted (str ''[Warning]''));
       assert (contains formatted (str ''src/main.rs:42''))
     }"

definition test_format_message_with_custom_pattern :: "calendar \<Rightarrow> float_printer \<Rightarrow> nat \<Rightarrow> nat \<Rightarrow> nat \<Rightarrow> unit option" where
  "test_format_message_with_custom_pattern cal fp a m sch =
     do {
       let meta = meta_of Error ''error {}'' ''src/lib.rs'' 100 ''rapidlog'' (schema_one_i32 sch);
       let (logger, h) = logger_new a (str ''pat_logger'') [] empty_heap;
       buf \<leftarrow> test_message (header_new 1700000010000000000 m logger) [SignedV 3 99] 4;
       decoded \<leftarrow> decode buf;
       payload \<leftarrow> slice_from buf HEADER_SIZE;
       let fmt = pattern_new (map of_char ''[%l] %F:%L '' @ [0x2014] @ map of_char '' %v'');
       (formatted, _) \<leftarrow> format_message (test_host cal fp m meta h) (Some fmt) decoded payload Map.empty;
       assert (starts_with formatted (str ''[Error] src/lib.rs:100''));
       assert (contains formatted (str ''error 99''))
     }"

definition test_messages_sorted_by_timestamp :: "'r rtrb \<Rightarrow> batch_sort \<Rightarrow> calendar \<Rightarrow> float_printer \<Rightarrow> nat \<Rightarrow> nat \<Rightarrow> nat \<Rightarrow> nat \<Rightarrow> nat \<Rightarrow> unit option" where
  "test_messages_sorted_by_timestamp R srt cal fp k a s m sch =
     do {
       let (logger, h) = logger_new a (str ''test_sort'') [s] empty_heap;
       let h = update_logger logger (set_log_level TraceL3) h;
       let meta = meta_of Info ''sorted'' ''test.rs'' 1 ''test'' (no_schemas sch);
       buf1 \<leftarrow> test_message (header_new 300 m logger) [] 0;
       w \<leftarrow> ctx_push_ok R 0 buf1 empty_world;
       buf2 \<leftarrow> test_message (header_new 100 m logger) [] 0;
       w \<leftarrow> ctx_push_ok R 0 buf2 w;
       buf3 \<leftarrow> test_message (header_new 200 m logger) [] 0;
       w \<leftarrow> ctx_push_ok R 0 buf3 w;
       (calls, w) \<leftarrow> run_worker R (test_host cal fp m meta h) srt test_options k w;
       assert (3 \<le> sink_count s calls)
     }"

definition test_filter_blocks_messages :: "'r rtrb \<Rightarrow> batch_sort \<Rightarrow> calendar \<Rightarrow> float_printer \<Rightarrow> nat \<Rightarrow> nat \<Rightarrow> nat \<Rightarrow> nat \<Rightarrow> nat \<Rightarrow> unit option" where
  "test_filter_blocks_messages R srt cal fp k a s m sch =
     do {
       let (logger, h) = logger_new a (str ''test_filter'') [s] empty_heap;
       let h = update_logger logger (set_log_level TraceL3) h;
       let h = update_logger logger (add_filter (LevelFilter Error)) h;
       let meta = meta_of Info ''filtered out'' ''test.rs'' 1 ''test'' (no_schemas sch);
       buf \<leftarrow> test_message (header_new 100 m logger) [] 0;
       let w = init R 0 empty_world;
       w \<leftarrow> ctx_push_ok R 0 buf w;
       (calls, w) \<leftarrow> run_worker R (test_host cal fp m meta h) srt test_options k w;
       assert (sink_count s calls = 0)
     }"

section \<open>Formatting in the tests\<close>

lemma offsets_loop_numeral:
  "offsets_loop rw start (numeral n) offs = offsets_loop rw start (Suc (pred_numeral n)) offs"
  by (simp only: numeral_eq_Suc)

lemmas eval_body = format_body_def get_schemas_def parse_schema_offsets_def offsets_loop.simps body_loop.simps
  find_byte.simps arg_env_def offsets_loop_numeral

lemma message_bytes:
  assumes "length (concat (map enc vs)) = n"
  shows "test_message hdr vs n = Some (header_bytes hdr @ concat (map enc vs))"
  using write_message_exact [of "replicate (HEADER_SIZE + n) 0" n hdr vs] assms
  by (simp add: test_message_def message_of_def)

lemma message_header:
  assumes "metadata_ptr hdr < 2 ^ 64" "logger_ptr hdr < 2 ^ 64" "timestamp_ns hdr < 2 ^ 64" "reserved hdr = 0"
  shows "decode (header_bytes hdr @ p) = Some hdr" "slice_from (header_bytes hdr @ p) HEADER_SIZE = Some p"
  using assms by (simp_all add: decode_bytes header_ok_def slice_from_def HEADER_SIZE_def)

section \<open>A worker with one poll\<close>

lemma deliver_accepted:
  assumes "metadata_at host (metadata_ptr hdr) = Some md" "logger_at host (logger_ptr hdr) = Some l"
    "as_usize (log_level l) \<le> as_usize (level md)" "slice_from data HEADER_SIZE = Some payload"
    "filter_pass l md payload" "format_body (floats host) md payload cache = Some (body, cache')"
  shows "deliver host formatter (hdr, data) (calls, cache) =
    Some (calls @ map (\<lambda>sk. (sk, finish_message host formatter (timestamp_ns hdr) md body)) (sinks l), cache')"
  using assms by (simp add: deliver_def format_message_def)

lemma deliver_filtered:
  assumes "metadata_at host (metadata_ptr hdr) = Some md" "logger_at host (logger_ptr hdr) = Some l"
    "slice_from data HEADER_SIZE = Some payload" "\<not> filter_pass l md payload"
  shows "deliver host formatter (hdr, data) st = Some st"
  using assms by (cases st) (simp add: deliver_def)

text \<open>The worker's view in the tests: one call site at \<open>m\<close> and one logger at \<open>a\<close>, which has the sink \<open>s\<close>.\<close>

definition test_logger :: "string \<Rightarrow> nat \<Rightarrow> Filter list \<Rightarrow> Logger" where
  "test_logger nm s fs = \<lparr>logger_name = str nm, level_code = 0, sinks = [s], filters = fs\<rparr>"

definition test_heap :: "string \<Rightarrow> nat \<Rightarrow> nat \<Rightarrow> Filter list \<Rightarrow> logger_heap" where
  "test_heap nm a s fs = \<lparr>logger_registry = [str nm \<mapsto> a], loggers = [a \<mapsto> test_logger nm s fs]\<rparr>"

lemma logger_created: "logger_new a (str nm) [s] empty_heap =
    (a, \<lparr>logger_registry = [str nm \<mapsto> a],
      loggers = [a \<mapsto> \<lparr>logger_name = str nm, level_code = word_of_nat (as_usize Info), sinks = [s], filters = []\<rparr>]\<rparr>)"
  by (simp add: logger_new_def empty_heap_def)

lemma heap_created:
  "update_logger a (set_log_level TraceL3) (snd (logger_new a (str nm) [s] empty_heap)) = test_heap nm a s []"
  "update_logger a (add_filter f) (test_heap nm a s fs) = test_heap nm a s (fs @ [f])"
  by (simp_all add: logger_created update_logger_def set_log_level_def add_filter_def test_heap_def test_logger_def)

lemma test_host_simps [simp]:
  "metadata_at (test_host cal fp m meta (test_heap nm a s fs)) m = Some meta"
  "logger_at (test_host cal fp m meta (test_heap nm a s fs)) a = Some (test_logger nm s fs)"
  "floats (test_host cal fp m meta h) = fp"
  by (simp_all add: test_host_def test_heap_def)

lemma test_logger_simps [simp]:
  "log_level (test_logger nm s fs) = TraceL3" "sinks (test_logger nm s fs) = [s]" "filters (test_logger nm s fs) = fs"
  by (simp_all add: test_logger_def log_level_def from_usize_def)

lemma worker_idle:
  "worker_loop hosts srt opts (replicate k \<lparr>stop_loaded = False, polled = []\<rparr> @ [\<lparr>stop_loaded = True, polled = []\<rparr>]) st = Some st"
  by (induction k) simp_all

lemma worker_once:
  assumes "msgs \<noteq> []" "min_batch_size opts \<le> length msgs"
  shows "worker_loop hosts srt opts
      (\<lparr>stop_loaded = False, polled = msgs\<rparr> # replicate k \<lparr>stop_loaded = False, polled = []\<rparr> @
        [\<lparr>stop_loaded = True, polled = []\<rparr>]) st =
    process_batch hosts srt (pattern_formatter opts) msgs st"
proof -
  let ?ts = "replicate k \<lparr>stop_loaded = False, polled = []\<rparr> @ [\<lparr>stop_loaded = True, polled = []\<rparr>]"
  have "gather (min_batch_size opts) msgs ?ts = (msgs, ?ts)"
    using assms(2) by (cases k) simp_all
  then show ?thesis
    using assms(1) by (cases "process_batch hosts srt (pattern_formatter opts) msgs st") (simp_all add: worker_idle)
qed

text \<open>The bodies of the test messages.\<close>

lemma body_one_i32:
  "format_body fp (meta_of lv ''test message {}'' file lno modpath (schema_one_i32 sch)) (enc (SignedV 3 42)) Map.empty =
    Some (str ''test message 42'', [sch \<mapsto> [(1, 1)]])"
  by (simp add: meta_of_def metadata_new_def schema_one_i32_def eval_body eval_format eval_encode)

lemma body_error:
  "format_body fp (meta_of lv ''error {}'' file lno modpath (schema_one_i32 sch)) (enc (SignedV 3 99)) Map.empty =
    Some (str ''error 99'', [sch \<mapsto> [(1, 1)]])"
  by (simp add: meta_of_def metadata_new_def schema_one_i32_def eval_body eval_format eval_encode)

lemma body_two_i32:
  "format_body fp (meta_of lv ''fmt: {} {}'' file lno modpath (schema_two_i32 sch))
     (enc (SignedV 3 123) @ enc (SignedV 3 456)) Map.empty =
    Some (str ''fmt: 123 456'', [sch \<mapsto> [(1, 1), (1 + 1, 1)]])"
  by (simp add: meta_of_def metadata_new_def schema_two_i32_def eval_body eval_format eval_encode)

lemma body_no_args:
  "format_body fp (meta_of lv fmt file lno modpath (no_schemas sch)) payload cache = Some (str fmt, cache)"
  by (simp add: meta_of_def metadata_new_def no_schemas_def eval_body)

lemma sort_single: "sorts_by_time srt \<Longrightarrow> srt [x] = [x]"
  by (simp add: sorts_by_time_def) (metis mset_single_iff_right)

context byte_ring
begin

lemma ticks_idle:
  "world_holds V w (\<lambda>_. []) \<Longrightarrow> \<exists>w'. worker_ticks R k w =
     Some (replicate k \<lparr>stop_loaded = False, polled = []\<rparr> @ [\<lparr>stop_loaded = True, polled = []\<rparr>], w')"
proof (induction k arbitrary: w)
  case (Suc k)
  obtain w1 where w1: "poll_all_registered_queues R w = Some ([], w1)" "world_holds V w1 (\<lambda>_. [])"
    using poll_single [of w "[]"] Suc.prems by (auto simp: no_messages [symmetric])
  from Suc.IH [OF w1(2)] obtain w' where "worker_ticks R k w1 =
     Some (replicate k \<lparr>stop_loaded = False, polled = []\<rparr> @ [\<lparr>stop_loaded = True, polled = []\<rparr>], w')" ..
  then show ?case using w1(1) by simp
qed simp

text \<open>A worker that finds the messages \<open>ms\<close> with its first poll: one batch, if it can be processed.\<close>

lemma run_worker_once:
  assumes "world_holds V w ((\<lambda>_. [])(0 := ms))" "ms \<noteq> []" "0 < k"
    and "process_batch (\<lambda>_. host) srt None ms (0, [], Map.empty) = Some (handled, calls, cache)"
  shows "\<exists>w'. run_worker R host srt test_options k w = Some (calls, w')"
proof -
  obtain w1 where w1: "poll_all_registered_queues R w = Some (ms, w1)" "world_holds V w1 (\<lambda>_. [])"
    using poll_single [OF assms(1)] by blast
  obtain j where k: "k = Suc j" using assms(3) by (cases k) auto
  obtain w2 where "worker_ticks R j w1 =
     Some (replicate j \<lparr>stop_loaded = False, polled = []\<rparr> @ [\<lparr>stop_loaded = True, polled = []\<rparr>], w2)"
    using ticks_idle [OF w1(2)] by blast
  then have t: "worker_ticks R k w = Some (\<lparr>stop_loaded = False, polled = ms\<rparr> #
      replicate j \<lparr>stop_loaded = False, polled = []\<rparr> @ [\<lparr>stop_loaded = True, polled = []\<rparr>], w2)"
    using w1(1) k by simp
  have "pattern_formatter test_options = None" "min_batch_size test_options \<le> length ms"
    using assms(2) by (simp_all add: test_options_def default_options_def Suc_le_eq)
  then show ?thesis
    using worker_once [OF assms(2), of test_options "\<lambda>_. host" srt j "(0, [], Map.empty)"] assms(4)
    by (simp add: run_worker_def t handle_join_def handle_stop_def backend_start_def)
qed

lemma init_empty: "ready V (init R 0 empty_world) (\<lambda>_. [])"
proof -
  have "world_holds V (init R 0 empty_world) (\<lambda>_. [])"
    unfolding init_def by (rule set_or_create_holds(1)) (simp_all add: world_holds_empty DEFAULT_START_CAPACITY_def)
  then show ?thesis
    by (simp add: ready_def)
      (auto simp: init_def set_or_create_ctx_with_mode_def get_ctx_def new_ctx_def with_mode_def empty_world_def Let_def)
qed

lemma ready_empty: "ready V empty_world (\<lambda>_. [])"
  using world_holds_empty by (simp add: ready_def) (simp add: empty_world_def)

subsection \<open>Tests of macros.rs\<close>

lemma log_at_returns:
  assumes "\<exists>T. world_holds V w T" "loggers h logger = Some l" "length args < 256"
    "\<forall>v \<in> snd ` set args. sized v" "total_msg (map (encoded_size \<circ> snd) args) < 2 ^ 63"
  shows "\<exists>w'. log_at R base i lv fmt args logger now h w = Some w' \<and> (\<exists>T. world_holds V w' T)"
proof -
  obtain T where H: "world_holds V w T" using assms(1) by blast
  define cs where "cs = \<lparr>site_addr = base + i, site_level = lv, site_fmt = str fmt, site_file = str ''src/macros.rs'',
    site_line = i, site_module = str ''rapidlog::macros::tests'', site_schema_addr = base + 100 + i,
    site_types = map fst args\<rparr>"
  let ?st = "\<lparr>SCHEMA_BYTES = None, STRING_TABLES = None\<rparr>"
  have cells: "statics_ok cs ?st" "length (site_types cs) < 256" using assms(3) by (simp_all add: statics_ok_def cs_def)
  obtain c w1 where g: "get_ctx R 0 w = (c, w1)" by fastforce
  have args: "map (\<lambda>(_, v) _. v) args = map (\<lambda>v _. v) (map snd args)" by (induction args) auto
  have "\<exists>st' w'. log_impl R 0 cs logger l now (map (\<lambda>v _. v) (map snd args)) (?st, w) = Some (st', w') \<and>
      (\<exists>T. world_holds V w' T)"
  proof (cases "enabled l (site_level cs)")
    case True
    have "\<forall>v \<in> set (map snd args). sized v" "total_msg (map encoded_size (map snd args)) < 2 ^ 63"
      using assms(4,5) by auto
    from log_impl_holds [OF H cells True this g] show ?thesis by (meson)
  next
    case False
    then show ?thesis using H by (auto simp: log_impl_def)
  qed
  then show ?thesis
    using H unfolding log_at_def Let_def cs_def [symmetric] args assms(2) by auto
qed

lemma empty_world_some: "\<exists>T. world_holds V empty_world T"
  using world_holds_empty by blast

lemmas macro_test = assert_def logger_new_def empty_heap_def update_logger_def i32_def strlit_def Let_def
  total_msg_def HEADER_SIZE_def size_for_k_def

text \<open>One call after another, each from the world the one before left.\<close>

lemma after_log:
  assumes "\<exists>T. world_holds V w T" "loggers h logger = Some l" "length args < 256"
    "\<forall>v \<in> snd ` set args. sized v" "total_msg (map (encoded_size \<circ> snd) args) < 2 ^ 63"
    "\<And>w'. \<exists>T. world_holds V w' T \<Longrightarrow> f w' = Some y"
  shows "log_at R base i lv fmt args logger now h w \<bind> f = Some y"
  using log_at_returns [OF assms(1-5), of base i lv fmt now] assms(6) by fastforce

lemma test_log_info_macro_compiles_passes: "test_log_info_macro_compiles R a s base now = Some ()"
  unfolding test_log_info_macro_compiles_def
  by (simp add: logger_new_def empty_heap_def)
    (intro after_log empty_world_some; simp add: macro_test)

lemma test_log_info_no_args_passes: "test_log_info_no_args R a s base now = Some ()"
  unfolding test_log_info_no_args_def
  by (simp add: logger_new_def empty_heap_def)
    (intro after_log empty_world_some; simp add: macro_test)

lemma test_log_levels_all_compile_passes: "test_log_levels_all_compile R a s base now = Some ()"
  unfolding test_log_levels_all_compile_def
  by (simp add: logger_new_def empty_heap_def update_logger_def Let_def)
    (intro after_log empty_world_some; (assumption | simp add: macro_test))

lemma test_log_level_filtering_passes: "test_log_level_filtering R a s base now = Some ()"
  unfolding test_log_level_filtering_def
  by (simp add: logger_new_def empty_heap_def update_logger_def Let_def)
    (intro after_log empty_world_some; (assumption | simp add: macro_test))

lemma test_log_with_multiple_args_passes: "test_log_with_multiple_args R a s base now = Some ()"
  unfolding test_log_with_multiple_args_def
  by (simp add: logger_new_def empty_heap_def update_logger_def Let_def)
    (intro after_log empty_world_some; simp add: macro_test)

subsection \<open>Tests of backend.rs\<close>

lemma test_backend_start_and_stop_passes: "test_backend_start_and_stop R host srt k = Some ()"
proof -
  obtain w' where "worker_ticks R k empty_world =
     Some (replicate k \<lparr>stop_loaded = False, polled = []\<rparr> @ [\<lparr>stop_loaded = True, polled = []\<rparr>], w')"
    using ticks_idle [OF world_holds_empty] by blast
  then show ?thesis
    by (simp add: test_backend_start_and_stop_def run_worker_def worker_idle handle_join_def handle_stop_def backend_start_def)
qed

lemma one_push:
  assumes "ready V w (\<lambda>_. [])" "frame_size d \<le> DEFAULT_START_CAPACITY"
  shows "\<exists>w'. ctx_push_ok R 0 d w = Some w' \<and> ready V w' ((\<lambda>_. [])(0 := [d]))"
  using push_ready [OF assms(1), where t = 0 and d = d] assms(2) by simp

lemma test_backend_processes_messages_passes:
  assumes "sorts_by_time srt" "0 < k" "m < 2 ^ 64" "a < 2 ^ 64"
  shows "test_backend_processes_messages R srt cal fp k a s m sch = Some ()"
proof -
  let ?h = "header_new 1700000000123456789 m a"
  let ?d = "header_bytes ?h @ enc (SignedV 3 42)"
  have msg: "test_message ?h [SignedV 3 42] 4 = Some ?d"
    using message_bytes [of "[SignedV 3 42]" 4 ?h] by (simp add: size_for_k_def)
  have hdr: "decode ?d = Some ?h" "slice_from ?d HEADER_SIZE = Some (enc (SignedV 3 42))"
    using message_header [of ?h] assms by (simp_all add: header_new_def)
  obtain w where w: "ctx_push_ok R 0 ?d (init R 0 empty_world) = Some w" "ready V w ((\<lambda>_. [])(0 := [?d]))"
    using one_push [OF init_empty, of ?d] by (auto simp: frame_lengths size_for_k_def DEFAULT_START_CAPACITY_def)
  let ?meta = "meta_of Info ''test message {}'' ''test.rs'' 10 ''test'' (schema_one_i32 sch)"
  let ?host = "test_host cal fp m ?meta (test_heap ''test_backend'' a s [])"
  obtain out cache where "deliver ?host None (?h, ?d) ([], Map.empty) = Some ([(s, out)], cache)"
    using deliver_accepted [of ?host ?h ?meta "test_logger ''test_backend'' s []" ?d, OF _ _ _ hdr(2) _ ]
      body_one_i32 [of fp Info "''test.rs''" 10 "''test''" sch]
    by (simp add: header_new_def filter_pass_def meta_of_def metadata_new_def del: enc.simps)
  then have "process_batch (\<lambda>_. ?host) srt None [?d] (0, [], Map.empty) = Some (Suc 0, [(s, out)], cache)"
    using hdr(1) sort_single [OF assms(1)] by (simp add: process_batch_def decode_raws_def List.map_filter_def del: enc.simps)
  from run_worker_once [OF _ _ assms(2) this, of w] w(2) obtain w' where
    "run_worker R ?host srt test_options k w = Some ([(s, out)], w')"
    by (auto simp: ready_def)
  then show ?thesis
    using msg w(1) heap_created(1) [of a "''test_backend''" s]
    by (simp add: test_backend_processes_messages_def assert_def sink_count_def split_beta Let_def logger_created
        del: str_Cons enc.simps)
qed

lemma test_filter_blocks_messages_passes:
  assumes "sorts_by_time srt" "0 < k" "m < 2 ^ 64" "a < 2 ^ 64"
  shows "test_filter_blocks_messages R srt cal fp k a s m sch = Some ()"
proof -
  let ?h = "header_new 100 m a"
  let ?d = "header_bytes ?h"
  let ?fs = "[] @ [LevelFilter Error]"
  have msg: "test_message ?h [] 0 = Some ?d" using message_bytes [of "[]" 0 ?h] by simp
  have hdr: "decode ?d = Some ?h" "slice_from ?d HEADER_SIZE = Some []"
    using message_header [of ?h "[]"] assms by (simp_all add: header_new_def)
  obtain w where w: "ctx_push_ok R 0 ?d (init R 0 empty_world) = Some w" "ready V w ((\<lambda>_. [])(0 := [?d]))"
    using one_push [OF init_empty, of ?d] by (auto simp: frame_lengths DEFAULT_START_CAPACITY_def)
  let ?meta = "meta_of Info ''filtered out'' ''test.rs'' 1 ''test'' (no_schemas sch)"
  let ?host = "test_host cal fp m ?meta (test_heap ''test_filter'' a s ?fs)"
  have "deliver ?host None (?h, ?d) ([], Map.empty) = Some ([], Map.empty)"
    using deliver_filtered [of ?host ?h ?meta "test_logger ''test_filter'' s ?fs" ?d, OF _ _ hdr(2)]
    by (simp add: header_new_def filter_pass_def meta_of_def metadata_new_def LevelFilter_def level_order)
  then have "process_batch (\<lambda>_. ?host) srt None [?d] (0, [], Map.empty) = Some (Suc 0, [], Map.empty)"
    using hdr(1) sort_single [OF assms(1)] by (simp add: process_batch_def decode_raws_def List.map_filter_def)
  from run_worker_once [OF _ _ assms(2) this, of w] w(2) obtain w' where
    "run_worker R ?host srt test_options k w = Some ([], w')"
    by (auto simp: ready_def)
  then show ?thesis
    using msg w(1) heap_created(1) [of a "''test_filter''" s] heap_created(2) [of a "LevelFilter Error" "''test_filter''" s "[]"]
    by (simp add: test_filter_blocks_messages_def assert_def sink_count_def split_beta Let_def logger_created
        del: str_Cons)
qed

text \<open>Three messages with different times have one order.\<close>

lemma sort_three:
  assumes "sorts_by_time srt" "timestamp_ns h1 = 300" "timestamp_ns h2 = 100" "timestamp_ns h3 = 200"
  shows "srt [(h1, d1), (h2, d2), (h3, d3)] = [(h2, d2), (h3, d3), (h1, d1)]"
proof -
  let ?xs = "[(h1, d1), (h2, d2), (h3, d3)]" and ?key = "\<lambda>(m, _). timestamp_ns m"
  have "mset (srt ?xs) = mset ?xs" "sorted (map ?key (srt ?xs))" using assms(1) by (auto simp: sorts_by_time_def)
  moreover have "inj_on ?key (set ?xs)" using assms(2-4) by (auto simp: inj_on_def)
  ultimately have "sort_key ?key ?xs = srt ?xs"
    by (intro sort_key_inj_key_eq) auto
  moreover have "sort_key ?key ?xs = [(h2, d2), (h3, d3), (h1, d1)]" using assms(2-4) by simp
  ultimately show ?thesis by simp
qed

lemma test_messages_sorted_by_timestamp_passes:
  assumes "sorts_by_time srt" "0 < k" "m < 2 ^ 64" "a < 2 ^ 64"
  shows "test_messages_sorted_by_timestamp R srt cal fp k a s m sch = Some ()"
proof -
  let ?h = "\<lambda>ts. header_new ts m a"
  let ?d = "\<lambda>ts. header_bytes (?h ts)"
  have msg: "test_message (?h ts) [] 0 = Some (?d ts)" for ts using message_bytes [of "[]" 0 "?h ts"] by simp
  have hdr: "decode (?d ts) = Some (?h ts)" "slice_from (?d ts) HEADER_SIZE = Some []" if "ts < 2 ^ 64" for ts
    using message_header [of "?h ts" "[]"] assms that by (simp_all add: header_new_def)
  have fit: "frame_size (?d ts) = 64" for ts by (simp add: frame_lengths)
  obtain w1 where w1: "ctx_push_ok R 0 (?d 300) empty_world = Some w1" "ready V w1 ((\<lambda>_. [])(0 := [?d 300]))"
    using one_push [OF ready_empty, of "?d 300"] fit by (auto simp: DEFAULT_START_CAPACITY_def)
  obtain w2 where w2: "ctx_push_ok R 0 (?d 100) w1 = Some w2" "ready V w2 ((\<lambda>_. [])(0 := [?d 300, ?d 100]))"
    using push_ready [OF w1(2), where t = 0 and d = "?d 100"] fit by (auto simp: DEFAULT_START_CAPACITY_def)
  obtain w3 where w3: "ctx_push_ok R 0 (?d 200) w2 = Some w3" "ready V w3 ((\<lambda>_. [])(0 := [?d 300, ?d 100, ?d 200]))"
    using push_ready [OF w2(2), where t = 0 and d = "?d 200"] fit by (auto simp: DEFAULT_START_CAPACITY_def)
  let ?meta = "meta_of Info ''sorted'' ''test.rs'' 1 ''test'' (no_schemas sch)"
  let ?host = "test_host cal fp m ?meta (test_heap ''test_sort'' a s [])"
  have one: "\<exists>out. deliver ?host None (?h ts, ?d ts) (calls, Map.empty) = Some (calls @ [(s, out)], Map.empty)"
    if "ts < 2 ^ 64" for ts calls
    using deliver_accepted [of ?host "?h ts" ?meta "test_logger ''test_sort'' s []" "?d ts", OF _ _ _ hdr(2) [OF that] _ body_no_args]
    by (simp add: header_new_def filter_pass_def meta_of_def metadata_new_def)
  obtain o1 where 1: "deliver ?host None (?h 100, ?d 100) ([], Map.empty) = Some ([(s, o1)], Map.empty)"
    using one [of 100 "[]"] by auto
  obtain o2 where 2: "deliver ?host None (?h 200, ?d 200) ([(s, o1)], Map.empty) = Some ([(s, o1), (s, o2)], Map.empty)"
    using one [of 200 "[(s, o1)]"] by auto
  obtain o3 where 3: "deliver ?host None (?h 300, ?d 300) ([(s, o1), (s, o2)], Map.empty) =
      Some ([(s, o1), (s, o2), (s, o3)], Map.empty)"
    using one [of 300 "[(s, o1), (s, o2)]"] by auto
  have "decode_raws [?d 300, ?d 100, ?d 200] = [(?h 300, ?d 300), (?h 100, ?d 100), (?h 200, ?d 200)]"
    using hdr(1) by (simp add: decode_raws_def List.map_filter_def)
  moreover have "srt [(?h 300, ?d 300), (?h 100, ?d 100), (?h 200, ?d 200)] =
      [(?h 100, ?d 100), (?h 200, ?d 200), (?h 300, ?d 300)]"
    by (rule sort_three [OF assms(1)]) (simp_all add: header_new_def)
  ultimately have "process_batch (\<lambda>_. ?host) srt None [?d 300, ?d 100, ?d 200] (0, [], Map.empty) =
      Some (Suc (Suc (Suc 0)), [(s, o1), (s, o2), (s, o3)], Map.empty)"
    by (simp add: process_batch_def 1 2 3 del: One_nat_def)
  from run_worker_once [OF _ _ assms(2) this, of w3] w3(2) obtain w' where
    "run_worker R ?host srt test_options k w3 = Some ([(s, o1), (s, o2), (s, o3)], w')"
    by (auto simp: ready_def)
  then show ?thesis
    using msg w1(1) w2(1) w3(1) heap_created(1) [of a "''test_sort''" s]
    by (simp add: test_messages_sorted_by_timestamp_def assert_def sink_count_def split_beta Let_def logger_created
        del: str_Cons)
qed

end

lemma no_sink_logger: "logger_new a (str nm) [] empty_heap =
    (a, \<lparr>logger_registry = [str nm \<mapsto> a],
      loggers = [a \<mapsto> \<lparr>logger_name = str nm, level_code = word_of_nat (as_usize Info), sinks = [], filters = []\<rparr>]\<rparr>)"
  by (simp add: logger_new_def empty_heap_def)

lemma test_format_message_output_passes:
  assumes "m < 2 ^ 64" "a < 2 ^ 64"
  shows "test_format_message_output cal fp a m sch = Some ()"
proof -
  let ?h = "header_new 1700000001 m a" and ?p = "enc (SignedV 3 123) @ enc (SignedV 3 456)"
  let ?meta = "meta_of Warning ''fmt: {} {}'' ''src/main.rs'' 42 ''my_crate'' (schema_two_i32 sch)"
  have msg: "test_message ?h [SignedV 3 123, SignedV 3 456] 8 = Some (header_bytes ?h @ ?p)"
    using message_bytes [of "[SignedV 3 123, SignedV 3 456]" 8 ?h] by (simp add: size_for_k_def)
  have hdr: "decode (header_bytes ?h @ ?p) = Some ?h" "slice_from (header_bytes ?h @ ?p) HEADER_SIZE = Some ?p"
    using message_header [of ?h ?p] assms by (simp_all add: header_new_def)
  have out: "format_message (test_host cal fp m ?meta hp) None ?h ?p Map.empty =
      Some (str ''[1.700000001] [Warning] src/main.rs:42 fmt: 123 456'', [sch \<mapsto> [(1, 1), (1 + 1, 1)]])" for hp
    using body_two_i32 [of fp Warning "''src/main.rs''" 42 "''my_crate''" sch]
    by (simp add: format_message_def test_host_def header_new_def finish_message_def default_text_def to_display_nanos_def
        meta_of_def metadata_new_def Let_def del: enc.simps) (simp add: show_nat.simps show_pad_def digit_def)
  show ?thesis
    unfolding test_format_message_output_def
    by (simp only: no_sink_logger msg hdr out Let_def prod.case option.simps bind.bind_lunit fst_conv snd_conv)
      (simp add: assert_def starts_with_def)
qed

lemma test_format_message_with_custom_pattern_passes:
  assumes "m < 2 ^ 64" "a < 2 ^ 64"
  shows "test_format_message_with_custom_pattern cal fp a m sch = Some ()"
proof -
  let ?h = "header_new 1700000010000000000 m a" and ?p = "enc (SignedV 3 99)"
  let ?meta = "meta_of Error ''error {}'' ''src/lib.rs'' 100 ''rapidlog'' (schema_one_i32 sch)"
  let ?fmt = "pattern_new (map of_char ''[%l] %F:%L '' @ [0x2014] @ map of_char '' %v'')"
  have msg: "test_message ?h [SignedV 3 99] 4 = Some (header_bytes ?h @ ?p)"
    using message_bytes [of "[SignedV 3 99]" 4 ?h] by (simp add: size_for_k_def)
  have hdr: "decode (header_bytes ?h @ ?p) = Some ?h" "slice_from (header_bytes ?h @ ?p) HEADER_SIZE = Some ?p"
    using message_header [of ?h ?p] assms by (simp_all add: header_new_def)
  have out: "format_message (test_host cal fp m ?meta hp) (Some ?fmt) ?h ?p Map.empty =
      Some (str ''[Error] src/lib.rs:100 '' @ [0xE2, 0x80, 0x94] @ str '' error 99'', [sch \<mapsto> [(1, 1)]])" for hp
    using body_error [of fp Error "''src/lib.rs''" 100 "''rapidlog''" sch]
    by (simp add: format_message_def test_host_def header_new_def finish_message_def
        pattern_new_def percent_def specifier_def flush_literal_def pattern_format_def segment_text_def utf8_char_def
        meta_of_def metadata_new_def Let_def del: enc.simps) (simp add: show_nat.simps digit_def)
  show ?thesis
    unfolding test_format_message_with_custom_pattern_def
    by (simp only: no_sink_logger msg hdr out Let_def prod.case option.simps bind.bind_lunit fst_conv snd_conv)
      (simp add: assert_def starts_with_def)
qed

end
