(* ===== verification/Spec2Isabelle.thy ===== *)
theory Spec2Isabelle
  imports Concurrency Delivery Rotating Growth Derive Impls Unit_Tests_Args Unit_Tests_Queue Unit_Tests_Logging
    Unit_Tests_Sinks Unit_Tests_Worker
begin

text \<open>
  A model of \<open>rapidlog\<close>, an asynchronous logging library in Rust, and the theorems that make it
  correct.

  \<^bold>\<open>The program.\<close> A level macro (\<open>src/macros.rs\<close>) tests the logger's level, encodes a header and the raw
  bytes of the arguments into the queue of its thread (\<open>src/queue.rs\<close>, \<open>src/thread_context.rs\<close>) and
  returns. One backend thread (\<open>src/backend.rs\<close>) polls the queues of all threads, sorts each batch by
  time, checks the logger's level and filters (\<open>src/logger.rs\<close>, \<open>src/filter.rs\<close>), formats the arguments
  with the schemas of the call site (\<open>src/arg/\<close>, \<open>rapidlog_derive/\<close>), puts the text into a pattern
  (\<open>src/formatter.rs\<close>) and writes it to the sinks of the logger (\<open>src/sinks/\<close>).

  \<^bold>\<open>The theories\<close>, in the order of their imports:
    \<^item> \<open>Prelude\<close>, \<open>Rust_Text\<close>: slices that panic, little-endian bytes, decimal numbers, UTF-8, casts.
    \<^item> \<open>Level\<close>: \<open>LogLevel\<close> with its derived order, and which level macros a feature set leaves.
    \<^item> \<open>Ring\<close>: the ring of the crate \<open>rtrb\<close> as a parameter (a record of its operations) with its
      documented laws in the locale \<open>byte_ring\<close>; a concrete ring that satisfies them.
    \<^item> \<open>Queue\<close>: \<open>SpscProducer\<close> and \<open>SpscConsumer\<close> (\<open>push\<close>, \<open>push_encoded\<close>, \<open>pop\<close>, \<open>pop_all\<close>, \<open>grow\<close>). They
      refine a list of messages (\<open>queue_holds\<close>), wrap-around and a full ring included.
    \<^item> \<open>Thread_Context\<close>: contexts, registry, growth, poll. Abstract state (\<open>world_holds\<close>): for every
      thread the sequence of messages pushed and not yet taken.
    \<^item> \<open>Concurrency\<close>: threads and poll interleaved as a step relation, with its invariant.
    \<^item> \<open>Schema\<close>, \<open>Arg_Types\<close>: the schema bytecode, its measurement, the decoder \<open>format_payload\<close>; schemas,
      encoders and size estimates of every type that implements \<open>Encode\<close>, derived ones included.
      \<open>Arg_Encode\<close>, \<open>Arg_Roundtrip\<close>, \<open>Arg_Format\<close>, \<open>Arg_Display\<close>, \<open>Arg_Names\<close>: what the encoders write, the
      text a value has (\<open>render\<close>), the round trip, and where names or digits are lost.
      \<open>Impls\<close>: for which tuples and arrays the macros of \<open>src/arg/compound.rs\<close> implement the trait.
    \<^item> \<open>Message\<close>, \<open>Format_Body\<close>: metadata, the 32-byte header, the interpolation of a call's arguments
      into its format string and the cache of schema offsets. The trait \<open>Encode\<close> is the locale \<open>encode\<close> (in
      \<open>Log_Macro\<close> \<open>encode_impl\<close>), interpreted on the types of \<open>Arg_Types\<close>.
    \<^item> \<open>Logger\<close>, \<open>Formatter\<close>, \<open>Timestamp\<close>: registry of loggers, levels and filters; patterns; clocks.
    \<^item> \<open>Sinks\<close>, \<open>Rotating\<close>: the trait \<open>Sink\<close> as the locale \<open>sink\<close>, interpreted on the console, null, file and
      rotating file sinks over a disk that can be full or refuse to open or rename.
    \<^item> \<open>Derive\<close>: the derive macro (\<open>rapidlog_derive/\<close>) as a generator of statements and match arms, what the
      compiler accepts of its output, and that running the output is the derived implementation of \<open>Arg_Types\<close>.
    \<^item> \<open>Log_Macro\<close>: the expansion of \<open>log_impl!\<close>.
    \<^item> \<open>Growth\<close>: how far the rings of the unbounded mode grow.
    \<^item> \<open>Backend\<close>, \<open>Delivery\<close>: the worker, and that it makes exactly the sink calls of the logged events.
      Levels, filters and sinks may change while it runs: it meets one \<open>host\<close> for each message it handles.
    \<^item> \<open>Unit_Test\<close>, \<open>Unit_Tests_Args\<close>, \<open>Unit_Tests_Queue\<close>, \<open>Unit_Tests_Logging\<close>, \<open>Unit_Tests_Sinks\<close>,
      \<open>Unit_Tests_Worker\<close>: the unit tests of the source, transcribed onto the model (\<open>test_<name>\<close>) and proved to
      pass (\<open>test_<name>_passes\<close>), over every ring, disk, sort and address they can meet.
    \<^item> this theory: from the log call to the sinks and to the lines of a file.

  \<^bold>\<open>Representation.\<close> A panic or undefined memory access is \<open>None\<close>; memory is bytes; rings, loggers and
  sinks are addresses in heaps; \<open>usize\<close> and \<open>u64\<close> are naturals with the overflow written out where the
  code can reach it (arithmetic is checked, as in a debug build); the machine is little-endian with
  64-bit \<open>usize\<close>. A thread-local value is an entry of a map from threads. What a function reads of the
  outside (clock readings, the allocator's address, the results of polls and of loads of the stop
  flag) is an argument.

  \<^bold>\<open>Loops.\<close> All loops are total functions: the growth loop is bounded by \<open>MAX_BLOCK_CAPACITY\<close>, the poll by the
  registry, schema loops by the schema, the worker by the given ticks. The one loop whose end depends
  on the ring, \<open>pop_all\<close>, is a \<open>partial_function\<close> and is proved to return. There is no fuel.

  \<^bold>\<open>Hypotheses.\<close> \<open>byte_ring\<close> (the documented behaviour of \<open>rtrb\<close>; ring capacities are multiples of 64 below
  4 GiB, see \<open>odd_capacity_corrupts\<close>), \<open>sorts_by_time\<close> (of \<open>sort_unstable_by_key\<close>), and well-typed
  arguments. Each property with hypotheses has a witness on a concrete input.

  \<^bold>\<open>Not modelled.\<close> Memory ordering below the granularity of ring commits, lock fairness and poisoning;
  floating-point printing, the calendar of \<open>time\<close> and the terminal stream of \<open>anstream\<close> (parameters);
  user formatters, which the macro never registers
  (\<open>format_payload\<close> has them, \<open>log_impl!\<close> passes none); reading and printing of tokens by \<open>syn\<close> and
  \<open>quote\<close>; module declarations, \<open>Default\<close> implementations that only call \<open>new\<close>, integration tests, benchmark
  and example, and the unit tests that ask the compiler for \<open>Send\<close> and \<open>Sync\<close> or assert nothing.
\<close>

section \<open>From the call to the sinks\<close>

text \<open>
  The events behind the messages of a poll: a poll whose messages, thread by thread, are those of
  logged events is made of the messages of exactly these events.
\<close>

lemma by_thread_events:
  "length ts = length ms \<Longrightarrow> (\<And>t. by_thread ts ms t = map f (E t)) \<Longrightarrow>
   \<exists>es. ms = map f es \<and> (\<forall>e. e \<in> set es \<longleftrightarrow> (\<exists>t. e \<in> set (E t)))"
proof (induction ts ms arbitrary: E rule: list_induct2)
  case Nil
  then have "E t = []" for t by (simp add: by_thread_def)
  then show ?case by simp
next
  case (Cons u us m ms)
  obtain e E0 where e: "E u = e # E0" "f e = m" "by_thread us ms u = map f E0"
    using Cons.prems [of u] by (auto simp: by_thread_Cons map_eq_Cons_conv [symmetric] Cons_eq_map_conv)
  have "by_thread us ms t = map f ((E(u := E0)) t)" for t
    using Cons.prems [of t] e(3) by (auto simp: by_thread_Cons)
  then obtain es where es: "ms = map f es" "\<forall>e. e \<in> set es \<longleftrightarrow> (\<exists>t. e \<in> set ((E(u := E0)) t))"
    using Cons.IH [of "E(u := E0)"] by blast
  have "x \<in> set (e # es) \<longleftrightarrow> (\<exists>t. x \<in> set (E t))" for x
  proof -
    have "(\<exists>t. x \<in> set (E t)) \<longleftrightarrow> x \<in> set (E u) \<or> (\<exists>t. t \<noteq> u \<and> x \<in> set (E t))" by metis
    moreover have "(\<exists>t. x \<in> set ((E(u := E0)) t)) \<longleftrightarrow> x \<in> set E0 \<or> (\<exists>t. t \<noteq> u \<and> x \<in> set (E t))"
      by (metis fun_upd_other fun_upd_same)
    ultimately show ?thesis using es(2) e(1) by simp
  qed
  then show ?case using es(1) e(2) by (intro exI [of _ "e # es"]) auto
qed

text \<open>The event of a call, up to what was in its slot beyond the arguments.\<close>

definition event_of :: "CallSite \<Rightarrow> nat \<Rightarrow> nat \<Rightarrow> rval list \<Rightarrow> (bytes \<times> bytes) list \<Rightarrow> bytes \<Rightarrow> bytes \<Rightarrow> event" where
  "event_of cs a now vs parts tail rest =
     \<lparr>ev_time = now, ev_site = site_addr cs, ev_logger = a, ev_values = vs, ev_rest = rest,
      ev_types = site_types cs, ev_parts = parts, ev_tail = tail\<rparr>"

text \<open>The host knows the call site and its logger, and the call is well typed.\<close>

definition call_ok ::
    "host \<Rightarrow> (nat \<rightharpoonup> bytes) \<Rightarrow> CallSite \<Rightarrow> nat \<Rightarrow> nat \<Rightarrow> rval list \<Rightarrow> (bytes \<times> bytes) list \<Rightarrow> bytes \<Rightarrow> bool" where
  "call_ok host mem cs a now vs parts tail \<longleftrightarrow>
     metadata_at host (site_addr cs) = Some (site_metadata cs (statics_set cs)) \<and> logger_at host a \<noteq> None \<and>
     mem (site_schema_addr cs) = Some (schema_bytes (site_types cs)) \<and>
     length (site_types cs) < 256 \<and> list_all wf_ty (site_types cs) \<and> list_all2 has_type vs (site_types cs) \<and>
     site_fmt cs = template parts tail \<and> template_ok parts tail \<and>
     now < 2 ^ 64 \<and> site_addr cs < 2 ^ 64 \<and> a < 2 ^ 64 \<and>
     list_all sized vs \<and> total_msg (map encoded_size vs) < 2 ^ 63"

lemma event_of_ok:
  "call_ok host mem cs a now vs parts tail \<Longrightarrow> ev_ok host mem (event_of cs a now vs parts tail rest)"
  using site_metadata_ok [of cs]
  by (auto simp: call_ok_def ev_ok_def event_of_def ev_header_def header_ok_def header_new_def list_all_iff
      site_metadata_def metadata_new_def)





section \<open>Any sink\<close>

text \<open>
  What the worker writes to a sink that keeps the contract of the trait, whatever its calls read from
  their surroundings (\<open>envs\<close>): one line for every accepted event.
\<close>

context sink
begin

lemma worker_into_sink:
  assumes "sorts_by_time srt" and "\<forall>es \<in> set ess. \<forall>e \<in> set es. ev_ok host mem e" and "cache_ok mem cache"
    and nl: "\<And>m. line m = m @ [10]"
    and room: "accepts (length (concat (map (ev_lines host (pattern_formatter opts) s) (concat ess)))) st"
  shows "\<exists>handled calls batches groups cache'.
    worker_loop (\<lambda>_. host) srt opts (map poll_tick ess @ replicate n stop_tick) (0, [], cache) = Some (handled, calls, cache') \<and>
    concat groups = ess \<and> list_all2 batch_of batches groups \<and>
    (\<forall>envs. length envs = length (written_to s calls) \<longrightarrow>
      stored (flush (fold (\<lambda>(e, m). put_line e m) (zip envs (written_to s calls)) st)) =
        given st @ concat (map (ev_lines host (pattern_formatter opts) s) (concat batches)))"
proof -
  let ?lines = "\<lambda>es. concat (map (ev_lines host (pattern_formatter opts) s) es)"
  let ?calls = "\<lambda>es. concat (map (ev_calls host (pattern_formatter opts)) es)"
  obtain batches groups cache' where w: "worker_loop (\<lambda>_. host) srt opts (map poll_tick ess @ replicate n stop_tick) (0, [], cache) =
      Some (0 + length (concat batches), [] @ calls_at (\<lambda>_. host) (pattern_formatter opts) 0 (concat batches), cache')" "concat groups = ess" "list_all2 batch_of batches groups"
    using worker_events [OF assms(1), of ess "\<lambda>_. host" mem cache opts n 0 "[]"] assms(2,3) by auto
  let ?ms = "written_to s (?calls (concat batches))"
  have "mset (concat batches) = mset (concat ess)" using mset_batches [OF w(3)] w(2) by simp
  note len = length_lines_mset [OF this, of host "pattern_formatter opts" s]
  have "stored (flush (fold (\<lambda>(e, m). put_line e m) (zip envs ?ms) st)) = given st @ ?lines (concat batches)"
    if "length envs = length ?ms" for envs
  proof -
    have "length envs = length ms \<Longrightarrow> map (\<lambda>(e, m). line m) (zip envs ms) = map (\<lambda>m. m @ [10]) ms" for ms
      by (induction envs ms rule: list_induct2) (simp_all add: nl)
    then have "map (\<lambda>(e, m). line m) (zip envs ?ms) = map (\<lambda>m. m @ [10]) ?ms" using that by blast
    then have l: "concat (map (\<lambda>(e, m). line m) (zip envs ?ms)) = ?lines (concat batches)"
      by (simp only: lines_of_events)
    show ?thesis using writes_stored [of "zip envs ?ms" st] room unfolding l len by blast
  qed
  then show ?thesis using w by (auto simp: calls_at_same)
qed

end



end
